(* ===== verification/Kadena_Prelude.thy ===== *)
theory Kadena_Prelude
  imports Main "HOL-Library.Word" "HOL-Library.Sublist"
begin

text \<open>
  Shared vocabulary of the development: bytes, the fixed-width counters of the Rust code,
  results and state-passing programs (\<open>Result\<close> and \<open>&mut self\<close>), byte memories, and the
  generic list lemmas that several components use.
\<close>

section \<open>Bytes and machine integers\<close>

text \<open>
  A Rust \<open>u8\<close> that carries text is a \<^typ>\<open>char\<close> (Isabelle's characters are exactly the
  256 bytes), a \<open>&[u8]\<close> is a list of them, and a byte string literal \<open>b"abc"\<close> is \<open>''abc''\<close>.
  The numeric value of a byte is \<open>byte_val\<close>.
\<close>

type_synonym byte = char
type_synonym bytes = "char list"

abbreviation byte_val :: "byte \<Rightarrow> nat" where
  "byte_val c \<equiv> of_char c"

abbreviation byte_of :: "nat \<Rightarrow> byte" where
  "byte_of n \<equiv> char_of n"

text \<open>The NUL byte.\<close>

definition NUL :: byte where
  "NUL = CHR 0x00"

text \<open>Unsigned casts and wrapping arithmetic: \<open>as u16\<close>, \<open>as u8\<close>.\<close>

definition u16 :: "nat \<Rightarrow> nat" where
  "u16 n = n mod 65536"

definition u8 :: "nat \<Rightarrow> nat" where
  "u8 n = n mod 256"

lemma u16_less [simp]: "u16 n < 65536"
  by (simp add: u16_def)

lemma u16_id [simp]: "n < 65536 \<Longrightarrow> u16 n = n"
  by (simp add: u16_def)

lemma u16_le: "u16 n \<le> n"
  by (simp add: u16_def)

lemma u16_wrap: "n < 65536 \<Longrightarrow> u16 (n + 65536) = n"
  by (simp add: u16_def)

lemma u8_less [simp]: "u8 n < 256"
  by (simp add: u8_def)

lemma u8_id [simp]: "n < 256 \<Longrightarrow> u8 n = n"
  by (simp add: u8_def)

lemma byte_val_less [simp]: "byte_val c < 256"
  by (cases c) (simp add: of_char_def horner_sum_simps split: if_splits)

lemma byte_val_inj: "byte_val c = byte_val d \<longleftrightarrow> c = d"
  by simp

subsection \<open>Character classes (\<open>u8::is_ascii_*\<close>)\<close>

definition is_ascii_digit :: "byte \<Rightarrow> bool" where
  "is_ascii_digit c \<longleftrightarrow> 48 \<le> byte_val c \<and> byte_val c \<le> 57"

definition is_ascii_alphabetic :: "byte \<Rightarrow> bool" where
  "is_ascii_alphabetic c \<longleftrightarrow>
     65 \<le> byte_val c \<and> byte_val c \<le> 90 \<or> 97 \<le> byte_val c \<and> byte_val c \<le> 122"

definition is_ascii_alphanumeric :: "byte \<Rightarrow> bool" where
  "is_ascii_alphanumeric c \<longleftrightarrow> is_ascii_alphabetic c \<or> is_ascii_digit c"

definition is_ascii_hexdigit :: "byte \<Rightarrow> bool" where
  "is_ascii_hexdigit c \<longleftrightarrow> is_ascii_digit c \<or>
     65 \<le> byte_val c \<and> byte_val c \<le> 70 \<or> 97 \<le> byte_val c \<and> byte_val c \<le> 102"

text \<open>\<open>to_ascii_lowercase\<close>, the comparison behind \<open>eq_ignore_ascii_case\<close>.\<close>

definition ascii_lower :: "byte \<Rightarrow> byte" where
  "ascii_lower c =
     (if 65 \<le> byte_val c \<and> byte_val c \<le> 90 then byte_of (byte_val c + 32) else c)"

definition eq_ignore_ascii_case :: "bytes \<Rightarrow> bytes \<Rightarrow> bool" where
  "eq_ignore_ascii_case a b \<longleftrightarrow> map ascii_lower a = map ascii_lower b"

text \<open>The value of a decimal digit, \<open>b - b'0'\<close>, and back.\<close>

definition digit_val :: "byte \<Rightarrow> nat" where
  "digit_val c = byte_val c - 48"

definition digit_byte :: "nat \<Rightarrow> byte" where
  "digit_byte d = byte_of (48 + d)"

lemma byte_val_of [simp]: "n < 256 \<Longrightarrow> byte_val (byte_of n) = n"
  by (simp add: of_char_of)

lemma digit_byte_is_digit [simp]: "d < 10 \<Longrightarrow> is_ascii_digit (digit_byte d)"
  by (simp add: digit_byte_def is_ascii_digit_def)

lemma digit_val_byte [simp]: "d < 10 \<Longrightarrow> digit_val (digit_byte d) = d"
  by (simp add: digit_byte_def digit_val_def)

lemma digit_byte_val [simp]: "is_ascii_digit c \<Longrightarrow> digit_byte (digit_val c) = c"
  by (simp add: is_ascii_digit_def digit_val_def digit_byte_def)

lemma digit_val_less: "is_ascii_digit c \<Longrightarrow> digit_val c < 10"
  unfolding is_ascii_digit_def digit_val_def by linarith

lemma dot_not_digit [simp]: "\<not> is_ascii_digit (CHR ''.'')"
  by code_simp

text \<open>One or more digits.\<close>

definition all_digits :: "bytes \<Rightarrow> bool" where
  "all_digits v \<longleftrightarrow> v \<noteq> [] \<and> list_all is_ascii_digit v"

text \<open>The two hexadecimal digits of a byte over a digit alphabet.\<close>

definition hex_pair :: "bytes \<Rightarrow> byte \<Rightarrow> bytes" where
  "hex_pair tab b = [tab ! (byte_val b div 16), tab ! (byte_val b mod 16)]"

text \<open>A list splits at the first occurrence of a separator in one way only.\<close>

lemma first_split_unique:
  "a @ c # b = a' @ c # b' \<Longrightarrow> c \<notin> set a \<Longrightarrow> c \<notin> set a' \<Longrightarrow> a = a' \<and> b = b'"
proof (induction a arbitrary: a')
  case Nil
  then show ?case by (cases a') auto
next
  case (Cons x a)
  then show ?case by (cases a') auto
qed

section \<open>Results and state-passing programs\<close>

text \<open>
  A fallible pure function returns \<open>'e + 'a\<close> (\<open>Inl\<close> the error). \<open>rbind\<close> is the \<open>?\<close>
  operator on such a result.
\<close>

definition rbind :: "'e + 'a \<Rightarrow> ('a \<Rightarrow> 'e + 'b) \<Rightarrow> 'e + 'b" where
  "rbind r f = (case r of Inl e \<Rightarrow> Inl e | Inr x \<Rightarrow> f x)"

definition is_ok :: "'e + 'a \<Rightarrow> bool" where
  "is_ok r = (case r of Inl _ \<Rightarrow> False | Inr _ \<Rightarrow> True)"

definition map_err :: "('e \<Rightarrow> 'f) \<Rightarrow> 'e + 'a \<Rightarrow> 'f + 'a" where
  "map_err g r = (case r of Inl e \<Rightarrow> Inl (g e) | Inr x \<Rightarrow> Inr x)"

definition ok_or :: "'e \<Rightarrow> 'a option \<Rightarrow> 'e + 'a" where
  "ok_or e v = (case v of None \<Rightarrow> Inl e | Some x \<Rightarrow> Inr x)"

lemma rbind_simps [simp]:
  "rbind (Inl e) f = Inl e" "rbind (Inr x) f = f x"
  by (simp_all add: rbind_def)

lemma rbind_Inr_iff: "rbind r f = Inr y \<longleftrightarrow> (\<exists>x. r = Inr x \<and> f x = Inr y)"
  by (cases r) auto

lemma is_ok_simps [simp]: "is_ok (Inl e) = False" "is_ok (Inr x) = True"
  by (simp_all add: is_ok_def)

lemma is_ok_iff: "is_ok r \<longleftrightarrow> (\<exists>x. r = Inr x)"
  by (cases r) auto

lemma not_is_ok_iff: "\<not> is_ok r \<longleftrightarrow> (\<exists>e. r = Inl e)"
  by (cases r) auto

lemma map_err_simps [simp]: "map_err g (Inl e) = Inl (g e)" "map_err g (Inr x) = Inr x"
  by (simp_all add: map_err_def)

lemma map_err_Inr_iff [simp]: "map_err g r = Inr x \<longleftrightarrow> r = Inr x"
  by (cases r) auto

lemma ok_or_simps [simp]: "ok_or e None = Inl e" "ok_or e (Some x) = Inr x"
  by (simp_all add: ok_or_def)

lemma ok_or_Inr_iff [simp]: "ok_or e v = Inr x \<longleftrightarrow> v = Some x"
  by (cases v) auto

text \<open>
  A method with \<open>&mut self\<close> that returns a \<open>Result\<close> is a function from the state to the result
  and the new state; the state changes made before an error are kept, as in Rust.
\<close>

type_synonym ('s, 'e, 'a) prog = "'s \<Rightarrow> ('e + 'a) \<times> 's"

definition ret :: "'a \<Rightarrow> ('s, 'e, 'a) prog" where
  "ret x s = (Inr x, s)"

definition fails :: "'e \<Rightarrow> ('s, 'e, 'a) prog" where
  "fails e s = (Inl e, s)"

definition bnd :: "('s, 'e, 'a) prog \<Rightarrow> ('a \<Rightarrow> ('s, 'e, 'b) prog) \<Rightarrow> ('s, 'e, 'b) prog" where
  "bnd m f s = (case m s of (Inl e, s') \<Rightarrow> (Inl e, s') | (Inr x, s') \<Rightarrow> f x s')"

definition thn :: "('s, 'e, unit) prog \<Rightarrow> ('s, 'e, 'b) prog \<Rightarrow> ('s, 'e, 'b) prog" where
  "thn m n = bnd m (\<lambda>_. n)"

definition reads :: "('s \<Rightarrow> 'a) \<Rightarrow> ('s, 'e, 'a) prog" where
  "reads f s = (Inr (f s), s)"

definition modifies :: "('s \<Rightarrow> 's) \<Rightarrow> ('s, 'e, unit) prog" where
  "modifies f s = (Inr (), f s)"

definition lifts :: "'e + 'a \<Rightarrow> ('s, 'e, 'a) prog" where
  "lifts r s = (r, s)"

lemma thn_eq: "thn m n s = (case m s of (Inl e, s') \<Rightarrow> (Inl e, s') | (Inr _, s') \<Rightarrow> n s')"
  by (simp add: thn_def bnd_def)

text \<open>
  Weakest preconditions: \<open>Q\<close> holds of the result and the final state of a success, \<open>E\<close> of the
  error and the final state of a failure.
\<close>

definition wp :: "('s, 'e, 'a) prog \<Rightarrow> ('a \<Rightarrow> 's \<Rightarrow> bool) \<Rightarrow> ('e \<Rightarrow> 's \<Rightarrow> bool) \<Rightarrow> 's \<Rightarrow> bool" where
  "wp m Q E s = (case m s of (Inr x, s') \<Rightarrow> Q x s' | (Inl e, s') \<Rightarrow> E e s')"

named_theorems wp_simps

lemma wp_ret [wp_simps]: "wp (ret x) Q E s = Q x s"
  by (simp add: wp_def ret_def)

lemma wp_fails [wp_simps]: "wp (fails e) Q E s = E e s"
  by (simp add: wp_def fails_def)

lemma wp_bnd [wp_simps]: "wp (bnd m f) Q E s = wp m (\<lambda>x. wp (f x) Q E) E s"
  by (simp add: wp_def bnd_def split: prod.splits sum.splits)

lemma wp_thn [wp_simps]: "wp (thn m n) Q E s = wp m (\<lambda>_. wp n Q E) E s"
  by (simp add: thn_def wp_bnd)

lemma wp_reads [wp_simps]: "wp (reads f) Q E s = Q (f s) s"
  by (simp add: wp_def reads_def)

lemma wp_modifies [wp_simps]: "wp (modifies f) Q E s = Q () (f s)"
  by (simp add: wp_def modifies_def)

lemma wp_lifts [wp_simps]: "wp (lifts r) Q E s = (case r of Inl e \<Rightarrow> E e s | Inr x \<Rightarrow> Q x s)"
  by (simp add: wp_def lifts_def split: sum.splits)

lemma wp_if [wp_simps]: "wp (if c then m else n) Q E s = (if c then wp m Q E s else wp n Q E s)"
  by simp

lemma wp_mono:
  "wp m Q E s \<Longrightarrow> (\<And>x s'. Q x s' \<Longrightarrow> Q' x s') \<Longrightarrow> (\<And>e s'. E e s' \<Longrightarrow> E' e s') \<Longrightarrow> wp m Q' E' s"
  by (simp add: wp_def split: prod.splits sum.splits)

lemma wp_conj: "wp m Q E s \<Longrightarrow> wp m Q' E' s \<Longrightarrow> wp m (\<lambda>x s'. Q x s' \<and> Q' x s') (\<lambda>e s'. E e s' \<and> E' e s') s"
  by (simp add: wp_def split: prod.splits sum.splits)

lemma wpD: "wp m Q E s \<Longrightarrow> m s = (Inr x, s') \<Longrightarrow> Q x s'"
  by (simp add: wp_def)

lemma wpI: "(\<And>x s'. m s = (Inr x, s') \<Longrightarrow> Q x s') \<Longrightarrow> (\<And>e s'. m s = (Inl e, s') \<Longrightarrow> E e s') \<Longrightarrow> wp m Q E s"
  by (simp add: wp_def split: prod.splits sum.splits)

end
