(* ===== verification/Fee.thy ===== *)
theory Fee
  imports Complex_Main Kadena_Prelude
begin

text \<open>
  The maximum fee, \<open>gasLimit * gasPrice\<close>, computed exactly in decimal (\<open>fee.rs\<close>). The second
  half proves that the text written is the exact product of the two numbers read, with no
  rounding, and that the \<open>u32\<close> accumulator never overflows.
\<close>

section \<open>Reading a decimal\<close>

definition MAX_DIGITS :: nat where "MAX_DIGITS = 300"
definition MAX_EXP :: nat where "MAX_EXP = 400"

text \<open>\<open>Dec\<close>: \<open>digits\<close> times ten to the power \<open>-scale\<close>.\<close>

record dec =
  digits :: "nat list"
  scale :: int

text \<open>The digit loops: push every digit (refused when the array is full), stop at the rest.\<close>

fun read_digits :: "nat list \<Rightarrow> bytes \<Rightarrow> (nat list \<times> bytes) option" where
  "read_digits ds [] = Some (ds, [])"
| "read_digits ds (c # cs) =
     (if is_ascii_digit c
      then (if length ds = MAX_DIGITS then None else read_digits (ds @ [digit_val c]) cs)
      else Some (ds, c # cs))"

text \<open>The fraction: \<open>'.'\<close> and at least one digit, which set the scale.\<close>

definition read_fraction :: "nat list \<Rightarrow> bytes \<Rightarrow> (nat list \<times> int \<times> bytes) option" where
  "read_fraction ds r =
     (if r \<noteq> [] \<and> hd r = CHR ''.'' then
        (case read_digits ds (tl r) of
           None \<Rightarrow> None
         | Some (ds', u) \<Rightarrow>
             if length u = length (tl r) then None
             else Some (ds', int (length (tl r) - length u), u))
      else Some (ds, 0, r))"

text \<open>
  The exponent digits. \<open>e\<close> is at most \<open>MAX_EXP\<close> before each step, so the \<open>i32\<close>
  \<open>checked_mul\<close> and \<open>checked_add\<close> never fail.
\<close>

fun exp_digits :: "nat \<Rightarrow> bytes \<Rightarrow> (nat \<times> bytes) option" where
  "exp_digits e [] = Some (e, [])"
| "exp_digits e (c # cs) =
     (if is_ascii_digit c
      then (let e' = e * 10 + digit_val c in
            if e' > MAX_EXP then None else exp_digits e' cs)
      else Some (e, c # cs))"

definition exp_sign :: "bytes \<Rightarrow> bool \<times> bytes" where
  "exp_sign t = (case t of
     [] \<Rightarrow> (False, t)
   | c # v \<Rightarrow> if c = CHR ''-'' then (True, v) else if c = CHR ''+'' then (False, v)
              else (False, t))"

definition read_exponent :: "int \<Rightarrow> bytes \<Rightarrow> (int \<times> bytes) option" where
  "read_exponent sc r =
     (if r \<noteq> [] \<and> (hd r = CHR ''e'' \<or> hd r = CHR ''E'') then
        (case exp_sign (tl r) of (neg, u) \<Rightarrow>
          (case exp_digits 0 u of
             None \<Rightarrow> None
           | Some (e, v) \<Rightarrow>
               if length v = length u then None
               else Some (sc - (if neg then - int e else int e), v)))
      else Some (sc, r))"

definition fee_parse :: "bytes \<Rightarrow> dec option" where
  "fee_parse s =
     (case read_digits [] s of
        None \<Rightarrow> None
      | Some (ds, r) \<Rightarrow>
          if length r = length s then None
          else (case read_fraction ds r of
             None \<Rightarrow> None
           | Some (ds', sc, r') \<Rightarrow>
               (case read_exponent sc r' of
                  None \<Rightarrow> None
                | Some (sc', r'') \<Rightarrow>
                    if r'' \<noteq> [] then None else Some \<lparr>digits = ds', scale = sc'\<rparr>)))"

section \<open>The product\<close>

text \<open>
  The accumulator \<open>acc\<close> (only its first \<open>n = a.len + b.len\<close> entries are used). \<open>add_row\<close> is
  the inner loop (\<open>acc[i + j + 1] += a_i * b_j\<close>), \<open>add_rows\<close> the outer one, \<open>carries\<close> the
  carry loop from \<open>k\<close> down to 1.
\<close>

fun add_row :: "nat \<Rightarrow> nat \<Rightarrow> nat list \<Rightarrow> nat list \<Rightarrow> nat list" where
  "add_row k d [] acc = acc"
| "add_row k d (b # bs) acc = add_row (Suc k) d bs (acc[k := acc ! k + d * b])"

fun add_rows :: "nat \<Rightarrow> nat list \<Rightarrow> nat list \<Rightarrow> nat list \<Rightarrow> nat list" where
  "add_rows i [] bs acc = acc"
| "add_rows i (a # as) bs acc = add_rows (Suc i) as bs (add_row (Suc i) a bs acc)"

fun carries :: "nat \<Rightarrow> nat list \<Rightarrow> nat list" where
  "carries 0 acc = acc"
| "carries (Suc k) acc =
     (let c = acc ! Suc k div 10 in
      carries k (acc[Suc k := acc ! Suc k mod 10, k := acc ! k + c]))"

definition product :: "nat list \<Rightarrow> nat list \<Rightarrow> nat list" where
  "product as bs =
     (let n = length as + length bs in
      carries (n - 1) (add_rows 0 as bs (replicate n 0)))"

section \<open>Writing the product\<close>

text \<open>
  The digits of \<open>p * 10^(-scale)\<close> in plain notation, as the sequence of \<open>put\<close> calls;
  \<open>p\<close> has no leading zero.
\<close>

definition write_product :: "nat list \<Rightarrow> int \<Rightarrow> bytes" where
  "write_product p sc =
     (if p = [] then ''0''
      else if sc \<le> 0 then map digit_byte p @ replicate (nat (- sc)) (CHR ''0'')
      else (let int_len = int (length p) - sc;
                frac_end = length p - length (takeWhile (\<lambda>d. d = 0) (rev p));
                frac_start = nat (max int_len 0) in
        (if int_len > 0 then map digit_byte (take (nat int_len) p) else ''0'') @
        (if frac_end > frac_start \<or> (int_len < 0 \<and> frac_end > 0)
         then ''.'' @ replicate (nat (max (- int_len) 0)) (CHR ''0'') @
              map digit_byte (drop frac_start (take frac_end p))
         else [])))"

text \<open>\<open>max_fee\<close>: \<open>cap\<close> is \<open>out.len()\<close>; a \<open>put\<close> past it refuses the fee.\<close>

definition max_fee :: "bytes \<Rightarrow> bytes \<Rightarrow> nat \<Rightarrow> bytes option" where
  "max_fee limit price cap =
     (case fee_parse limit of
        None \<Rightarrow> None
      | Some a \<Rightarrow>
          (case fee_parse price of
             None \<Rightarrow> None
           | Some b \<Rightarrow>
               (let ds = product (digits a) (digits b);
                    out = write_product (dropWhile (\<lambda>d. d = 0) ds) (scale a + scale b) in
                if length out \<le> cap then Some out else None)))"

section \<open>The number a digit string denotes\<close>

definition num :: "nat list \<Rightarrow> nat" where
  "num ds = foldl (\<lambda>a d. 10 * a + d) 0 ds"

definition dec_value :: "dec \<Rightarrow> rat" where
  "dec_value d = of_nat (num (digits d)) * 10 powi (- scale d)"

lemma num_foldl: "foldl (\<lambda>a d. 10 * a + d) x ds = x * 10 ^ length ds + num ds"
proof (induction ds arbitrary: x)
  case (Cons d ds)
  from Cons [of "10 * x + d"] Cons [of d] show ?case by (simp add: num_def algebra_simps)
qed (simp add: num_def)

lemma num_simps [simp]: "num [] = 0" "num (d # ds) = d * 10 ^ length ds + num ds"
  by (simp add: num_def, simp add: num_def num_foldl [of d])

lemma num_append: "num (xs @ ys) = num xs * 10 ^ length ys + num ys"
  by (induction xs) (simp_all add: power_add algebra_simps)

lemma num_zeros [simp]: "num (replicate k 0) = 0"
  by (induction k) simp_all

lemma num_less: "list_all (\<lambda>d. d < 10) ds \<Longrightarrow> num ds < 10 ^ length ds"
proof (induction ds)
  case (Cons d ds)
  then have "num ds < 10 ^ length ds" "Suc d \<le> 10" by auto
  then have "d * 10 ^ length ds + num ds < Suc d * 10 ^ length ds" by simp
  also have "\<dots> \<le> 10 * 10 ^ length ds" using \<open>Suc d \<le> 10\<close> by (rule mult_le_mono1)
  finally show ?case by simp
qed simp

lemma num_add_at: "k < length xs \<Longrightarrow>
  num (xs[k := xs ! k + v]) = num xs + v * 10 ^ (length xs - Suc k)"
proof (induction xs arbitrary: k)
  case (Cons x xs)
  then show ?case by (cases k) (auto simp: algebra_simps)
qed simp

lemma num_dropWhile: "num (dropWhile (\<lambda>d. d = 0) ds) = num ds"
  by (induction ds) simp_all

section \<open>The product is exact\<close>

lemma length_add_row [simp]: "length (add_row k d bs acc) = length acc"
  by (induction bs arbitrary: k acc) simp_all

lemma length_add_rows [simp]: "length (add_rows i as bs acc) = length acc"
  by (induction as arbitrary: i acc) simp_all

lemma length_carries [simp]: "length (carries k acc) = length acc"
  by (induction k acc rule: carries.induct) (simp_all add: Let_def)

lemma num_add_row: "k + length bs \<le> length acc \<Longrightarrow>
  num (add_row k d bs acc) = num acc + d * num bs * 10 ^ (length acc - k - length bs)"
proof (induction bs arbitrary: k acc)
  case (Cons b bs)
  then have e: "length acc - Suc k = length bs + (length acc - Suc (k + length bs))" by simp
  have "num (add_row k d (b # bs) acc) =
      num acc + d * b * 10 ^ (length acc - Suc k)
      + d * num bs * 10 ^ (length acc - Suc (k + length bs))"
    using Cons by (simp add: num_add_at)
  also have "\<dots> = num acc + d * num (b # bs) * 10 ^ (length acc - Suc (k + length bs))"
    unfolding e power_add by (simp add: algebra_simps)
  finally show ?case by simp
qed simp

lemma num_add_rows: "i + length as + length bs \<le> length acc \<Longrightarrow>
  num (add_rows i as bs acc) =
    num acc + num as * num bs * 10 ^ (length acc - i - length as - length bs)"
proof (induction as arbitrary: i acc)
  case (Cons a as)
  let ?e = "length acc - Suc (i + length as) - length bs"
  have e: "length acc - Suc i - length bs = length as + ?e" using Cons.prems by simp
  have "num (add_rows i (a # as) bs acc) =
      num acc + a * num bs * 10 ^ (length acc - Suc i - length bs) + num as * num bs * 10 ^ ?e"
    using Cons by (simp add: num_add_row)
  also have "\<dots> = num acc + num (a # as) * num bs * 10 ^ ?e"
    unfolding e power_add by (simp add: algebra_simps)
  finally show ?case by simp
qed simp

lemma num_carry_step:
  assumes "Suc k < length acc"
  shows "num (acc[Suc k := acc ! Suc k mod 10, k := acc ! k + acc ! Suc k div 10]) = num acc"
proof -
  let ?r = "acc ! Suc k mod 10" and ?c = "acc ! Suc k div 10"
  let ?b = "acc[Suc k := ?r]"
  have "num (?b[Suc k := ?b ! Suc k + 10 * ?c]) =
      num ?b + 10 * ?c * 10 ^ (length acc - Suc (Suc k))"
    using assms num_add_at [of "Suc k" ?b "10 * ?c"] by simp
  moreover have "?b[Suc k := ?b ! Suc k + 10 * ?c] = acc" using assms by simp
  moreover have "num (?b[k := ?b ! k + ?c]) = num ?b + ?c * 10 ^ (length acc - Suc k)"
    using assms num_add_at [of k ?b ?c] by simp
  moreover have "10 * (10::nat) ^ (length acc - Suc (Suc k)) = 10 ^ (length acc - Suc k)"
    using assms by (simp flip: power_Suc add: Suc_diff_Suc)
  ultimately show ?thesis by (simp add: algebra_simps)
qed

lemma num_carries: "k < length acc \<Longrightarrow> num (carries k acc) = num acc"
proof (induction k acc rule: carries.induct)
  case (2 k acc)
  then show ?case using num_carry_step [of k acc] by (simp add: Let_def)
qed simp

lemma num_product: "as \<noteq> [] \<Longrightarrow> num (product as bs) = num as * num bs"
  by (simp add: product_def Let_def num_carries num_add_rows)

text \<open>After the carry loop every entry is a digit.\<close>

lemma carries_above: "k < j \<Longrightarrow> carries k acc ! j = acc ! j"
  by (induction k acc rule: carries.induct) (simp_all add: Let_def)

lemma carries_digit: "0 < j \<Longrightarrow> j \<le> k \<Longrightarrow> k < length acc \<Longrightarrow> carries k acc ! j < 10"
proof (induction k acc rule: carries.induct)
  case (2 k acc)
  then show ?case
    by (cases "j = Suc k") (simp_all add: Let_def carries_above)
qed simp

lemma num_hd_le: "ds \<noteq> [] \<Longrightarrow> hd ds * 10 ^ (length ds - 1) \<le> num ds"
  by (cases ds) simp_all

lemma product_digits:
  assumes "as \<noteq> []" "bs \<noteq> []" "list_all (\<lambda>d. d < 10) as" "list_all (\<lambda>d. d < 10) bs"
  shows "list_all (\<lambda>d. d < 10) (product as bs)"
proof -
  let ?p = "product as bs" and ?n = "length as + length bs"
  have len: "length ?p = ?n" by (simp add: product_def Let_def)
  have ne: "?p \<noteq> []" using len assms(1) by (metis add_is_0 length_0_conv)
  have tail: "?p ! j < 10" if "0 < j" "j < ?n" for j
    using that by (simp add: product_def Let_def carries_digit)
  have "num ?p < 10 ^ ?n"
    using num_less [OF assms(3)] num_less [OF assms(4)] assms(1)
    by (simp add: num_product power_add mult_strict_mono)
  then have "hd ?p * 10 ^ (?n - 1) < 10 ^ ?n" using num_hd_le [OF ne] len by simp
  also have "(10::nat) ^ ?n = 10 * 10 ^ (?n - 1)"
    using assms(1) by (cases ?n) simp_all
  finally have "?p ! 0 < 10" using ne by (simp add: hd_conv_nth)
  with tail show ?thesis unfolding list_all_length len by (metis gr0I)
qed


section \<open>The text written denotes the product\<close>

lemma zero_byte: "CHR ''0'' = digit_byte 0"
  by code_simp

lemma read_digits_map:
  "list_all (\<lambda>d. d < 10) ds \<Longrightarrow> length acc + length ds \<le> MAX_DIGITS \<Longrightarrow>
   r = [] \<or> \<not> is_ascii_digit (hd r) \<Longrightarrow>
   read_digits acc (map digit_byte ds @ r) = Some (acc @ ds, r)"
proof (induction ds arbitrary: acc)
  case Nil
  then show ?case by (cases r) simp_all
qed simp

text \<open>Plain notation: an integer part and, when there is one, a fraction.\<close>

definition plain :: "nat list \<Rightarrow> nat list \<Rightarrow> bytes" where
  "plain is fs = map digit_byte is @ (if fs = [] then [] else ''.'' @ map digit_byte fs)"

lemma fee_parse_plain:
  assumes "is \<noteq> []" "list_all (\<lambda>d. d < 10) (is @ fs)" "length (is @ fs) \<le> MAX_DIGITS"
  shows "fee_parse (plain is fs) = Some \<lparr>digits = is @ fs, scale = int (length fs)\<rparr>"
proof -
  let ?r = "if fs = [] then [] else ''.'' @ map digit_byte fs"
  have "read_digits [] (plain is fs) = Some (is, ?r)"
    unfolding plain_def using assms read_digits_map [of "is" "[]" ?r] by simp
  moreover have "length ?r \<noteq> length (plain is fs)" using assms by (simp add: plain_def)
  moreover have "read_fraction is ?r = Some (is @ fs, int (length fs), [])"
    using assms read_digits_map [of fs "is" "[]"] by (simp add: read_fraction_def)
  ultimately show ?thesis by (simp add: fee_parse_def read_exponent_def)
qed

lemma take_nonzero_tail:
  fixes p :: "nat list"
  defines "k \<equiv> length p - length (takeWhile (\<lambda>d. d = 0) (rev p))"
  shows "p = take k p @ replicate (length p - k) 0"
    and "take k p \<noteq> [] \<Longrightarrow> last (take k p) \<noteq> 0"
proof -
  let ?z = "takeWhile (\<lambda>d. d = 0) (rev p)" and ?d = "dropWhile (\<lambda>d. d = 0) (rev p)"
  have p: "p = rev ?d @ rev ?z" by (metis rev_append rev_rev_ident takeWhile_dropWhile_id)
  have z: "?z = replicate (length ?z) 0"
    by (rule replicate_eqI) (auto dest: set_takeWhileD)
  have k: "length (rev ?d) = k"
  proof -
    have "length p = length ?z + length ?d"
      by (metis length_append length_rev takeWhile_dropWhile_id)
    then show ?thesis by (simp add: k_def)
  qed
  have t: "take k p = rev ?d" by (subst p) (simp add: k [symmetric])
  have "rev ?z = replicate (length p - k) 0"
    using z by (metis add_diff_cancel_left' k length_append length_rev p rev_replicate)
  with p t show "p = take k p @ replicate (length p - k) 0" by simp
  show "last (take k p) \<noteq> 0" if "take k p \<noteq> []"
    using that hd_dropWhile [of "\<lambda>d. d = 0" "rev p"] by (simp add: t last_rev)
qed

lemma pow_powi: "(10::rat) ^ a * 10 powi b = 10 powi (int a + b)"
  by (simp add: power_int_add)

text \<open>
  \<open>written p sc is fs\<close>: the text for \<open>p * 10^(-sc)\<close> is \<open>is.fs\<close>, which denotes that number and
  is in canonical form (no leading zero, no trailing fraction zero).
\<close>

definition written :: "nat list \<Rightarrow> int \<Rightarrow> nat list \<Rightarrow> nat list \<Rightarrow> bool" where
  "written p sc is fs \<longleftrightarrow> write_product p sc = plain is fs \<and> is \<noteq> [] \<and>
     list_all (\<lambda>d. d < 10) (is @ fs) \<and>
     of_nat (num (is @ fs)) * 10 powi (- int (length fs)) = of_nat (num p) * (10::rat) powi (- sc) \<and>
     (length is > 1 \<longrightarrow> hd is \<noteq> 0) \<and> (fs \<noteq> [] \<longrightarrow> last fs \<noteq> 0)"

text \<open>The digits of a product up to its last non-zero one, and what is behind them.\<close>

definition nonzero_len :: "nat list \<Rightarrow> nat" where
  "nonzero_len p = length p - length (takeWhile (\<lambda>d. d = 0) (rev p))"

lemma nonzero_len:
  assumes "p \<noteq> []" "hd p \<noteq> 0"
  shows "p = take (nonzero_len p) p @ replicate (length p - nonzero_len p) 0" "last (take (nonzero_len p) p) \<noteq> 0"
    "nonzero_len p \<le> length p" "0 < nonzero_len p"
    "num p = num (take (nonzero_len p) p) * 10 ^ (length p - nonzero_len p)"
proof -
  show split: "p = take (nonzero_len p) p @ replicate (length p - nonzero_len p) 0"
    unfolding nonzero_len_def by (rule take_nonzero_tail)
  show "nonzero_len p \<le> length p" by (simp add: nonzero_len_def)
  show pos: "0 < nonzero_len p" using split assms
    by (metis hd_replicate append_Nil gr0I length_0_conv minus_nat.diff_0 replicate_empty take0)
  then have "take (nonzero_len p) p \<noteq> []" using assms(1) by simp
  then show "last (take (nonzero_len p) p) \<noteq> 0" unfolding nonzero_len_def by (rule take_nonzero_tail)
  show "num p = num (take (nonzero_len p) p) * 10 ^ (length p - nonzero_len p)" by (subst split) (simp add: num_append)
qed

lemma digits_part: "list_all (\<lambda>d. d < 10) p \<Longrightarrow> list_all (\<lambda>d. d < 10) (take m p)"
  by (auto simp: list_all_iff dest: in_set_takeD)

lemma written_whole:
  assumes "list_all (\<lambda>d. d < 10) p" "p \<noteq> []" "hd p \<noteq> 0"
  shows "written p (- int k) (p @ replicate k 0) []"
proof -
  have "write_product p (- int k) = plain (p @ replicate k 0) []"
    using assms(2) by (simp add: write_product_def plain_def zero_byte map_replicate)
  moreover have "of_nat (num (p @ replicate k 0)) = of_nat (num p) * (10::rat) powi (- (- int k))"
    by (simp add: num_append)
  ultimately show ?thesis using assms by (auto simp: written_def list_all_iff)
qed

text \<open>The decimal point inside the digits that are written.\<close>

lemma written_point:
  assumes "list_all (\<lambda>d. d < 10) p" "p \<noteq> []" "hd p \<noteq> 0" "length p = m + s" "0 < s" "0 < m" "m < nonzero_len p"
  shows "written p (int s) (take m p) (drop m (take (nonzero_len p) p))"
proof -
  note k = nonzero_len [OF assms(2,3)]
  let ?is = "take m p" and ?fs = "drop m (take (nonzero_len p) p)"
  have m: "m < length p" "int (length p) - int s = int m" using assms(4,5) by simp_all
  have joined: "?is @ ?fs = take (nonzero_len p) p"
    using assms(7) by (metis append_take_drop_id min.absorb1 less_imp_le_nat take_take)
  have "write_product p (int s) = plain ?is ?fs"
    using assms m k(3) by (simp add: write_product_def plain_def Let_def nonzero_len_def [symmetric])
  moreover have "of_nat (num (take (nonzero_len p) p)) * 10 powi (- int (length ?fs)) = of_nat (num p) * (10::rat) powi (- int s)"
    using assms(4,7) k(3) by (simp add: k(5) mult.assoc pow_powi of_nat_diff)
  moreover have "last ?fs \<noteq> 0" using k(2,3,4) assms(2,7) by (simp add: last_drop)
  moreover have "hd ?is \<noteq> 0" using assms(2,3,6) by simp
  ultimately show ?thesis unfolding written_def joined using m assms(2,6,7) digits_part [OF assms(1)] by auto
qed

text \<open>The decimal point behind them: an integer.\<close>

lemma written_integer:
  assumes "list_all (\<lambda>d. d < 10) p" "p \<noteq> []" "hd p \<noteq> 0" "length p = m + s" "0 < s" "0 < m" "nonzero_len p \<le> m"
  shows "written p (int s) (take m p) []"
proof -
  note k = nonzero_len [OF assms(2,3)]
  have m: "m < length p" "int (length p) - int s = int m" using assms(4,5) by simp_all
  have tm: "take m p = take (nonzero_len p) p @ replicate (m - nonzero_len p) 0"
  proof -
    have "take m p = take m (take (nonzero_len p) p @ replicate (length p - nonzero_len p) 0)" using k(1) by simp
    also have "\<dots> = take (nonzero_len p) p @ replicate (m - nonzero_len p) 0" using assms(7) m(1) k(3) by (simp add: min_def)
    finally show ?thesis .
  qed
  have "write_product p (int s) = plain (take m p) []"
    using assms m by (simp add: write_product_def plain_def Let_def nonzero_len_def [symmetric])
  moreover have "of_nat (num (take m p)) = of_nat (num p) * (10::rat) powi (- int s)"
    using assms(4,7) k(3) by (simp add: tm num_append k(5) mult.assoc pow_powi)
      (simp add: of_nat_diff algebra_simps flip: power_int_of_nat)
  ultimately show ?thesis using m assms(2,3,6) digits_part [OF assms(1)] by (simp add: written_def)
qed

text \<open>The decimal point in front of them: zeros first.\<close>

lemma written_fraction:
  assumes "list_all (\<lambda>d. d < 10) p" "p \<noteq> []" "hd p \<noteq> 0"
  shows "written p (int (length p + z)) [0] (replicate z 0 @ take (nonzero_len p) p)"
proof -
  note k = nonzero_len [OF assms(2,3)]
  let ?fs = "replicate z 0 @ take (nonzero_len p) p" and ?s = "int (length p + z)"
  have s: "int (length p) - ?s = - int z" "\<not> ?s \<le> 0" using assms(2) by (simp_all add: not_le add_pos_nonneg)
  have "write_product p ?s = plain [0] ?fs"
    using assms(2) k(3,4) s by (simp add: write_product_def plain_def Let_def nonzero_len_def [symmetric] map_replicate zero_byte)
  moreover have "of_nat (num ([0] @ ?fs)) * 10 powi (- int (length ?fs)) = of_nat (num p) * (10::rat) powi (- ?s)"
    using k(3) by (simp add: num_append k(5) mult.assoc pow_powi of_nat_diff) (simp add: minus_diff_commute [of "int z"])
  moreover have "last ?fs \<noteq> 0" using k(2,4) assms(2) by simp
  ultimately show ?thesis using digits_part [OF assms(1)] by (auto simp: written_def list_all_iff)
qed

lemma write_product_written:
  assumes "list_all (\<lambda>d. d < 10) p" "p \<noteq> [] \<Longrightarrow> hd p \<noteq> 0"
  shows "\<exists>is fs. written p sc is fs"
proof (cases "p = []")
  case True
  then have "written p sc [0] []" by (simp add: written_def write_product_def plain_def zero_byte)
  then show ?thesis by blast
next
  case False
  note p = assms(1) False assms(2) [OF False]
  consider (whole) k where "sc = - int k" | (fraction) z where "sc = int (length p + z)"
    | (inside) m s where "sc = int s" "length p = m + s" "0 < s" "0 < m"
  proof (cases "sc \<le> 0")
    case True
    then show ?thesis using whole [of "nat (- sc)"] by simp
  next
    case pos: False
    show ?thesis
    proof (cases "length p \<le> nat sc")
      case True
      then show ?thesis using pos fraction [of "nat sc - length p"] by (simp add: of_nat_diff)
    qed (use pos inside [of "nat sc" "length p - nat sc"] in simp)
  qed
  then show ?thesis
  proof cases
    case whole
    then show ?thesis using written_whole [OF p] by blast
  next
    case fraction
    then show ?thesis using written_fraction [OF p] by blast
  next
    case inside
    then show ?thesis using written_point [OF p inside(2-4)] written_integer [OF p inside(2-4)] not_le by blast
  qed
qed

text \<open>What the reader guarantees: digits below ten, at least one of them.\<close>

lemma read_digits_SomeD:
  "read_digits ds s = Some (ds', r) \<Longrightarrow>
   \<exists>es. ds' = ds @ es \<and> list_all (\<lambda>d. d < 10) es \<and> s = map digit_byte es @ r"
proof (induction ds s rule: read_digits.induct)
  case (2 ds c cs)
  show ?case
  proof (cases "is_ascii_digit c")
    case True
    with 2 obtain es where "ds' = (ds @ [digit_val c]) @ es" "list_all (\<lambda>d. d < 10) es"
      "cs = map digit_byte es @ r" by (auto split: if_splits)
    with True show ?thesis
      by (intro exI [of _ "digit_val c # es"]) (simp add: digit_val_less)
  qed (use 2 in simp)
qed simp

lemma fee_parse_digits:
  assumes "fee_parse s = Some d"
  shows "digits d \<noteq> [] \<and> list_all (\<lambda>d. d < 10) (digits d)"
proof -
  from assms obtain ds r ds' sc r' where
    1: "read_digits [] s = Some (ds, r)" "length r \<noteq> length s"
    and 2: "read_fraction ds r = Some (ds', sc, r')" "digits d = ds'"
    by (auto simp: fee_parse_def split: option.splits if_splits prod.splits)
  from 1 have ds: "ds \<noteq> []" "list_all (\<lambda>d. d < 10) ds" by (auto dest!: read_digits_SomeD)
  have "\<exists>es. ds' = ds @ es \<and> list_all (\<lambda>d. d < 10) es"
  proof (cases "r \<noteq> [] \<and> hd r = CHR ''.''")
    case True
    with 2(1) have "read_digits ds (tl r) = Some (ds', r')"
      by (auto simp: read_fraction_def split: option.splits if_splits)
    then show ?thesis by (auto dest: read_digits_SomeD)
  next
    case False
    with 2(1) show ?thesis by (intro exI [of _ "[]"]) (simp add: read_fraction_def split: if_splits)
  qed
  with ds 2 show ?thesis by auto
qed

text \<open>
  The text shown is the exact product: read back by the same reader, it denotes the product of
  the two numbers read. (\<open>cap \<le> 300\<close> covers the 295 bytes the review leaves for it.)
\<close>

lemma max_fee_exact:
  assumes "max_fee limit price cap = Some out" "cap \<le> MAX_DIGITS"
  shows "\<exists>a b c. fee_parse limit = Some a \<and> fee_parse price = Some b \<and>
     fee_parse out = Some c \<and> dec_value c = dec_value a * dec_value b \<and> length out \<le> cap"
proof -
  from assms(1) obtain a b where ab: "fee_parse limit = Some a" "fee_parse price = Some b"
    and out: "out = write_product (dropWhile (\<lambda>d. d = 0) (product (digits a) (digits b)))
        (scale a + scale b)" "length out \<le> cap"
    by (auto simp: max_fee_def Let_def split: option.splits if_splits)
  note da = fee_parse_digits [OF ab(1)] and db = fee_parse_digits [OF ab(2)]
  define q where "q = dropWhile (\<lambda>d. d = 0) (product (digits a) (digits b))"
  have num_q: "num q = num (digits a) * num (digits b)"
    using da by (simp add: q_def num_dropWhile num_product)
  have "list_all (\<lambda>d. d < 10) q"
    using product_digits da db by (auto simp: q_def list_all_iff dest: set_dropWhileD)
  moreover have "hd q \<noteq> 0" if "q \<noteq> []"
    using that hd_dropWhile [of "\<lambda>d. d = 0"] by (auto simp: q_def)
  ultimately obtain "is" fs where w: "written q (scale a + scale b) is fs"
    using write_product_written by metis
  then have plain: "out = plain is fs" "is \<noteq> []" "list_all (\<lambda>d. d < 10) (is @ fs)"
    by (simp_all add: written_def out q_def)
  have "length (is @ fs) \<le> length out" by (simp add: plain plain_def)
  then have "fee_parse out = Some \<lparr>digits = is @ fs, scale = int (length fs)\<rparr>"
    using plain out(2) assms(2) by (simp add: fee_parse_plain)
  moreover have "of_nat (num (is @ fs)) * 10 powi (- int (length fs)) =
      dec_value a * dec_value b"
  proof -
    have "(10::rat) powi (- (scale a + scale b)) = 10 powi (- scale a) * 10 powi (- scale b)"
      by (simp flip: power_int_add)
    with w show ?thesis by (simp add: written_def num_q dec_value_def)
  qed
  ultimately show ?thesis using ab out(2) by (simp add: dec_value_def)
qed

text \<open>Nothing else is refused: a fee is missing only for a non-number or a text that is too long.\<close>

lemma max_fee_None:
  "max_fee limit price cap = None \<longleftrightarrow>
     fee_parse limit = None \<or> fee_parse price = None \<or>
     (\<exists>a b. fee_parse limit = Some a \<and> fee_parse price = Some b \<and>
        cap < length (write_product (dropWhile (\<lambda>d. d = 0) (product (digits a) (digits b)))
                        (scale a + scale b)))"
  by (auto simp: max_fee_def Let_def not_le split: option.splits)

section \<open>The accumulator fits 32 bits\<close>

text \<open>
  A row adds at most 81 to an entry, so after at most \<open>MAX_DIGITS\<close> rows an entry is at most
  24300, and with the carries at most 27000: the \<open>u32\<close> additions never overflow. (Entries only
  grow in the row loops, so the bound on the last accumulator bounds all of them.)
\<close>

lemma digit_product: "a < 10 \<Longrightarrow> b < 10 \<Longrightarrow> a * b \<le> (81::nat)"
  using mult_le_mono [of a 9 b 9] by simp

lemma add_row_bound:
  "\<lbrakk>\<forall>j < length acc. acc ! j \<le> m + (if j < k then 81 else 0); list_all (\<lambda>b. b < 10) bs; d < 10;
    j < length acc\<rbrakk> \<Longrightarrow> add_row k d bs acc ! j \<le> m + 81"
proof (induction bs arbitrary: k acc)
  case Nil
  then show ?case by (auto split: if_splits)
next
  case (Cons b bs)
  have "d * b \<le> 81" using Cons.prems by (simp add: digit_product)
  then have "\<forall>j < length acc. acc[k := acc ! k + d * b] ! j \<le> m + (if j < Suc k then 81 else 0)"
    using Cons.prems(1) by (auto simp: nth_list_update less_Suc_eq)
  with Cons show ?case by simp
qed

lemma add_rows_bound:
  "\<lbrakk>\<forall>j < length acc. acc ! j \<le> m; list_all (\<lambda>d. d < 10) as; list_all (\<lambda>d. d < 10) bs;
    j < length acc\<rbrakk> \<Longrightarrow> add_rows i as bs acc ! j \<le> m + 81 * length as"
proof (induction as arbitrary: i acc m)
  case (Cons a as)
  have "\<forall>j < length acc. add_row (Suc i) a bs acc ! j \<le> m + 81"
    using Cons.prems add_row_bound [of acc m "Suc i" bs a] by (simp add: trans_le_add1)
  with Cons.IH [of "add_row (Suc i) a bs acc" "m + 81" "Suc i"] Cons.prems show ?case
    by (simp add: add.assoc)
qed simp

lemma accumulator_bound:
  assumes "list_all (\<lambda>d. d < 10) as" "list_all (\<lambda>d. d < 10) bs" "length as \<le> MAX_DIGITS" "j < n"
  shows "add_rows 0 as bs (replicate n 0) ! j \<le> 24300"
  using add_rows_bound [of "replicate n 0" 0 as bs j 0] assms by (simp add: MAX_DIGITS_def)

text \<open>The carry loop at \<open>k\<close>: the entry it adds to stays within 27000.\<close>

fun carry_sums_ok :: "nat \<Rightarrow> nat list \<Rightarrow> bool" where
  "carry_sums_ok 0 acc = True"
| "carry_sums_ok (Suc k) acc =
     (let c = acc ! Suc k div 10 in
      acc ! k + c \<le> 27000 \<and> carry_sums_ok k (acc[Suc k := acc ! Suc k mod 10, k := acc ! k + c]))"

lemma carries_bound:
  "\<lbrakk>k < length acc; \<forall>j < k. acc ! j \<le> 24300; acc ! k \<le> 27000\<rbrakk> \<Longrightarrow> carry_sums_ok k acc"
proof (induction k acc rule: carry_sums_ok.induct)
  case (2 k acc)
  from "2.prems" have "acc ! k \<le> 24300" "acc ! Suc k div 10 \<le> 2700" by simp_all
  then have "acc ! k + acc ! Suc k div 10 \<le> 27000" by linarith
  with 2 show ?case by (simp add: Let_def)
qed simp

text \<open>
  The loops at the width of the code: the same accumulator of \<open>u32\<close> entries, whose additions wrap. As
  no entry overflows, they compute the digits of \<open>product\<close>.
\<close>

fun add_row32 :: "nat \<Rightarrow> nat \<Rightarrow> nat list \<Rightarrow> 32 word list \<Rightarrow> 32 word list" where
  "add_row32 k d [] acc = acc"
| "add_row32 k d (b # bs) acc = add_row32 (Suc k) d bs (acc[k := acc ! k + of_nat d * of_nat b])"

fun add_rows32 :: "nat \<Rightarrow> nat list \<Rightarrow> nat list \<Rightarrow> 32 word list \<Rightarrow> 32 word list" where
  "add_rows32 i [] bs acc = acc"
| "add_rows32 i (a # as) bs acc = add_rows32 (Suc i) as bs (add_row32 (Suc i) a bs acc)"

fun carries32 :: "nat \<Rightarrow> 32 word list \<Rightarrow> 32 word list" where
  "carries32 0 acc = acc"
| "carries32 (Suc k) acc =
     (let c = acc ! Suc k div 10 in
      carries32 k (acc[Suc k := acc ! Suc k mod 10, k := acc ! k + c]))"

definition product32 :: "nat list \<Rightarrow> nat list \<Rightarrow> 32 word list" where
  "product32 as bs =
     (let n = length as + length bs in
      carries32 (n - 1) (add_rows32 0 as bs (replicate n 0)))"

lemma add_row32_nat: "k + length bs \<le> length acc \<Longrightarrow> add_row32 k d bs (map of_nat acc) = map of_nat (add_row k d bs acc)"
proof (induction k d bs acc rule: add_row.induct)
  case (2 k d b bs acc)
  have "(map of_nat acc)[k := map of_nat acc ! k + of_nat d * of_nat b] = map (of_nat :: nat \<Rightarrow> 32 word) (acc[k := acc ! k + d * b])"
    using "2.prems" by (simp add: map_update)
  then show ?case using 2 by simp
qed simp

lemma add_rows32_nat: "i + length as + length bs \<le> length acc \<Longrightarrow>
    add_rows32 i as bs (map of_nat acc) = map of_nat (add_rows i as bs acc)"
  by (induction i as bs acc rule: add_rows.induct) (simp_all add: add_row32_nat)

lemma word_digits:
  assumes "x \<le> 27000"
  shows "(of_nat x :: 32 word) div 10 = of_nat (x div 10)" "(of_nat x :: 32 word) mod 10 = of_nat (x mod 10)"
proof -
  have u: "unat (of_nat y :: 32 word) = y" if "y \<le> 27000" for y using that by (simp add: unat_of_nat)
  have "x div 10 \<le> 27000" "x mod 10 \<le> 27000" using assms div_le_dividend [of x 10] mod_less_eq_dividend [of x 10] by linarith+
  then show "(of_nat x :: 32 word) div 10 = of_nat (x div 10)" "(of_nat x :: 32 word) mod 10 = of_nat (x mod 10)"
    using u [OF assms] by (simp_all add: word_unat_eq_iff unat_div unat_mod u)
qed

lemma list_all_update: "list_all P xs \<Longrightarrow> P x \<Longrightarrow> list_all P (xs[i := x])"
  using set_update_subset_insert [of xs i x] by (auto simp: list_all_iff)

lemma carries32_nat:
  "carry_sums_ok k acc \<Longrightarrow> k < length acc \<Longrightarrow> list_all (\<lambda>x. x \<le> 27000) acc \<Longrightarrow>
   carries32 k (map of_nat acc) = map of_nat (carries k acc) \<and> list_all (\<lambda>x. x \<le> 27000) (carries k acc)"
proof (induction k acc rule: carries.induct)
  case (2 k acc)
  let ?c = "acc ! Suc k div 10"
  let ?acc = "acc[Suc k := acc ! Suc k mod 10, k := acc ! k + ?c]"
  have x: "acc ! Suc k \<le> 27000" using "2.prems" by (simp add: list_all_length)
  have "(map of_nat acc)[Suc k := map of_nat acc ! Suc k mod 10, k := map of_nat acc ! k + map of_nat acc ! Suc k div 10]
      = map (of_nat :: nat \<Rightarrow> 32 word) ?acc"
    using "2.prems" by (simp add: map_update word_digits [OF x])
  moreover have s: "carry_sums_ok k ?acc" "acc ! k + ?c \<le> 27000" using "2.prems" by (simp_all add: Let_def)
  moreover have m: "acc ! Suc k mod 10 \<le> 27000" using mod_less_eq_dividend [of "acc ! Suc k" 10] x by linarith
  moreover have "list_all (\<lambda>x. x \<le> 27000) ?acc"
    using s(2) m "2.prems"(3) by (intro list_all_update)
  ultimately show ?case
    using "2.IH" [OF refl] "2.prems"(2) by (simp add: Let_def)
qed simp

lemma product32_nat:
  assumes "carry_sums_ok (length as + length bs - 1) (add_rows 0 as bs (replicate (length as + length bs) 0))"
    "list_all (\<lambda>x. x \<le> 27000) (add_rows 0 as bs (replicate (length as + length bs) 0))" "0 < length as + length bs"
  shows "map unat (product32 as bs) = product as bs"
proof -
  let ?acc = "add_rows 0 as bs (replicate (length as + length bs) 0)"
  have "add_rows32 0 as bs (replicate (length as + length bs) 0) = map of_nat ?acc"
    using add_rows32_nat [of 0 as bs "replicate (length as + length bs) 0"] by simp
  then have "product32 as bs = map of_nat (product as bs)" "list_all (\<lambda>x. x \<le> 27000) (product as bs)"
    using carries32_nat [OF assms(1) _ assms(2)] assms(3) by (simp_all add: product32_def product_def Let_def)
  then show ?thesis by (auto simp: list_all_iff unat_of_nat intro!: map_idI)
qed

end
