(* ===== verification/Errors.thy ===== *)
theory Errors
  imports Kadena_Prelude
begin

text \<open>
  Status words (\<open>sw.rs\<close>), parser errors with their on-the-wire descriptions (\<open>error.rs\<close>) and
  the item errors of \<open>items.rs\<close>.
\<close>

section \<open>Status words (\<open>sw.rs\<close>)\<close>

type_synonym status = "16 word"

definition SW_OK :: status where "SW_OK = 0x9000"
definition EXECUTION_ERROR :: status where "EXECUTION_ERROR = 0x6400"
definition WRONG_LENGTH :: status where "WRONG_LENGTH = 0x6700"
definition OUTPUT_BUFFER_TOO_SMALL :: status where "OUTPUT_BUFFER_TOO_SMALL = 0x6983"
definition DATA_INVALID :: status where "DATA_INVALID = 0x6984"
definition COMMAND_NOT_ALLOWED :: status where "COMMAND_NOT_ALLOWED = 0x6986"
definition TX_NOT_INITIALIZED :: status where "TX_NOT_INITIALIZED = 0x6987"
definition INVALID_P1P2 :: status where "INVALID_P1P2 = 0x6B00"
definition INS_NOT_SUPPORTED :: status where "INS_NOT_SUPPORTED = 0x6D00"
definition CLA_NOT_SUPPORTED :: status where "CLA_NOT_SUPPORTED = 0x6E00"
definition SIGN_VERIFY_ERROR :: status where "SIGN_VERIFY_ERROR = 0x6F01"

lemmas sw_defs = SW_OK_def EXECUTION_ERROR_def WRONG_LENGTH_def OUTPUT_BUFFER_TOO_SMALL_def
  DATA_INVALID_def COMMAND_NOT_ALLOWED_def TX_NOT_INITIALIZED_def INVALID_P1P2_def
  INS_NOT_SUPPORTED_def CLA_NOT_SUPPORTED_def SIGN_VERIFY_ERROR_def

section \<open>Parser errors (\<open>error.rs\<close>)\<close>

datatype parser_error =
    NoData
  | InitContextEmpty
  | UnexpectedError
  | UnexpectedUnparsedBytes
  | UnexpectedBufferEnd
  | UnexpectedValue
  | UnexpectedCharacters
  | DuplicatedField
  | ValueOutOfRange
  | TxObjEmpty
  | BlindsignModeRequired
  | JsonZeroTokens
  | JsonTooManyTokens
  | JsonIncompleteJson
  | InvalidMetaField
  | NameTxTransfer
  | NameTxTransferXchain
  | NameRotate
  | NameGas
  | SignerNotFound
  | SignerRepeated

text \<open>The ASCII text the device returns before \<open>0x6984\<close>.\<close>

fun description :: "parser_error \<Rightarrow> bytes" where
  "description NoData = ''No more data''"
| "description InitContextEmpty = ''Initialized empty context''"
| "description UnexpectedUnparsedBytes = ''Unexpected unparsed bytes''"
| "description UnexpectedBufferEnd = ''Unexpected buffer end''"
| "description UnexpectedValue = ''Unexpected value''"
| "description UnexpectedCharacters = ''Unexpected characters''"
| "description DuplicatedField = ''Unexpected duplicated field''"
| "description ValueOutOfRange = ''Value out of range''"
| "description TxObjEmpty = ''Tx obj empty''"
| "description BlindsignModeRequired = ''Blind signing mode required''"
| "description JsonTooManyTokens = ''NOMEM: JSON string contains too many tokens''"
| "description InvalidMetaField = ''Invalid meta field''"
| "description NameTxTransfer = ''Transaction type: Transfer''"
| "description NameTxTransferXchain = ''Transaction type: Cross-chain Transfer''"
| "description NameRotate = ''Transaction type: Rotate''"
| "description NameGas = ''Transaction type: Gas''"
| "description SignerNotFound = ''Device key is not a signer''"
| "description SignerRepeated = ''Device key signs more than once''"
| "description UnexpectedError = ''Unrecognized error code''"
| "description JsonZeroTokens = ''Unrecognized error code''"
| "description JsonIncompleteJson = ''Unrecognized error code''"

lemma description_length: "length (description e) \<le> 44"
  by (cases e) simp_all

section \<open>Item errors (\<open>items.rs\<close>)\<close>

datatype items_error =
    LengthZero
  | DataTooLarge
  | TooManyItems
  | ItemError
  | ItemUnexpectedCharacters
  | ItemInvalidMetaField

text \<open>\<open>pe\<close> of \<open>items.rs\<close>: any lookup error is the generic item error.\<close>

definition pe :: "parser_error + 'a \<Rightarrow> items_error + 'a" where
  "pe r = map_err (\<lambda>_. ItemError) r"

lemma pe_simps [simp]: "pe (Inl e) = Inl ItemError" "pe (Inr x) = Inr x"
  by (simp_all add: pe_def)

lemma pe_Inr_iff [simp]: "pe r = Inr x \<longleftrightarrow> r = Inr x"
  by (cases r) simp_all

text \<open>\<open>items_to_parser\<close> of \<open>parser.rs\<close>.\<close>

definition items_to_parser :: "items_error + 'a \<Rightarrow> parser_error + 'a" where
  "items_to_parser r = map_err
     (\<lambda>e. case e of ItemUnexpectedCharacters \<Rightarrow> UnexpectedCharacters
                  | ItemInvalidMetaField \<Rightarrow> InvalidMetaField
                  | _ \<Rightarrow> UnexpectedError) r"

lemma items_to_parser_Inr_iff [simp]: "items_to_parser r = Inr x \<longleftrightarrow> r = Inr x"
  by (simp add: items_to_parser_def)

end
