(* ===== verification/Jsmn.thy ===== *)
theory Jsmn
  imports Errors
begin

text \<open>
  The JSON tokenizer (\<open>jsmn.rs\<close>): \<open>parse\<close> is the C scan, \<open>parse_strict\<close> the one the app uses,
  with the JSON grammar rules. The cursor \<open>p.pos\<close> is carried together with the bytes from it on
  (\<open>js[p.pos..]\<close>), and the token array as the list of its first \<open>p.toknext\<close> entries (the entries
  past it are \<open>Token::EMPTY\<close> and never read); its capacity is the parameter \<open>cap\<close>.
\<close>

section \<open>Tokens\<close>

datatype tok_type = Undefined | Object | Array | StringTok | Primitive

record token =
  tok_kind :: tok_type
  tok_start :: nat
  tok_end :: nat

definition EMPTY_TOKEN :: token where
  "EMPTY_TOKEN = \<lparr>tok_kind = Undefined, tok_start = 0, tok_end = 0\<rparr>"

text \<open>\<open>end.wrapping_sub(start)\<close> on \<open>u16\<close>.\<close>

definition tok_len :: "token \<Rightarrow> nat" where
  "tok_len t = u16 (tok_end t + 65536 - tok_start t)"

definition tok_is_empty :: "token \<Rightarrow> bool" where
  "tok_is_empty t \<longleftrightarrow> tok_len t = 0"

datatype jsmn_error = NoMem | Inval | Part

definition UNSET :: nat where "UNSET = 0xFFFF"

definition is_open :: "token \<Rightarrow> bool" where
  "is_open t \<longleftrightarrow> tok_start t \<noteq> UNSET \<and> tok_end t = UNSET"

text \<open>What the strict tokenizer accepts next.\<close>

datatype expect =
  ExpRoot | ExpValue | ExpValueOrClose | ExpKey | ExpKeyOrClose | ExpColon | ExpCommaOrClose | ExpDone

record jstate =
  toks :: "token list"
  toksuper :: int
  expecting :: expect
  tok_count :: nat

text \<open>\<open>alloc_token\<close> followed by the caller's assignment of the new token.\<close>

definition alloc_token :: "nat \<Rightarrow> token \<Rightarrow> jstate \<Rightarrow> jsmn_error + jstate" where
  "alloc_token cap t st =
     (if length (toks st) \<ge> cap then Inl NoMem else Inr (st\<lparr>toks := toks st @ [t]\<rparr>))"

section \<open>Primitives and strings\<close>

definition prim_delims :: bytes where
  "prim_delims = [CHR '':'', CHR 0x09, CHR 0x0D, CHR 0x0A, CHR '' '', CHR '','', CHR '']'', CHR ''}'']"

text \<open>The loop of \<open>parse_primitive\<close>, from the token's first byte.\<close>

fun scan_primitive :: "nat \<Rightarrow> bytes \<Rightarrow> jsmn_error + (nat \<times> bytes)" where
  "scan_primitive pos [] = Inr (pos, [])"
| "scan_primitive pos (c # cs) =
     (if c = NUL then Inr (pos, c # cs)
      else if c \<in> set prim_delims then Inr (pos, c # cs)
      else if byte_val c < 32 \<or> byte_val c \<ge> 127 then Inl Inval
      else scan_primitive (Suc pos) cs)"

definition is_hex :: "byte \<Rightarrow> bool" where
  "is_hex c \<longleftrightarrow> is_ascii_hexdigit c"

text \<open>The \<open>\u\<close> loop: up to \<open>k\<close> hex digits, stopping early at the end of the input or a NUL.\<close>

fun scan_hex :: "nat \<Rightarrow> nat \<Rightarrow> bytes \<Rightarrow> jsmn_error + (nat \<times> bytes)" where
  "scan_hex 0 pos cs = Inr (pos, cs)"
| "scan_hex (Suc k) pos [] = Inr (pos, [])"
| "scan_hex (Suc k) pos (c # cs) =
     (if c = NUL then Inr (pos, c # cs)
      else if \<not> is_hex c then Inl Inval
      else scan_hex k (Suc pos) cs)"

lemma scan_hex_length: "scan_hex k pos cs = Inr (p, r) \<Longrightarrow> length r \<le> length cs"
  by (induction k pos cs rule: scan_hex.induct) (auto split: if_splits)

definition escapes :: bytes where
  "escapes = [CHR 0x22, CHR ''/'', CHR 0x5C, CHR ''b'', CHR ''f'', CHR ''r'', CHR ''n'', CHR ''t'']"

text \<open>
  The loop of \<open>parse_string\<close>, from the byte after the opening quote; the result is the
  position of the closing quote with the bytes from it on.
\<close>

function scan_string :: "bool \<Rightarrow> nat \<Rightarrow> bytes \<Rightarrow> jsmn_error + (nat \<times> bytes)" where
  "scan_string strict pos [] = Inl Part"
| "scan_string strict pos (c # cs) =
     (if c = NUL then Inl Part
      else if strict \<and> byte_val c < 0x20 then Inl Inval
      else if c = CHR 0x22 then Inr (pos, c # cs)
      else if c = CHR 0x5C then
        (case cs of
           [] \<Rightarrow> scan_string strict (Suc pos) cs
         | d # ds \<Rightarrow>
             if d \<in> set escapes then scan_string strict (pos + 2) ds
             else if d = CHR ''u'' then
               (case scan_hex 4 (pos + 2) ds of
                  Inl e \<Rightarrow> Inl e
                | Inr (p, r) \<Rightarrow> scan_string strict p r)
             else Inl Inval)
      else scan_string strict (Suc pos) cs)"
  by pat_completeness auto
termination
  by (relation "measure (\<lambda>(_, _, cs). length cs)") (auto dest: scan_hex_length)

section \<open>The main loop\<close>

text \<open>Greatest index whose entry satisfies \<open>P\<close>: the downward searches of the C code.\<close>

fun last_index :: "('a \<Rightarrow> bool) \<Rightarrow> 'a list \<Rightarrow> nat option" where
  "last_index P [] = None"
| "last_index P (x # xs) =
     (case last_index P xs of
        Some i \<Rightarrow> Some (Suc i)
      | None \<Rightarrow> if P x then Some 0 else None)"

definition check :: "bool \<Rightarrow> jstate \<Rightarrow> bool" where
  "check strict st \<longleftrightarrow> strict \<and> expecting st \<noteq> ExpDone"

text \<open>
  The \<open>if check { expect = match expect { .. } }\<close> at the head of each arm: \<open>e\<close> is the
  expectation after the byte, \<open>None\<close> where the match returns \<open>Inval\<close>.
\<close>

definition advance :: "bool \<Rightarrow> expect option \<Rightarrow> jstate \<Rightarrow> jsmn_error + jstate" where
  "advance strict e st =
     (if check strict st
      then (case e of None \<Rightarrow> Inl Inval | Some e' \<Rightarrow> Inr (st\<lparr>expecting := e'\<rparr>))
      else Inr st)"

text \<open>\<open>b'{' | b'['\<close>\<close>

definition open_expect :: "expect \<Rightarrow> byte \<Rightarrow> expect option" where
  "open_expect e c =
     (if e = ExpRoot \<or> e = ExpValue \<or> e = ExpValueOrClose then
        (if c = CHR ''{'' then Some ExpKeyOrClose
         else if e \<noteq> ExpRoot then Some ExpValueOrClose else None)
      else None)"

definition open_bracket :: "bool \<Rightarrow> nat \<Rightarrow> nat \<Rightarrow> byte \<Rightarrow> jstate \<Rightarrow> jsmn_error + jstate" where
  "open_bracket strict cap pos c st =
     rbind (advance strict (open_expect (expecting st) c) st)
       (\<lambda>st. rbind (alloc_token cap
                \<lparr>tok_kind = (if c = CHR ''{'' then Object else Array),
                 tok_start = u16 pos, tok_end = UNSET\<rparr> (st\<lparr>tok_count := tok_count st + 1\<rparr>))
         (\<lambda>st. Inr (st\<lparr>toksuper := int (length (toks st)) - 1\<rparr>)))"

text \<open>\<open>b'}' | b']'\<close>\<close>

definition close_ok :: "expect \<Rightarrow> byte \<Rightarrow> bool" where
  "close_ok e c \<longleftrightarrow>
     e = ExpCommaOrClose \<or> (e = ExpKeyOrClose \<and> c = CHR ''}'') \<or> (e = ExpValueOrClose \<and> c = CHR '']'')"

definition super_of :: "nat option \<Rightarrow> int" where
  "super_of i = (case i of None \<Rightarrow> -1 | Some i \<Rightarrow> int i)"

definition close_bracket :: "bool \<Rightarrow> nat \<Rightarrow> byte \<Rightarrow> jstate \<Rightarrow> jsmn_error + jstate" where
  "close_bracket strict pos c st =
     (let kind = (if c = CHR ''}'' then Object else Array) in
      if check strict st \<and> \<not> close_ok (expecting st) c then Inl Inval
      else (case last_index is_open (toks st) of
        None \<Rightarrow> Inl Inval
      | Some i \<Rightarrow>
          if tok_kind (toks st ! i) \<noteq> kind then Inl Inval
          else
            (let ts = (toks st)[i := (toks st ! i)\<lparr>tok_end := u16 (pos + 1)\<rparr>];
                 sup = super_of (last_index is_open ts)
             in Inr (st\<lparr>toks := ts, toksuper := sup,
                        expecting := (if check strict st
                                   then (if sup \<ge> 0 then ExpCommaOrClose else ExpDone)
                                   else expecting st)\<rparr>))))"

text \<open>\<open>b'"'\<close>\<close>

definition string_expect :: "expect \<Rightarrow> expect option" where
  "string_expect e =
     (if e = ExpKey \<or> e = ExpKeyOrClose then Some ExpColon
      else if e = ExpValue \<or> e = ExpValueOrClose then Some ExpCommaOrClose
      else None)"

definition string_token ::
  "bool \<Rightarrow> nat \<Rightarrow> nat \<Rightarrow> bytes \<Rightarrow> jstate \<Rightarrow> jsmn_error + (nat \<times> bytes \<times> jstate)" where
  "string_token strict cap pos cs st =
     rbind (advance strict (string_expect (expecting st)) st)
       (\<lambda>st'. rbind (scan_string (check strict st) (Suc pos) cs)
         (\<lambda>(p, r). rbind (alloc_token cap
                \<lparr>tok_kind = StringTok, tok_start = u16 (pos + 1), tok_end = u16 p\<rparr> st')
           (\<lambda>st'. Inr (Suc p, tl r, st'\<lparr>tok_count := tok_count st' + 1\<rparr>))))"

text \<open>\<open>b':'\<close> and \<open>b','\<close>\<close>

definition colon_char :: "bool \<Rightarrow> jstate \<Rightarrow> jsmn_error + jstate" where
  "colon_char strict st =
     rbind (advance strict (if expecting st = ExpColon then Some ExpValue else None) st)
       (\<lambda>st. Inr (st\<lparr>toksuper := int (length (toks st)) - 1\<rparr>))"

definition is_container :: "tok_type \<Rightarrow> bool" where
  "is_container k \<longleftrightarrow> k = Array \<or> k = Object"

definition tok_at :: "token list \<Rightarrow> int \<Rightarrow> token option" where
  "tok_at ts i = (if 0 \<le> i \<and> nat i < length ts then Some (ts ! nat i) else None)"

text \<open>The innermost open container that \<open>toksuper\<close> points at, if any.\<close>

definition open_container :: "jstate \<Rightarrow> tok_type option" where
  "open_container st = (case tok_at (toks st) (toksuper st) of
     None \<Rightarrow> None
   | Some t \<Rightarrow> if is_open t \<and> is_container (tok_kind t) then Some (tok_kind t) else None)"

text \<open>\<open>tokens[-1].type\<close> reads the zeroed header: \<open>Undefined\<close>.\<close>

definition super_kind :: "jstate \<Rightarrow> tok_type" where
  "super_kind st = (case tok_at (toks st) (toksuper st) of
     None \<Rightarrow> Undefined | Some t \<Rightarrow> tok_kind t)"

definition comma_super :: "jstate \<Rightarrow> jstate" where
  "comma_super st =
     (if is_container (super_kind st) then st
      else (case last_index (\<lambda>t. is_container (tok_kind t) \<and> is_open t) (toks st) of
              None \<Rightarrow> st
            | Some i \<Rightarrow> st\<lparr>toksuper := int i\<rparr>))"

definition comma_char :: "bool \<Rightarrow> jstate \<Rightarrow> jsmn_error + jstate" where
  "comma_char strict st =
     (if check strict st \<and> expecting st \<noteq> ExpCommaOrClose then Inl Inval
      else (let st' = comma_super st in
        if check strict st then
          (case open_container st' of
             Some Object \<Rightarrow> Inr (st'\<lparr>expecting := ExpKey\<rparr>)
           | Some _ \<Rightarrow> Inr (st'\<lparr>expecting := ExpValue\<rparr>)
           | None \<Rightarrow> Inl Inval)
        else Inr st'))"

text \<open>Every other byte starts a primitive, a value and never a key.\<close>

definition primitive_expect :: "expect \<Rightarrow> expect option" where
  "primitive_expect e =
     (if e = ExpValue \<or> e = ExpValueOrClose then Some ExpCommaOrClose else None)"

definition primitive_token ::
  "bool \<Rightarrow> nat \<Rightarrow> nat \<Rightarrow> bytes \<Rightarrow> jstate \<Rightarrow> jsmn_error + (nat \<times> bytes \<times> jstate)" where
  "primitive_token strict cap pos js st =
     rbind (advance strict (primitive_expect (expecting st)) st)
       (\<lambda>st. rbind (scan_primitive pos js)
         (\<lambda>(p, r). rbind (alloc_token cap
                \<lparr>tok_kind = Primitive, tok_start = u16 pos, tok_end = u16 p\<rparr> st)
           (\<lambda>st. Inr (p, r, st\<lparr>tok_count := tok_count st + 1\<rparr>))))"

definition whitespace :: bytes where
  "whitespace = [CHR 0x09, CHR 0x0D, CHR 0x0A, CHR '' '']"

text \<open>One iteration: the byte \<open>c\<close> at \<open>pos\<close>, followed by \<open>cs\<close>; the next cursor and state.\<close>

definition next_cursor :: "nat \<Rightarrow> bytes \<Rightarrow> jsmn_error + jstate \<Rightarrow> jsmn_error + (nat \<times> bytes \<times> jstate)" where
  "next_cursor pos cs r = rbind r (\<lambda>st. Inr (Suc pos, cs, st))"

definition token_step ::
  "bool \<Rightarrow> nat \<Rightarrow> nat \<Rightarrow> byte \<Rightarrow> bytes \<Rightarrow> jstate \<Rightarrow> jsmn_error + (nat \<times> bytes \<times> jstate)" where
  "token_step strict cap pos c cs st =
     (if c = CHR ''{'' \<or> c = CHR ''['' then next_cursor pos cs (open_bracket strict cap pos c st)
      else if c = CHR ''}'' \<or> c = CHR '']'' then next_cursor pos cs (close_bracket strict pos c st)
      else if c = CHR 0x22 then string_token strict cap pos cs st
      else if c \<in> set whitespace then Inr (Suc pos, cs, st)
      else if c = CHR '':'' then next_cursor pos cs (colon_char strict st)
      else if c = CHR '','' then next_cursor pos cs (comma_char strict st)
      else primitive_token strict cap pos (c # cs) st)"


subsection \<open>What the scans return\<close>

text \<open>The contents of a JSON string, as the strict scan accepts them.\<close>

fun string_body :: "bytes \<Rightarrow> bool" where
  "string_body [] = True"
| "string_body (c # cs) =
     (if c = CHR 0x5C then
        (case cs of
           [] \<Rightarrow> False
         | d # ds \<Rightarrow>
             if d \<in> set escapes then string_body ds
             else if d = CHR ''u'' then
               (case ds of h1 # h2 # h3 # h4 # rest \<Rightarrow>
                    is_hex h1 \<and> is_hex h2 \<and> is_hex h3 \<and> is_hex h4 \<and> string_body rest
                | _ \<Rightarrow> False)
             else False)
      else c \<noteq> CHR 0x22 \<and> 0x20 \<le> byte_val c \<and> string_body cs)"

lemma scan_hex_InrD:
  "scan_hex k pos cs = Inr (p, r) \<Longrightarrow>
   \<exists>h. cs = h @ r \<and> p = pos + length h \<and> list_all is_hex h \<and>
       (length h = k \<or> r = [] \<or> hd r = NUL)"
proof (induction k pos cs rule: scan_hex.induct)
  case (3 k pos c cs)
  show ?case
  proof (cases "c = NUL")
    case False
    with 3 obtain h where "cs = h @ r" "p = Suc pos + length h" "list_all is_hex h"
      "length h = k \<or> r = [] \<or> hd r = NUL" by (auto split: if_splits)
    with 3 False show ?thesis
      by (intro exI [of _ "c # h"]) (auto split: if_splits)
  qed (use 3 in auto)
qed auto

lemma scan_string_stuck: "r = [] \<or> hd r = NUL \<Longrightarrow> scan_string strict pos r = Inl Part"
  by (cases r) simp_all

lemma NUL_val [simp]: "byte_val NUL = 0"
  by (simp add: NUL_def)

lemma length4: "length h = 4 \<Longrightarrow> \<exists>a b c d. h = [a, b, c, d]"
  by (auto simp: numeral_eq_Suc length_Suc_conv)

text \<open>
  The scan stops at the closing quote, at the position after the string's contents; in strict
  mode the contents are a well-formed JSON string.
\<close>

lemma scan_string_InrD:
  "scan_string strict pos cs = Inr (p, r) \<Longrightarrow>
   \<exists>body. cs = body @ r \<and> r = CHR 0x22 # tl r \<and> p = pos + length body \<and>
     (strict \<longrightarrow> string_body body)"
proof (induction strict pos cs rule: scan_string.induct)
  case (2 strict pos c cs)
  have stop: ?case if "c = CHR 0x22"
  proof -
    from 2 that have "p = pos" "r = CHR 0x22 # cs" by (auto split: if_splits)
    with that show ?thesis by (intro exI [of _ "[]"]) simp
  qed
  have plain: ?case if "c \<noteq> CHR 0x22" "c \<noteq> CHR 0x5C"
  proof -
    from 2 that obtain body where "cs = body @ r" "r = CHR 0x22 # tl r"
      "p = Suc pos + length body" "strict \<longrightarrow> string_body body" by (auto split: if_splits)
    with 2 that show ?thesis by (intro exI [of _ "c # body"]) (auto split: if_splits)
  qed
  have esc: ?case if bs: "c = CHR 0x5C"
  proof (cases cs)
    case Nil
    with 2 bs show ?thesis by (simp split: if_splits)
  next
    case (Cons d ds)
    consider (one) "d \<in> set escapes" | (uni) "d \<notin> set escapes" "d = CHR ''u''"
      using 2 bs Cons by (auto split: if_splits)
    then show ?thesis
    proof cases
      case one
      with 2 bs Cons obtain body where "ds = body @ r" "r = CHR 0x22 # tl r"
        "p = pos + 2 + length body" "strict \<longrightarrow> string_body body" by (auto split: if_splits)
      with one bs Cons show ?thesis by (intro exI [of _ "c # d # body"]) auto
    next
      case uni
      with 2 bs Cons obtain p' r1 where h: "scan_hex 4 (pos + 2) ds = Inr (p', r1)"
        and s: "scan_string strict p' r1 = Inr (p, r)"
        by (auto split: if_splits sum.splits)
      from scan_hex_InrD [OF h] obtain h where hx: "ds = h @ r1" "p' = pos + 2 + length h"
        "list_all is_hex h" "length h = 4" using s scan_string_stuck [of r1] by auto
      have "\<exists>body. r1 = body @ r \<and> r = CHR 0x22 # tl r \<and> p = p' + length body \<and>
          (strict \<longrightarrow> string_body body)"
        using "2.IH"(3) [of d ds "(p', r1)" p' r1] "2.prems" bs Cons uni h s by (auto split: if_splits)
      then obtain body where "r1 = body @ r" "r = CHR 0x22 # tl r"
        "p = p' + length body" "strict \<longrightarrow> string_body body" by blast
      with hx bs Cons uni length4 [OF hx(4)] show ?thesis
        by (intro exI [of _ "c # d # h @ body"]) auto
    qed
  qed
  from stop plain esc show ?case by blast
qed simp

lemma scan_primitive_InrD:
  "scan_primitive pos cs = Inr (p, r) \<Longrightarrow>
   \<exists>w. cs = w @ r \<and> p = pos + length w \<and>
     list_all (\<lambda>c. c \<notin> set prim_delims \<and> 32 \<le> byte_val c \<and> byte_val c < 127) w \<and>
     (r = [] \<or> hd r = NUL \<or> hd r \<in> set prim_delims)"
proof (induction pos cs rule: scan_primitive.induct)
  case (2 pos c cs)
  show ?case
  proof (cases "c = NUL \<or> c \<in> set prim_delims")
    case False
    with 2 obtain w where "cs = w @ r" "p = Suc pos + length w"
      "list_all (\<lambda>c. c \<notin> set prim_delims \<and> 32 \<le> byte_val c \<and> byte_val c < 127) w"
      "r = [] \<or> hd r = NUL \<or> hd r \<in> set prim_delims" by (auto split: if_splits)
    with 2 False show ?thesis by (intro exI [of _ "c # w"]) (auto split: if_splits)
  qed (use 2 in \<open>auto split: if_splits\<close>)
qed simp

subsection \<open>The loop and the two entry points\<close>

lemma token_step_shorter:
  "token_step strict cap pos c cs st = Inr (p, r, st') \<Longrightarrow> c \<noteq> NUL \<Longrightarrow> length r \<le> length cs"
  by (auto simp: token_step_def next_cursor_def string_token_def primitive_token_def rbind_Inr_iff
      whitespace_def prim_delims_def split: if_splits option.splits
      dest!: scan_string_InrD scan_primitive_InrD)

function parse_loop ::
  "bool \<Rightarrow> nat \<Rightarrow> nat \<Rightarrow> bytes \<Rightarrow> jstate \<Rightarrow> jsmn_error + jstate" where
  "parse_loop strict cap pos [] st = Inr st"
| "parse_loop strict cap pos (c # cs) st =
     (if c = NUL then Inr st
      else (case token_step strict cap pos c cs st of
              Inl e \<Rightarrow> Inl e
            | Inr (p, r, st') \<Rightarrow> parse_loop strict cap p r st'))"
  by pat_completeness auto
termination
  by (relation "measure (\<lambda>(_, _, _, cs, _). length cs)")
     (auto dest!: token_step_shorter)

definition jstate_init :: jstate where
  "jstate_init = \<lparr>toks = [], toksuper = -1, expecting = ExpRoot, tok_count = 0\<rparr>"

text \<open>\<open>parse_impl\<close>: the tokens written, and the number returned.\<close>

definition parse_impl :: "bool \<Rightarrow> nat \<Rightarrow> bytes \<Rightarrow> jsmn_error + (token list \<times> nat)" where
  "parse_impl strict cap js =
     rbind (parse_loop strict cap 0 js jstate_init)
       (\<lambda>st. if list_ex is_open (toks st) then Inl Part else Inr (toks st, tok_count st))"

definition parse :: "nat \<Rightarrow> bytes \<Rightarrow> jsmn_error + (token list \<times> nat)" where
  "parse cap js = parse_impl False cap js"

definition parse_strict :: "nat \<Rightarrow> bytes \<Rightarrow> jsmn_error + (token list \<times> nat)" where
  "parse_strict cap js = parse_impl True cap js"

end
