(* ===== verification/Jsmn_Props.thy ===== *)
theory Jsmn_Props
  imports Jsmn
begin

text \<open>
  What every successful run of the tokenizer guarantees about its token array: spans inside the
  input, starts in increasing order, nothing left open, as many tokens as it reports, never more
  than the array holds; and the superior index is always one the code may read.
\<close>

section \<open>The invariant of the main loop\<close>

definition tok_ok :: "nat \<Rightarrow> token \<Rightarrow> bool" where
  "tok_ok pos t \<longleftrightarrow> tok_start t < pos \<and> tok_kind t \<noteq> Undefined \<and>
     (if tok_end t = UNSET then is_container (tok_kind t)
      else tok_start t \<le> tok_end t \<and> tok_end t \<le> pos)"

definition jinv :: "nat \<Rightarrow> nat \<Rightarrow> jstate \<Rightarrow> bool" where
  "jinv cap pos st \<longleftrightarrow> list_all (tok_ok pos) (toks st) \<and> sorted_wrt (<) (map tok_start (toks st)) \<and>
     length (toks st) \<le> cap \<and> tok_count st = length (toks st) \<and>
     -1 \<le> toksuper st \<and> toksuper st < int (length (toks st))"

lemma tok_ok_mono: "tok_ok pos t \<Longrightarrow> pos \<le> q \<Longrightarrow> tok_ok q t"
  by (auto simp: tok_ok_def)

lemma list_all_tok_ok_mono: "list_all (tok_ok pos) ts \<Longrightarrow> pos \<le> q \<Longrightarrow> list_all (tok_ok q) ts"
  by (auto simp: list_all_iff intro: tok_ok_mono)

lemma jinv_mono: "jinv cap pos st \<Longrightarrow> pos \<le> q \<Longrightarrow> jinv cap q st"
  by (auto simp: jinv_def intro: list_all_tok_ok_mono)

lemma jinv_expect [simp]: "jinv cap pos (st\<lparr>expecting := e\<rparr>) = jinv cap pos st"
  by (simp add: jinv_def)

lemma jinv_init: "jinv cap 0 jstate_init"
  by (simp add: jinv_def jstate_init_def)

lemma last_index_SomeD: "last_index P xs = Some i \<Longrightarrow> i < length xs \<and> P (xs ! i)"
  by (induction xs arbitrary: i) (auto split: option.splits if_splits)

lemma last_index_None: "last_index P xs = None \<longleftrightarrow> list_all (\<lambda>x. \<not> P x) xs"
  by (induction xs) (auto split: option.splits)

lemma last_index_snoc:
  "last_index P (xs @ [x]) = (if P x then Some (length xs) else last_index P xs)"
  by (induction xs) (auto split: option.splits)

lemma last_index_append:
  "last_index P (xs @ ys) =
     (case last_index P ys of Some i \<Rightarrow> Some (length xs + i) | None \<Rightarrow> last_index P xs)"
  by (induction xs) (auto split: option.splits)

text \<open>Appending a token that starts at or after the cursor.\<close>

lemma alloc_token_inv:
  assumes "alloc_token cap t st = Inr st'" "jinv cap pos st" "tok_ok q t" "pos \<le> tok_start t" "pos \<le> q"
  shows "jinv cap q (st'\<lparr>tok_count := Suc (tok_count st)\<rparr>) \<and> toks st' = toks st @ [t] \<and>
         expecting st' = expecting st \<and> toksuper st' = toksuper st \<and> tok_count st' = tok_count st"
proof -
  have "\<forall>x \<in> set (toks st). tok_start x < tok_start t"
    using assms(2,4) by (fastforce simp: jinv_def tok_ok_def list_all_iff)
  then show ?thesis
    using assms list_all_tok_ok_mono [of pos "toks st" q]
    by (auto simp: alloc_token_def jinv_def sorted_wrt_append split: if_splits)
qed

lemma jinv_toksuper_last: "jinv cap pos st \<Longrightarrow> jinv cap pos (st\<lparr>toksuper := int (length (toks st)) - 1\<rparr>)"
  by (simp add: jinv_def)

lemma super_of_bounds: "-1 \<le> super_of (last_index P ts) \<and> super_of (last_index P ts) < int (length ts)"
  by (auto simp: super_of_def split: option.splits dest: last_index_SomeD)

section \<open>Every step keeps it\<close>

lemma advance_inv: "advance strict e st = Inr s1 \<Longrightarrow> jinv cap pos st \<Longrightarrow> jinv cap pos s1"
  by (auto simp: advance_def split: if_splits option.splits)

text \<open>The input is shorter than \<open>0xFFFF\<close> bytes (the transaction buffer holds 15104).\<close>

lemma open_bracket_inv:
  assumes "open_bracket strict cap pos c st = Inr st'" "jinv cap pos st" "pos < UNSET"
  shows "jinv cap (Suc pos) st'"
proof -
  let ?t = "\<lparr>tok_kind = (if c = CHR ''{'' then Object else Array), tok_start = u16 pos, tok_end = UNSET\<rparr>"
  from assms(1) obtain s1 s2 where s1: "advance strict (open_expect (expecting st) c) st = Inr s1"
    and a: "alloc_token cap ?t (s1\<lparr>tok_count := tok_count s1 + 1\<rparr>) = Inr s2"
    and st': "st' = s2\<lparr>toksuper := int (length (toks s2)) - 1\<rparr>"
    unfolding open_bracket_def rbind_Inr_iff by blast
  have "jinv cap pos s1" using s1 assms(2) by (rule advance_inv)
  moreover have "tok_ok (Suc pos) ?t"
    using assms(3) by (simp add: tok_ok_def is_container_def UNSET_def)
  moreover have "alloc_token cap ?t s1 = Inr (s2\<lparr>tok_count := tok_count s1\<rparr>)"
    using a by (auto simp: alloc_token_def split: if_splits)
  ultimately have "jinv cap (Suc pos) (s2\<lparr>tok_count := Suc (tok_count s1)\<rparr>)"
    using alloc_token_inv [of cap ?t s1 "s2\<lparr>tok_count := tok_count s1\<rparr>" pos "Suc pos"] assms(3)
    by (simp add: UNSET_def)
  moreover have "s2\<lparr>tok_count := Suc (tok_count s1)\<rparr> = s2"
    using a by (auto simp: alloc_token_def split: if_splits)
  ultimately show ?thesis using jinv_toksuper_last [of cap "Suc pos" s2] st' by simp
qed

lemma close_bracket_inv:
  assumes "close_bracket strict pos c st = Inr st'" "jinv cap pos st" "Suc pos < UNSET"
  shows "jinv cap (Suc pos) st'"
proof -
  from assms(1) obtain i where i: "last_index is_open (toks st) = Some i"
    and st': "toks st' = (toks st)[i := (toks st ! i)\<lparr>tok_end := u16 (Suc pos)\<rparr>]"
      "toksuper st' = super_of (last_index is_open (toks st'))" "tok_count st' = tok_count st"
    by (auto simp: close_bracket_def Let_def split: if_splits option.splits)
  let ?t = "(toks st ! i)\<lparr>tok_end := u16 (Suc pos)\<rparr>"
  have il: "i < length (toks st)" using i by (auto dest: last_index_SomeD)
  then have "tok_ok pos (toks st ! i)" using assms(2) by (simp add: jinv_def list_all_length)
  then have "tok_ok (Suc pos) ?t" using assms(3) by (simp add: tok_ok_def UNSET_def)
  moreover have "list_all (tok_ok (Suc pos)) (toks st)"
    using assms(2) list_all_tok_ok_mono by (auto simp: jinv_def)
  ultimately have "list_all (tok_ok (Suc pos)) (toks st')"
    using st'(1) il by (auto simp: list_all_length nth_list_update)
  moreover have "map tok_start (toks st') = map tok_start (toks st)"
    using st'(1) il by (auto intro!: nth_equalityI simp: nth_list_update)
  ultimately show ?thesis
    using assms(2) st' super_of_bounds [of is_open "toks st'"] by (simp add: jinv_def)
qed

lemma colon_char_inv: "colon_char strict st = Inr st' \<Longrightarrow> jinv cap pos st \<Longrightarrow> jinv cap (Suc pos) st'"
  unfolding colon_char_def rbind_Inr_iff
  by (auto intro!: jinv_toksuper_last jinv_mono [OF advance_inv, of strict _ st _ cap pos])

lemma comma_super_inv: "jinv cap pos st \<Longrightarrow> jinv cap pos (comma_super st)"
  by (auto simp: comma_super_def jinv_def split: option.splits dest: last_index_SomeD)

lemma comma_char_inv: "comma_char strict st = Inr st' \<Longrightarrow> jinv cap pos st \<Longrightarrow> jinv cap (Suc pos) st'"
  using jinv_mono [OF comma_super_inv, of cap pos st "Suc pos"]
  by (auto simp: comma_char_def Let_def split: if_splits option.splits tok_type.splits)

lemma string_token_InrD:
  assumes "string_token strict cap pos cs st = Inr (p, r, st')"
  shows "\<exists>s1 q r1 s2. advance strict (string_expect (expecting st)) st = Inr s1 \<and>
     scan_string (check strict st) (Suc pos) cs = Inr (q, r1) \<and>
     alloc_token cap \<lparr>tok_kind = StringTok, tok_start = u16 (pos + 1), tok_end = u16 q\<rparr> s1 = Inr s2 \<and>
     p = Suc q \<and> r = tl r1 \<and> st' = s2\<lparr>tok_count := tok_count s2 + 1\<rparr>"
proof -
  from assms obtain s1 x where x: "advance strict (string_expect (expecting st)) st = Inr s1"
    "scan_string (check strict st) (Suc pos) cs = Inr x"
    "(case x of (p, r) \<Rightarrow> rbind (alloc_token cap
        \<lparr>tok_kind = StringTok, tok_start = u16 (pos + 1), tok_end = u16 p\<rparr> s1)
      (\<lambda>st'. Inr (Suc p, tl r, st'\<lparr>tok_count := tok_count st' + 1\<rparr>))) = Inr (p, r, st')"
    unfolding string_token_def rbind_Inr_iff by blast
  obtain q r1 where "x = (q, r1)" by (cases x)
  with x show ?thesis by (auto simp: rbind_Inr_iff)
qed

lemma primitive_token_InrD:
  assumes "primitive_token strict cap pos js st = Inr (p, r, st')"
  shows "\<exists>s1 s2. advance strict (primitive_expect (expecting st)) st = Inr s1 \<and>
     scan_primitive pos js = Inr (p, r) \<and>
     alloc_token cap \<lparr>tok_kind = Primitive, tok_start = u16 pos, tok_end = u16 p\<rparr> s1 = Inr s2 \<and>
     st' = s2\<lparr>tok_count := tok_count s2 + 1\<rparr>"
proof -
  from assms obtain s1 x where x: "advance strict (primitive_expect (expecting st)) st = Inr s1"
    "scan_primitive pos js = Inr x"
    "(case x of (p, r) \<Rightarrow> rbind (alloc_token cap
        \<lparr>tok_kind = Primitive, tok_start = u16 pos, tok_end = u16 p\<rparr> s1)
      (\<lambda>st. Inr (p, r, st\<lparr>tok_count := tok_count st + 1\<rparr>))) = Inr (p, r, st')"
    unfolding primitive_token_def rbind_Inr_iff by blast
  obtain q r1 where "x = (q, r1)" by (cases x)
  with x show ?thesis by (auto simp: rbind_Inr_iff)
qed

lemma string_token_inv:
  assumes "string_token strict cap pos cs st = Inr (p, r, st')" "jinv cap pos st"
    "Suc pos + length cs < UNSET"
  shows "jinv cap p st' \<and> p + length r = Suc pos + length cs"
proof -
  let ?t = "\<lambda>p. \<lparr>tok_kind = StringTok, tok_start = u16 (pos + 1), tok_end = u16 p\<rparr>"
  from assms(1) obtain s1 q r1 s2 where s1: "advance strict (string_expect (expecting st)) st = Inr s1"
    and sc: "scan_string (check strict st) (Suc pos) cs = Inr (q, r1)"
    and a: "alloc_token cap (?t q) s1 = Inr s2"
    and st': "p = Suc q" "r = tl r1" "st' = s2\<lparr>tok_count := tok_count s2 + 1\<rparr>"
    using string_token_InrD [OF assms(1)] by blast
  from scan_string_InrD [OF sc] obtain body r2 where b: "cs = body @ r1" "r1 = CHR 0x22 # r2"
    "q = Suc pos + length body" by blast
  have "q < UNSET" using assms(3) b by simp
  then have "tok_ok (Suc q) (?t q)" using b(3) by (simp add: tok_ok_def UNSET_def)
  moreover have "jinv cap pos s1" using s1 assms(2) by (rule advance_inv)
  ultimately have "jinv cap (Suc q) (s2\<lparr>tok_count := Suc (tok_count s1)\<rparr>)" "tok_count s2 = tok_count s1"
    using alloc_token_inv [OF a, of pos "Suc q"] b(3) \<open>q < UNSET\<close> by (simp_all add: UNSET_def)
  then show ?thesis using st' b by simp
qed

lemma primitive_token_inv:
  assumes "primitive_token strict cap pos (c # cs) st = Inr (p, r, st')" "jinv cap pos st"
    "Suc pos + length cs < UNSET" "c \<noteq> NUL" "c \<notin> set prim_delims"
  shows "jinv cap p st' \<and> p + length r = Suc pos + length cs"
proof -
  let ?t = "\<lambda>p. \<lparr>tok_kind = Primitive, tok_start = u16 pos, tok_end = u16 p\<rparr>"
  from assms(1) obtain s1 s2 where s1: "advance strict (primitive_expect (expecting st)) st = Inr s1"
    and sc: "scan_primitive pos (c # cs) = Inr (p, r)"
    and a: "alloc_token cap (?t p) s1 = Inr s2"
    and st': "st' = s2\<lparr>tok_count := tok_count s2 + 1\<rparr>"
    using primitive_token_InrD [OF assms(1)] by blast
  from scan_primitive_InrD [OF sc] obtain w where w: "c # cs = w @ r" "p = pos + length w"
    "r = [] \<or> hd r = NUL \<or> hd r \<in> set prim_delims" by auto
  have ne: "w \<noteq> []" using w assms(4,5) by auto
  have len: "length w + length r = Suc (length cs)" using w(1) by (metis length_Cons length_append)
  have p: "pos < p" "p < UNSET" using ne w(2) len assms(3) by (cases w; simp)+
  then have "tok_ok p (?t p)" by (simp add: tok_ok_def UNSET_def)
  moreover have "jinv cap pos s1" using s1 assms(2) by (rule advance_inv)
  ultimately have "jinv cap p (s2\<lparr>tok_count := Suc (tok_count s1)\<rparr>)" "tok_count s2 = tok_count s1"
    using alloc_token_inv [OF a, of pos p] p by (simp_all add: UNSET_def)
  then show ?thesis using st' w len by simp
qed

lemma token_step_inv:
  assumes "token_step strict cap pos c cs st = Inr (p, r, st')" "jinv cap pos st" "c \<noteq> NUL"
    "Suc pos + length cs < UNSET"
  shows "jinv cap p st' \<and> p + length r = Suc pos + length cs"
proof -
  have prim: "c \<notin> set prim_delims"
    if "c \<noteq> CHR ''}''" "c \<noteq> CHR '']''" "c \<notin> set whitespace" "c \<noteq> CHR '':''" "c \<noteq> CHR '',''"
    using that by (auto simp: prim_delims_def whitespace_def)
  show ?thesis
    using assms prim
    by (auto simp: token_step_def next_cursor_def rbind_Inr_iff split: if_splits
        intro: open_bracket_inv close_bracket_inv colon_char_inv comma_char_inv jinv_mono
        dest: string_token_inv primitive_token_inv)
qed

lemma parse_loop_inv:
  "parse_loop strict cap pos cs st = Inr st' \<Longrightarrow> jinv cap pos st \<Longrightarrow> pos + length cs < UNSET \<Longrightarrow>
   jinv cap (pos + length cs) st'"
proof (induction strict cap pos cs st rule: parse_loop.induct)
  case (1 strict cap pos st)
  then show ?case by simp
next
  case (2 strict cap pos c cs st)
  show ?case
  proof (cases "c = NUL")
    case True
    with 2 show ?thesis by (auto intro: jinv_mono)
  next
    case False
    with "2.prems" obtain p r s1 where s: "token_step strict cap pos c cs st = Inr (p, r, s1)"
      "parse_loop strict cap p r s1 = Inr st'" by (auto split: sum.splits)
    from token_step_inv [OF s(1) "2.prems"(2) False] "2.prems"(3)
    have "jinv cap p s1" "p + length r = Suc pos + length cs" by simp_all
    with "2.IH" [OF False s(1)] s(2) "2.prems"(3) show ?thesis by simp
  qed
qed

section \<open>The token array of a successful run\<close>

text \<open>A closed span inside an input of \<open>n\<close> bytes.\<close>

definition span_ok :: "nat \<Rightarrow> token \<Rightarrow> bool" where
  "span_ok n t \<longleftrightarrow> tok_kind t \<noteq> Undefined \<and> tok_start t \<le> tok_end t \<and> tok_end t \<le> n"

definition tokens_wf :: "nat \<Rightarrow> token list \<Rightarrow> bool" where
  "tokens_wf n ts \<longleftrightarrow> list_all (span_ok n) ts \<and> sorted_wrt (<) (map tok_start ts)"

lemma parse_impl_wf:
  assumes "parse_impl strict cap js = Inr (ts, n)" "length js < UNSET"
  shows "tokens_wf (length js) ts \<and> n = length ts \<and> length ts \<le> cap"
proof -
  from assms(1) obtain st where st: "parse_loop strict cap 0 js jstate_init = Inr st"
    "\<not> list_ex is_open (toks st)" "ts = toks st" "n = tok_count st"
    by (auto simp: parse_impl_def rbind_Inr_iff split: if_splits)
  have inv: "jinv cap (length js) st"
    using parse_loop_inv [OF st(1) jinv_init] assms(2) by simp
  have "span_ok (length js) t" if "t \<in> set ts" for t
  proof -
    from that inv st have "tok_ok (length js) t" "\<not> is_open t"
      by (auto simp: jinv_def list_all_iff list_ex_iff)
    then show ?thesis using assms(2) by (auto simp: tok_ok_def is_open_def span_ok_def split: if_splits)
  qed
  then show ?thesis using inv st by (simp add: tokens_wf_def jinv_def list_all_iff)
qed

lemma tokens_wf_len: "tokens_wf n ts \<Longrightarrow> t \<in> set ts \<Longrightarrow> n < 65536 \<Longrightarrow> tok_len t = tok_end t - tok_start t"
  by (auto simp: tokens_wf_def list_all_iff span_ok_def tok_len_def u16_def)
     (metis Nat.add_diff_assoc2 diff_le_self le_less_trans mod_add_self2 mod_less order.trans)

end
