(* ===== verification/Json.thy ===== *)
theory Json
  imports Jsmn_Props
begin

text \<open>
  Token-array navigation (\<open>json.rs\<close>): which token a key or an array element resolves to. Each
  loop over token indices is a recursion over the tokens from the current index on; the index is
  carried along. (The \<open>u16\<close> index additions cannot wrap: the token array holds at most 768
  tokens.) An out-parameter is part of the result, on the failure paths too.
\<close>

section \<open>The tokenized document\<close>

record json =
  buf :: bytes
  tokens :: "token list"

definition json_n :: "json \<Rightarrow> nat" where
  "json_n j = length (tokens j)"

definition json_tok :: "json \<Rightarrow> nat \<Rightarrow> token" where
  "json_tok j i = (if i < length (tokens j) then tokens j ! i else EMPTY_TOKEN)"

text \<open>\<open>buf.get(start..end).unwrap_or(&[])\<close>\<close>

definition token_span :: "bytes \<Rightarrow> token \<Rightarrow> bytes" where
  "token_span b t =
     (if tok_start t \<le> tok_end t \<and> tok_end t \<le> length b
      then take (tok_end t - tok_start t) (drop (tok_start t) b) else [])"

definition span :: "json \<Rightarrow> nat \<Rightarrow> bytes" where
  "span j i = token_span (buf j) (json_tok j i)"

section \<open>Lookups\<close>

text \<open>The result of a lookup and the out-parameter after it.\<close>

type_synonym lookup = "(parser_error + unit) \<times> nat"

text \<open>The index found, for callers that read the out-parameter only on success.\<close>

definition found :: "lookup \<Rightarrow> parser_error + nat" where
  "found l = rbind (fst l) (\<lambda>_. Inr (snd l))"

subsection \<open>Arrays\<close>

fun count_elements :: "nat \<Rightarrow> nat \<Rightarrow> token list \<Rightarrow> nat \<Rightarrow> nat" where
  "count_elements at_end prev_end [] out = out"
| "count_elements at_end prev_end (cur # rest) out =
     (if tok_start cur > at_end then out
      else if tok_start cur \<le> prev_end then count_elements at_end prev_end rest out
      else count_elements at_end (tok_end cur) rest (u16 (out + 1)))"

definition array_get_element_count :: "json \<Rightarrow> nat \<Rightarrow> lookup" where
  "array_get_element_count j array =
     (if array \<ge> json_n j then (Inl NoData, 0)
      else (let at = json_tok j array in
        (Inr (), count_elements (tok_end at) (tok_start at) (drop (Suc array) (tokens j)) 0)))"

fun nth_element :: "nat \<Rightarrow> nat \<Rightarrow> nat \<Rightarrow> token list \<Rightarrow> nat \<Rightarrow> nat \<Rightarrow> lookup" where
  "nth_element at_end prev_end out [] element count = (Inl NoData, out)"
| "nth_element at_end prev_end out (cur # rest) element count =
     (if tok_start cur > at_end then (Inl NoData, out)
      else if tok_start cur \<le> prev_end then nth_element at_end prev_end (Suc out) rest element count
      else if count = element then (Inr (), out)
      else nth_element at_end (tok_end cur) (Suc out) rest element (u16 (count + 1)))"

definition array_get_nth_element :: "json \<Rightarrow> nat \<Rightarrow> nat \<Rightarrow> nat \<Rightarrow> lookup" where
  "array_get_nth_element j array element out =
     (if array \<ge> json_n j then (Inl NoData, out)
      else (let at = json_tok j array in
        nth_element (tok_end at) (tok_start at) (Suc array) (drop (Suc array) (tokens j)) element 0))"

subsection \<open>Objects\<close>

fun count_members :: "nat \<Rightarrow> nat \<Rightarrow> token list \<Rightarrow> nat \<Rightarrow> nat" where
  "count_members obj_end prev_end (key # value # rest) out =
     (if tok_start key > obj_end then out
      else if tok_start key \<le> prev_end then count_members obj_end prev_end (value # rest) out
      else count_members obj_end (tok_end value) (value # rest) (u16 (out + 1)))"
| "count_members obj_end prev_end _ out = out"

definition object_get_element_count :: "json \<Rightarrow> nat \<Rightarrow> lookup" where
  "object_get_element_count j object =
     (if object \<ge> json_n j then (Inl NoData, 0)
      else (let ot = json_tok j object in
        (Inr (), count_members (tok_end ot) (tok_start ot) (drop (Suc object) (tokens j)) 0)))"

fun nth_key :: "nat \<Rightarrow> nat \<Rightarrow> nat \<Rightarrow> token list \<Rightarrow> nat \<Rightarrow> nat \<Rightarrow> lookup" where
  "nth_key obj_end prev_end out [] element count = (Inl NoData, out)"
| "nth_key obj_end prev_end out [key] element count = (Inl NoData, Suc out)"
| "nth_key obj_end prev_end out (key # value # rest) element count =
     (if tok_start key > obj_end then (Inl NoData, Suc out)
      else if tok_start key \<le> prev_end
      then nth_key obj_end prev_end (Suc out) (value # rest) element count
      else if count = element then (Inr (), out)
      else nth_key obj_end (tok_end value) (Suc out) (value # rest) element (u16 (count + 1)))"

definition object_get_nth_key :: "json \<Rightarrow> nat \<Rightarrow> nat \<Rightarrow> lookup" where
  "object_get_nth_key j object element =
     (if object \<ge> json_n j then (Inl NoData, object)
      else (let ot = json_tok j object in
        nth_key (tok_end ot) (tok_start ot) (Suc object) (drop (Suc object) (tokens j)) element 0))"

definition object_get_nth_value :: "json \<Rightarrow> nat \<Rightarrow> nat \<Rightarrow> nat \<Rightarrow> lookup" where
  "object_get_nth_value j object element out =
     (if object \<ge> json_n j then (Inl NoData, out)
      else (case object_get_nth_key j object element of
              (Inl e, k) \<Rightarrow> (Inl e, k)
            | (Inr _, k) \<Rightarrow> (Inr (), Suc k)))"

text \<open>The comparison of \<open>object_get_value\<close>: lengths first (\<open>key.len() as u16\<close>), then bytes.\<close>

definition key_matches :: "bytes \<Rightarrow> token \<Rightarrow> bytes \<Rightarrow> bool" where
  "key_matches b t key \<longleftrightarrow>
     int (u16 (length key)) = int (tok_end t) - int (tok_start t) \<and>
     take (length key) (drop (tok_start t) b) = key"

fun find_value :: "bytes \<Rightarrow> nat \<Rightarrow> nat \<Rightarrow> nat \<Rightarrow> token list \<Rightarrow> bytes \<Rightarrow> lookup" where
  "find_value b obj_end prev_end out [] key = (Inl NoData, out)"
| "find_value b obj_end prev_end out [k] key = (Inl NoData, Suc out)"
| "find_value b obj_end prev_end out (k # v # rest) key =
     (if tok_start k > obj_end then (Inl NoData, Suc out)
      else if tok_start k \<le> prev_end then find_value b obj_end prev_end (Suc out) (v # rest) key
      else if key_matches b k key then (Inr (), Suc out)
      else find_value b obj_end (tok_end v) (Suc out) (v # rest) key)"

definition object_get_value :: "json \<Rightarrow> nat \<Rightarrow> bytes \<Rightarrow> nat \<Rightarrow> lookup" where
  "object_get_value j object key out =
     (if object \<ge> json_n j then (Inl NoData, out)
      else (let ot = json_tok j object in
        find_value (buf j) (tok_end ot) (tok_start ot) (Suc object) (drop (Suc object) (tokens j)) key))"

text \<open>\<open>is_null\<close>: the span is exactly \<open>null\<close> (quoted or not).\<close>

definition is_null :: "json \<Rightarrow> nat \<Rightarrow> bool" where
  "is_null j i \<longleftrightarrow> span j i = ''null'' \<and> tok_len (json_tok j i) = 4"

text \<open>The two lookups in the form most callers use: the token found or the error.\<close>

definition get_value :: "json \<Rightarrow> nat \<Rightarrow> bytes \<Rightarrow> parser_error + nat" where
  "get_value j object key = found (object_get_value j object key 0)"

definition get_nth :: "json \<Rightarrow> nat \<Rightarrow> nat \<Rightarrow> parser_error + nat" where
  "get_nth j array element = found (array_get_nth_element j array element 0)"

definition get_count :: "json \<Rightarrow> nat \<Rightarrow> parser_error + nat" where
  "get_count j array = found (array_get_element_count j array)"

section \<open>Key integrity\<close>

text \<open>\<open>ObjectKeys\<close>: the keys of an object, in the order and with the skipping of the lookups.\<close>

fun keys_from :: "nat \<Rightarrow> nat \<Rightarrow> nat \<Rightarrow> token list \<Rightarrow> nat list" where
  "keys_from obj_end prev_end ti (key # value # rest) =
     (if tok_start key > obj_end then []
      else if tok_start key \<le> prev_end then keys_from obj_end prev_end (Suc ti) (value # rest)
      else ti # keys_from obj_end (tok_end value) (Suc ti) (value # rest))"
| "keys_from obj_end prev_end ti _ = []"

definition object_keys :: "json \<Rightarrow> nat \<Rightarrow> nat list" where
  "object_keys j object =
     (let ot = json_tok j object in
      keys_from (tok_end ot) (tok_start ot) (Suc object) (drop (Suc object) (tokens j)))"

text \<open>The keys of one object: \<open>seen\<close> are the spans of the earlier ones.\<close>

fun check_keys :: "json \<Rightarrow> bytes list \<Rightarrow> nat list \<Rightarrow> parser_error + unit" where
  "check_keys j seen [] = Inr ()"
| "check_keys j seen (a # as) =
     (let key = span j a in
      if CHR 0x5C \<in> set key then Inl UnexpectedCharacters
      else if key \<in> set seen then Inl DuplicatedField
      else check_keys j (seen @ [key]) as)"

fun check_objects :: "json \<Rightarrow> nat list \<Rightarrow> parser_error + unit" where
  "check_objects j [] = Inr ()"
| "check_objects j (i # is) =
     (if tok_kind (json_tok j i) \<noteq> Object then check_objects j is
      else rbind (check_keys j [] (object_keys j i)) (\<lambda>_. check_objects j is))"

definition check_key_integrity :: "json \<Rightarrow> parser_error + unit" where
  "check_key_integrity j = check_objects j [0..<json_n j]"

section \<open>What the lookups mean\<close>

text \<open>The elements of an array, as the array lookups walk them.\<close>

fun elements_from :: "nat \<Rightarrow> nat \<Rightarrow> nat \<Rightarrow> token list \<Rightarrow> nat list" where
  "elements_from at_end prev_end ti [] = []"
| "elements_from at_end prev_end ti (cur # rest) =
     (if tok_start cur > at_end then []
      else if tok_start cur \<le> prev_end then elements_from at_end prev_end (Suc ti) rest
      else ti # elements_from at_end (tok_end cur) (Suc ti) rest)"

definition array_elements :: "json \<Rightarrow> nat \<Rightarrow> nat list" where
  "array_elements j array =
     (let at = json_tok j array in
      elements_from (tok_end at) (tok_start at) (Suc array) (drop (Suc array) (tokens j)))"

text \<open>
  A document the app builds lookups on: its tokens come from a successful tokenizer run over the
  buffer, whose size (and with it the number of tokens) is below \<open>0xFFFF\<close>.
\<close>

definition json_wf :: "json \<Rightarrow> bool" where
  "json_wf j \<longleftrightarrow> tokens_wf (length (buf j)) (tokens j) \<and> length (buf j) < UNSET \<and>
     length (tokens j) < UNSET"

lemma found_simps [simp]: "found (Inl e, i) = Inl e" "found (Inr u, i) = Inr i"
  by (simp_all add: found_def)

lemma length_elements_from: "length (elements_from ae pv ti ts) \<le> length ts"
  by (induction ae pv ti ts rule: elements_from.induct) auto

lemma length_keys_from: "length (keys_from oe pv ti ts) \<le> length ts"
  by (induction oe pv ti ts rule: keys_from.induct) auto

lemma elements_from_bounds: "i \<in> set (elements_from ae pv ti ts) \<Longrightarrow> ti \<le> i \<and> i < ti + length ts"
  by (induction ae pv ti ts rule: elements_from.induct) (auto split: if_splits)

lemma keys_from_bounds: "k \<in> set (keys_from oe pv ti ts) \<Longrightarrow> ti \<le> k \<and> Suc k < ti + length ts"
  by (induction oe pv ti ts rule: keys_from.induct) (auto split: if_splits)

lemma keys_from_sorted: "sorted_wrt (<) (keys_from oe pv ti ts)"
  by (induction oe pv ti ts rule: keys_from.induct) (auto dest: keys_from_bounds)

lemma elements_from_sorted: "sorted_wrt (<) (elements_from ae pv ti ts)"
  by (induction ae pv ti ts rule: elements_from.induct) (auto dest: elements_from_bounds)

lemma count_elements_eq:
  "out + length ts < 65536 \<Longrightarrow>
   count_elements ae pv ts out = out + length (elements_from ae pv ti ts)"
  by (induction ae pv ts out arbitrary: ti rule: count_elements.induct) auto

lemma count_members_eq:
  "out + length ts < 65536 \<Longrightarrow>
   count_members oe pv ts out = out + length (keys_from oe pv ti ts)"
  by (induction oe pv ts out arbitrary: ti rule: count_members.induct) auto

lemma nth_element_eq:
  "count + length ts < 65536 \<Longrightarrow> count \<le> element \<Longrightarrow>
   found (nth_element ae pv out ts element count) =
     (if element - count < length (elements_from ae pv out ts)
      then Inr (elements_from ae pv out ts ! (element - count)) else Inl NoData)"
proof (induction ae pv out ts element count rule: nth_element.induct)
  case (2 ae pv out cur rest element count)
  then show ?case by (auto simp: nth_Cons' Suc_diff_le not_less_eq_eq)
qed simp

lemma nth_key_eq:
  "count + length ts < 65536 \<Longrightarrow> count \<le> element \<Longrightarrow>
   found (nth_key oe pv out ts element count) =
     (if element - count < length (keys_from oe pv out ts)
      then Inr (keys_from oe pv out ts ! (element - count)) else Inl NoData)"
proof (induction oe pv out ts element count rule: nth_key.induct)
  case (3 oe pv out key val rest element count)
  then show ?case by (auto simp: nth_Cons' Suc_diff_le not_less_eq_eq)
qed simp_all

lemma find_value_eq:
  "found (find_value b oe pv out ts key) =
     (case List.find (\<lambda>k. key_matches b (ts ! (k - out)) key) (keys_from oe pv out ts) of
        None \<Rightarrow> Inl NoData | Some k \<Rightarrow> Inr (Suc k))"
proof (induction b oe pv out ts key rule: find_value.induct)
  case (3 b oe pv out k v rest key)
  have shift: "List.find (\<lambda>i. key_matches b ((k # v # rest) ! (i - out)) key)
        (keys_from oe q (Suc out) (v # rest)) =
      List.find (\<lambda>i. key_matches b ((v # rest) ! (i - Suc out)) key) (keys_from oe q (Suc out) (v # rest))" for q
    by (rule find_cong) (auto dest!: keys_from_bounds simp: nth_Cons')
  show ?case using 3 by (auto simp: shift)
qed simp_all

text \<open>
  The contract the item selection relies on: an object is a list of keys, a lookup finds the
  first key with the given bytes and returns the token after it, an array is a list of elements
  read by position.
\<close>

locale document_view =
  fixes wf :: "'j \<Rightarrow> bool"
    and n_tokens :: "'j \<Rightarrow> nat"
    and label :: "'j \<Rightarrow> nat \<Rightarrow> bytes"
    and keys :: "'j \<Rightarrow> nat \<Rightarrow> nat list"
    and elems :: "'j \<Rightarrow> nat \<Rightarrow> nat list"
    and lookup :: "'j \<Rightarrow> nat \<Rightarrow> bytes \<Rightarrow> parser_error + nat"
    and elem :: "'j \<Rightarrow> nat \<Rightarrow> nat \<Rightarrow> parser_error + nat"
    and n_elems :: "'j \<Rightarrow> nat \<Rightarrow> parser_error + nat"
  assumes lookup_first: "wf j \<Longrightarrow> length key < 65536 \<Longrightarrow> lookup j ob key =
      (if ob < n_tokens j then
         (case List.find (\<lambda>k. label j k = key) (keys j ob) of
            None \<Rightarrow> Inl NoData | Some k \<Rightarrow> Inr (Suc k))
       else Inl NoData)"
    and elem_nth: "wf j \<Longrightarrow> elem j a i =
      (if a < n_tokens j \<and> i < length (elems j a) then Inr (elems j a ! i) else Inl NoData)"
    and n_elems_length: "wf j \<Longrightarrow>
      n_elems j a = (if a < n_tokens j then Inr (length (elems j a)) else Inl NoData)"
    and keys_bound: "k \<in> set (keys j ob) \<Longrightarrow> Suc k < n_tokens j"
    and elems_bound: "k \<in> set (elems j a) \<Longrightarrow> k < n_tokens j"
begin

lemma lookup_InrD:
  "wf j \<Longrightarrow> length key < 65536 \<Longrightarrow> lookup j ob key = Inr v \<Longrightarrow>
   \<exists>k \<in> set (keys j ob). label j k = key \<and> v = Suc k \<and> v < n_tokens j"
  by (auto simp: lookup_first find_Some_iff split: option.splits if_splits)
     (metis keys_bound nth_mem)

lemma lookup_ok_iff:
  "wf j \<Longrightarrow> length key < 65536 \<Longrightarrow> ob < n_tokens j \<Longrightarrow>
   is_ok (lookup j ob key) \<longleftrightarrow> key \<in> label j ` set (keys j ob)"
  by (auto simp: lookup_first find_None_iff split: option.splits)
     (auto simp: find_Some_iff)

text \<open>With distinct keys the first match is the only one.\<close>

lemma lookup_unique:
  assumes "wf j" "length key < 65536" "ob < n_tokens j" "distinct (map (label j) (keys j ob))"
  shows "lookup j ob key = Inr v \<longleftrightarrow> (\<exists>k \<in> set (keys j ob). label j k = key \<and> v = Suc k)"
proof
  assume "lookup j ob key = Inr v"
  with assms show "\<exists>k \<in> set (keys j ob). label j k = key \<and> v = Suc k"
    by (blast dest: lookup_InrD)
next
  assume "\<exists>k \<in> set (keys j ob). label j k = key \<and> v = Suc k"
  then obtain k where k: "k \<in> set (keys j ob)" "label j k = key" "v = Suc k" by blast
  then have "is_ok (lookup j ob key)" using assms lookup_ok_iff by blast
  then obtain v' where v': "lookup j ob key = Inr v'" by (auto simp: is_ok_iff)
  then obtain k' where k': "k' \<in> set (keys j ob)" "label j k' = key" "v' = Suc k'"
    using assms by (blast dest: lookup_InrD)
  have "k' = k"
    using assms(4) k k' by (auto simp: distinct_map dest: inj_onD)
  with v' k' k show "lookup j ob key = Inr v" by simp
qed

lemma elem_InrD: "wf j \<Longrightarrow> elem j a i = Inr x \<Longrightarrow> x \<in> set (elems j a) \<and> x < n_tokens j"
  by (auto simp: elem_nth split: if_splits) (metis elems_bound nth_mem)

lemma all_elems:
  "wf j \<Longrightarrow> n_elems j a = Inr n \<Longrightarrow>
   map (elem j a) [0..<n] = map Inr (elems j a) \<and> n = length (elems j a)"
  by (auto simp: elem_nth n_elems_length split: if_splits intro!: nth_equalityI)

end

lemma key_matches_span:
  assumes "json_wf j" "i < json_n j" "length key < 65536"
  shows "key_matches (buf j) (tokens j ! i) key \<longleftrightarrow> span j i = key"
proof -
  have "span_ok (length (buf j)) (tokens j ! i)"
    using assms by (simp add: json_wf_def tokens_wf_def json_n_def list_all_length)
  then show ?thesis
    using assms by (auto simp: key_matches_def span_def token_span_def json_tok_def json_n_def
        span_ok_def) (metis nat_int nat_minus_as_int)
qed

lemma object_keys_bounds: "k \<in> set (object_keys j ob) \<Longrightarrow> ob < k \<and> Suc k < json_n j"
  by (auto simp: object_keys_def Let_def json_n_def dest!: keys_from_bounds)

lemma array_elements_bounds: "k \<in> set (array_elements j a) \<Longrightarrow> a < k \<and> k < json_n j"
  by (auto simp: array_elements_def Let_def json_n_def dest!: elements_from_bounds)

lemma get_value_eq:
  assumes "json_wf j" "length key < 65536"
  shows "get_value j ob key =
    (if ob < json_n j then
       (case List.find (\<lambda>k. span j k = key) (object_keys j ob) of
          None \<Rightarrow> Inl NoData | Some k \<Rightarrow> Inr (Suc k))
     else Inl NoData)"
proof -
  have "List.find (\<lambda>k. key_matches (buf j) (drop (Suc ob) (tokens j) ! (k - Suc ob)) key)
      (object_keys j ob) = List.find (\<lambda>k. span j k = key) (object_keys j ob)"
    by (rule find_cong) (use assms in \<open>auto dest!: object_keys_bounds simp: key_matches_span json_n_def\<close>)
  then show ?thesis
    by (simp add: get_value_def object_get_value_def Let_def find_value_eq)
       (simp add: object_keys_def Let_def)
qed

interpretation doc: document_view json_wf json_n span object_keys array_elements
  get_value get_nth get_count
proof
  fix j :: json and key :: bytes and ob :: nat
  assume "json_wf j" "length key < 65536"
  then show "get_value j ob key = (if ob < json_n j then
       (case List.find (\<lambda>k. span j k = key) (object_keys j ob) of
          None \<Rightarrow> Inl NoData | Some k \<Rightarrow> Inr (Suc k)) else Inl NoData)"
    by (rule get_value_eq)
next
  fix j a i
  assume "json_wf j"
  then show "get_nth j a i = (if a < json_n j \<and> i < length (array_elements j a)
      then Inr (array_elements j a ! i) else Inl NoData)"
    by (auto simp: get_nth_def array_get_nth_element_def Let_def json_wf_def UNSET_def
        nth_element_eq array_elements_def)
next
  fix j a
  assume wf: "json_wf j"
  then show "get_count j a = (if a < json_n j then Inr (length (array_elements j a)) else Inl NoData)"
    using count_elements_eq [of 0 "drop (Suc a) (tokens j)" _ _ "Suc a"]
    by (auto simp: get_count_def array_get_element_count_def Let_def json_wf_def UNSET_def
        array_elements_def)
qed (auto dest: object_keys_bounds array_elements_bounds)

lemma get_nth_key_eq:
  "json_wf j \<Longrightarrow> found (object_get_nth_key j ob i) =
     (if ob < json_n j \<and> i < length (object_keys j ob) then Inr (object_keys j ob ! i)
      else Inl NoData)"
  by (auto simp: object_get_nth_key_def Let_def json_wf_def UNSET_def nth_key_eq object_keys_def)

lemma get_member_count_eq:
  "json_wf j \<Longrightarrow> found (object_get_element_count j ob) =
     (if ob < json_n j then Inr (length (object_keys j ob)) else Inl NoData)"
  using count_members_eq [of 0 "drop (Suc ob) (tokens j)" _ _ "Suc ob"]
  by (auto simp: object_get_element_count_def Let_def json_wf_def UNSET_def object_keys_def)

section \<open>Key integrity means what it says\<close>

lemma check_keys_iff:
  "check_keys j seen ks = Inr () \<longleftrightarrow>
     list_all (\<lambda>k. CHR 0x5C \<notin> set (span j k)) ks \<and> distinct (map (span j) ks) \<and>
     set seen \<inter> span j ` set ks = {}"
  by (induction j seen ks rule: check_keys.induct) (auto simp: Let_def)

lemma check_objects_iff:
  "check_objects j is = Inr () \<longleftrightarrow>
     list_all (\<lambda>i. tok_kind (json_tok j i) = Object \<longrightarrow> check_keys j [] (object_keys j i) = Inr ()) is"
  by (induction j "is" rule: check_objects.induct) (auto simp: rbind_Inr_iff)

text \<open>
  Accepted documents: in every object the keys are distinct and free of backslashes.
\<close>

definition keys_ok :: "json \<Rightarrow> nat \<Rightarrow> bool" where
  "keys_ok j ob \<longleftrightarrow> distinct (map (span j) (object_keys j ob)) \<and>
     list_all (\<lambda>k. CHR 0x5C \<notin> set (span j k)) (object_keys j ob)"

lemma check_key_integrity_iff:
  "check_key_integrity j = Inr () \<longleftrightarrow>
     (\<forall>ob < json_n j. tok_kind (json_tok j ob) = Object \<longrightarrow> keys_ok j ob)"
  by (auto simp: check_key_integrity_def check_objects_iff check_keys_iff keys_ok_def list_all_iff)

lemma integrity_lookup:
  assumes "json_wf j" "check_key_integrity j = Inr ()" "ob < json_n j"
    "tok_kind (json_tok j ob) = Object" "length key < 65536"
  shows "get_value j ob key = Inr v \<longleftrightarrow> (\<exists>k \<in> set (object_keys j ob). span j k = key \<and> v = Suc k)"
  using assms doc.lookup_unique by (auto simp: check_key_integrity_iff keys_ok_def)

end
