(* ===== verification/Display.thy ===== *)
theory Display
  imports Kadena_Prelude
begin

text \<open>
  Screen text for review values (\<open>display.rs\<close>, and its two callers \<open>display_text\<close> and \<open>hex\<close> of
  the device crate's \<open>ui.rs\<close>): printable ASCII as is, every other byte as \<open>\xNN\<close>.
\<close>

section \<open>The escaping\<close>

definition printable :: "byte \<Rightarrow> bool" where
  "printable b \<longleftrightarrow> 0x20 \<le> byte_val b \<and> byte_val b < 0x7F"

definition HEX_UPPER :: bytes where
  "HEX_UPPER = ''0123456789ABCDEF''"

definition byte_escape :: "byte \<Rightarrow> bytes" where
  "byte_escape b = [CHR 0x5C, CHR ''x''] @ hex_pair HEX_UPPER b"

text \<open>
  \<open>escape\<close> calls \<open>out\<close> piece by piece: the model returns the list of pieces. \<open>cur\<close> is
  \<open>&bytes[start..i]\<close>, the printable run read since the last escape.
\<close>

fun escape_from :: "bytes \<Rightarrow> bytes \<Rightarrow> bytes list" where
  "escape_from cur [] = [cur]"
| "escape_from cur (b # bs) =
     (if printable b then escape_from (cur @ [b]) bs
      else cur # byte_escape b # escape_from [] bs)"

definition escape :: "bytes \<Rightarrow> bytes list" where
  "escape bs = escape_from [] bs"

text \<open>\<open>display_text\<close> of \<open>ui.rs\<close> pushes every piece onto the screen string.\<close>

definition display_text :: "bytes \<Rightarrow> bytes" where
  "display_text bs = concat (escape bs)"

text \<open>\<open>hex\<close> of \<open>ui.rs\<close> and \<open>hex_lower\<close> of \<open>items.rs\<close>: lowercase hex.\<close>

definition HEX_LOWER :: bytes where
  "HEX_LOWER = ''0123456789abcdef''"

definition hex_lower :: "bytes \<Rightarrow> bytes" where
  "hex_lower src = concat (map (hex_pair HEX_LOWER) src)"

section \<open>Byte by byte\<close>

definition escape_byte :: "byte \<Rightarrow> bytes" where
  "escape_byte b = (if printable b then [b] else byte_escape b)"

lemma concat_escape_from: "concat (escape_from cur bs) = cur @ concat (map escape_byte bs)"
  by (induction cur bs rule: escape_from.induct) (auto simp: escape_byte_def)

lemma display_text_eq: "display_text bs = concat (map escape_byte bs)"
  by (simp add: display_text_def escape_def concat_escape_from)

lemma display_text_simps [simp]:
  "display_text [] = []"
  "display_text (b # bs) = escape_byte b @ display_text bs"
  by (simp_all add: display_text_eq)

lemma display_text_append [simp]: "display_text (a @ b) = display_text a @ display_text b"
  by (simp add: display_text_eq)

lemma nibble_bounds: "byte_val b div 16 < 16" "byte_val b mod 16 < 16"
  using byte_val_less [of b] by (simp_all only: div_less_iff_less_mult)

lemma nth_mem_list_all: "list_all P xs \<Longrightarrow> i < length xs \<Longrightarrow> P (xs ! i)"
  by (simp add: list_all_length)

lemma hex_upper_printable: "i < 16 \<Longrightarrow> printable (HEX_UPPER ! i)"
proof -
  have "list_all printable HEX_UPPER" by code_simp
  moreover assume "i < 16"
  moreover have "length HEX_UPPER = 16" by (simp add: HEX_UPPER_def)
  ultimately show ?thesis by (simp add: nth_mem_list_all)
qed

lemma escape_byte_printable: "list_all printable (escape_byte b)"
  using nibble_bounds [of b]
  by (simp add: escape_byte_def byte_escape_def hex_pair_def hex_upper_printable)
     (simp add: printable_def)

lemma list_all_concat: "list_all P (concat xss) \<longleftrightarrow> list_all (list_all P) xss"
  by (induction xss) auto

lemma display_text_printable: "list_all printable (display_text bs)"
  by (induction bs) (simp_all add: escape_byte_printable)

lemma display_text_id: "list_all printable bs \<Longrightarrow> display_text bs = bs"
  by (induction bs) (simp_all add: escape_byte_def)

lemma length_escape_byte: "length (escape_byte b) \<le> 4"
  by (simp add: escape_byte_def byte_escape_def hex_pair_def)

lemma display_text_length: "length (display_text bs) \<le> 4 * length bs"
proof (induction bs)
  case (Cons b bs)
  then show ?case using length_escape_byte [of b] by simp
qed simp

section \<open>Reading the screen text back\<close>

text \<open>
  Values come from JSON strings, where a backslash always starts a two-byte escape whose
  second byte is never \<open>x\<close> (\<open>string_body_paired\<close> of \<open>Json_Strings\<close>). On such values the screen text determines the bytes: \<open>unescape\<close>
  reads it back.
\<close>

fun paired :: "bytes \<Rightarrow> bool" where
  "paired [] = True"
| "paired (c # cs) =
     (if c = CHR 0x5C then
        (case cs of [] \<Rightarrow> False | d # ds \<Rightarrow> d \<noteq> CHR ''x'' \<and> printable d \<and> paired ds)
      else paired cs)"

definition hex_digit_val :: "byte \<Rightarrow> nat" where
  "hex_digit_val c =
     (if is_ascii_digit c then byte_val c - 48 else byte_val c - 55)"

fun unescape :: "bytes \<Rightarrow> bytes" where
  "unescape [] = []"
| "unescape (c # cs) =
     (if c = CHR 0x5C then
        (case cs of
           d # h # l # rest \<Rightarrow>
             (if d = CHR ''x'' then byte_of (16 * hex_digit_val h + hex_digit_val l) # unescape rest
              else c # d # unescape (h # l # rest))
         | d # rest \<Rightarrow> c # d # unescape rest
         | [] \<Rightarrow> [c])
      else c # unescape cs)"

lemma hex_digit_val_upper: "i < 16 \<Longrightarrow> hex_digit_val (HEX_UPPER ! i) = i"
proof -
  have "list_all (\<lambda>i. hex_digit_val (HEX_UPPER ! i) = i) [0..<16]" by code_simp
  then show "i < 16 \<Longrightarrow> ?thesis" by (simp add: list_all_iff)
qed

lemma unescape_escape_byte [simp]: "unescape (byte_escape b @ rest) = b # unescape rest"
  using nibble_bounds [of b]
  by (simp add: byte_escape_def hex_pair_def hex_digit_val_upper)

lemma unescape_pair:
  "d \<noteq> CHR ''x'' \<Longrightarrow> unescape (CHR 0x5C # d # rest) = CHR 0x5C # d # unescape rest"
  by (cases rest; cases "tl rest") auto

lemma backslash_printable: "printable (CHR 0x5C)"
  by (simp add: printable_def)

lemma unescape_display: "paired bs \<Longrightarrow> unescape (display_text bs @ rest) = bs @ unescape rest"
proof (induction bs rule: paired.induct)
  case (2 c cs)
  show ?case
  proof (cases "c = CHR 0x5C")
    case True
    with 2 obtain d ds where "cs = d # ds" "d \<noteq> CHR ''x''" "printable d" "paired ds"
      by (auto split: list.splits)
    with True 2 show ?thesis
      by (simp add: escape_byte_def backslash_printable unescape_pair del: unescape.simps)
  next
    case False
    with 2 have "unescape (display_text cs @ rest) = cs @ unescape rest" by simp
    with False show ?thesis by (simp add: escape_byte_def)
  qed
qed simp

lemma display_text_inj: "paired a \<Longrightarrow> paired b \<Longrightarrow> display_text a = display_text b \<Longrightarrow> a = b"
  using unescape_display [of a "[]"] unescape_display [of b "[]"] by simp

section \<open>Lowercase hex\<close>

lemma length_hex_lower [simp]: "length (hex_lower bs) = 2 * length bs"
  by (induction bs) (simp_all add: hex_lower_def hex_pair_def)

lemma hex_lower_nth_char: "i < 16 \<Longrightarrow>
  is_ascii_digit (HEX_LOWER ! i) \<or> 97 \<le> byte_val (HEX_LOWER ! i) \<and> byte_val (HEX_LOWER ! i) \<le> 102"
proof -
  have "list_all (\<lambda>c. is_ascii_digit c \<or> 97 \<le> byte_val c \<and> byte_val c \<le> 102) HEX_LOWER"
    by code_simp
  moreover have "length HEX_LOWER = 16" by (simp add: HEX_LOWER_def)
  ultimately show "i < 16 \<Longrightarrow> ?thesis" using nth_mem_list_all by fastforce
qed

lemma HEX_LOWER_distinct: "distinct HEX_LOWER" "length HEX_LOWER = 16"
  by (simp_all add: HEX_LOWER_def)

lemma hex_pair_inj: "hex_pair HEX_LOWER a = hex_pair HEX_LOWER b \<Longrightarrow> a = b"
proof -
  assume "hex_pair HEX_LOWER a = hex_pair HEX_LOWER b"
  then have "byte_val a div 16 = byte_val b div 16" "byte_val a mod 16 = byte_val b mod 16"
    using nibble_bounds HEX_LOWER_distinct by (simp_all add: hex_pair_def nth_eq_iff_index_eq)
  then show ?thesis by (metis byte_val_inj div_mult_mod_eq)
qed

lemma hex_lower_inj: "hex_lower a = hex_lower b \<Longrightarrow> a = b"
proof (induction a arbitrary: b)
  case Nil
  then show ?case using length_hex_lower [of b] by (cases b) (auto simp: hex_lower_def hex_pair_def)
next
  case (Cons x xs)
  then obtain y ys where b: "b = y # ys"
    by (cases b) (auto simp: hex_lower_def hex_pair_def)
  with Cons.prems have "hex_pair HEX_LOWER x = hex_pair HEX_LOWER y" "hex_lower xs = hex_lower ys"
    by (simp_all add: hex_lower_def hex_pair_def)
  with b Cons.IH show ?case by (auto dest: hex_pair_inj)
qed

end
