(* ===== verification/Review_Checks.thy ===== *)
theory Review_Checks
  imports Json Display
begin

text \<open>
  The checks of \<open>items.rs\<close> that only read the document: the \<open>meta\<close> object, the kind of a
  capability, the signer entry the device signs for, amounts and plain integers.
\<close>

section \<open>Values the review shows as text\<close>

text \<open>\<open>shown_unescaped\<close>: a JSON string without escapes.\<close>

definition shown_unescaped :: "json \<Rightarrow> nat \<Rightarrow> items_error + unit" where
  "shown_unescaped j t =
     (if tok_kind (json_tok j t) \<noteq> StringTok \<or> CHR 0x5C \<in> set (span j t)
      then Inl ItemUnexpectedCharacters else Inr ())"

text \<open>\<open>args_unescaped\<close>: the same for the arguments at the given positions.\<close>

fun args_unescaped :: "json \<Rightarrow> nat \<Rightarrow> nat list \<Rightarrow> items_error + unit" where
  "args_unescaped j args [] = Inr ()"
| "args_unescaped j args (p # ps) =
     rbind (pe (get_nth j args p)) (\<lambda>t.
     rbind (shown_unescaped j t) (\<lambda>_. args_unescaped j args ps))"

section \<open>The \<open>meta\<close> object\<close>

definition META_KEYWORDS :: "bytes list" where
  "META_KEYWORDS = [''creationTime'', ''ttl'', ''gasLimit'', ''chainId'', ''gasPrice'', ''sender'']"

fun position_from :: "nat \<Rightarrow> bytes list \<Rightarrow> bytes \<Rightarrow> nat option" where
  "position_from i [] name = None"
| "position_from i (k # ks) name = (if k = name then Some i else position_from (Suc i) ks name)"

text \<open>
  The loop over the keys of \<open>meta\<close>: \<open>present\<close> is the \<open>u8\<close> bit set. The result of the key
  lookup is ignored, as in the code; the out-parameter is read either way.
\<close>

fun meta_keys :: "json \<Rightarrow> nat \<Rightarrow> nat list \<Rightarrow> 8 word \<Rightarrow> parser_error + 8 word" where
  "meta_keys j meta [] present = Inr present"
| "meta_keys j meta (i # is) present =
     (let k = snd (object_get_nth_key j meta i);
          t = json_tok j k
      in if int (tok_end t) - int (tok_start t) \<ge> 40 then Inl InvalidMetaField
         else (case position_from 0 META_KEYWORDS (span j k) of
                 None \<Rightarrow> Inl InvalidMetaField
               | Some p \<Rightarrow>
                   if and present (push_bit p 1) = 0
                   then meta_keys j meta is (or present (push_bit p 1))
                   else Inl InvalidMetaField))"

definition validate_meta_field :: "json \<Rightarrow> parser_error + unit" where
  "validate_meta_field j =
     rbind (get_value j 0 ''meta'') (\<lambda>meta.
       if is_null j meta then Inl NoData
       else if tok_kind (json_tok j meta) \<noteq> Object then Inl InvalidMetaField
       else rbind (found (object_get_element_count j meta)) (\<lambda>n.
         if n > 6 then Inl InvalidMetaField
         else rbind (meta_keys j meta [0..<n] 0) (\<lambda>present.
           if and present (present + 1) \<noteq> 0 then Inl InvalidMetaField else Inr ())))"

section \<open>Capabilities\<close>

text \<open>\<open>get_tx_name\<close>: the kind of a capability, as the error code the C parser used for it.\<close>

definition get_tx_name :: "json \<Rightarrow> nat \<Rightarrow> parser_error" where
  "get_tx_name j cap =
     (if tok_kind (json_tok j cap) = Object then
        (case get_value j cap ''name'' of
           Inl _ \<Rightarrow> NoData
         | Inr idx \<Rightarrow>
             (let name = span j idx in
              if tok_len (json_tok j idx) = 0 then NoData
              else if name = ''coin.TRANSFER'' then NameTxTransfer
              else if name = ''coin.TRANSFER_XCHAIN'' then NameTxTransferXchain
              else if name = ''coin.ROTATE'' then NameRotate
              else if name = ''coin.GAS'' then NameGas
              else NoData))
      else NoData)"

text \<open>
  \<open>get_valid_clist\<close>: the capability list of the signer entry and its length; a missing, null or
  empty list is none. The second component is the \<open>clist\<close> out-parameter after the call.
\<close>

definition get_valid_clist_out :: "json \<Rightarrow> nat \<Rightarrow> nat \<Rightarrow> (parser_error + nat) \<times> nat" where
  "get_valid_clist_out j signer out =
     (case object_get_value j signer ''clist'' out of
        (Inl _, c) \<Rightarrow> (Inl NoData, c)
      | (Inr _, c) \<Rightarrow>
          if is_null j c then (Inl NoData, c)
          else (case get_count j c of
                  Inl e \<Rightarrow> (Inl e, c)
                | Inr n \<Rightarrow> if n > 0 then (Inr n, c) else (Inl NoData, c)))"

definition get_valid_clist :: "json \<Rightarrow> nat \<Rightarrow> parser_error + (nat \<times> nat)" where
  "get_valid_clist j signer =
     (case get_valid_clist_out j signer 0 of (Inl e, _) \<Rightarrow> Inl e | (Inr n, c) \<Rightarrow> Inr (c, n))"

section \<open>The device's signer entry\<close>

text \<open>One field of a signer entry: does it name the device key?\<close>

definition names_field :: "json \<Rightarrow> bytes \<Rightarrow> nat \<Rightarrow> bytes \<Rightarrow> parser_error + bool" where
  "names_field j device_hex ent field =
     (case get_value j ent field of
        Inl _ \<Rightarrow> Inr False
      | Inr v \<Rightarrow>
          if CHR 0x5C \<in> set (span j v) then Inl UnexpectedCharacters
          else Inr (eq_ignore_ascii_case (span j v) device_hex))"

definition names_device :: "json \<Rightarrow> bytes \<Rightarrow> nat \<Rightarrow> parser_error + bool" where
  "names_device j device_hex ent =
     rbind (names_field j device_hex ent ''pubKey'') (\<lambda>a.
     rbind (names_field j device_hex ent ''addr'') (\<lambda>b. Inr (a \<or> b)))"

text \<open>The loop over the signer entries: the last entry that names the key, and how many do.\<close>

fun scan_signers :: "json \<Rightarrow> bytes \<Rightarrow> nat \<Rightarrow> nat list \<Rightarrow> nat option \<times> nat \<Rightarrow>
    parser_error + (nat option \<times> nat)" where
  "scan_signers j device_hex signers [] acc = Inr acc"
| "scan_signers j device_hex signers (i # is) acc =
     rbind (get_nth j signers i) (\<lambda>ent.
       if tok_kind (json_tok j ent) \<noteq> Object then scan_signers j device_hex signers is acc
       else rbind (names_device j device_hex ent) (\<lambda>b.
         scan_signers j device_hex signers is (if b then (Some ent, Suc (snd acc)) else acc)))"

text \<open>V18: no escape in a capability name of the device's entry.\<close>

fun check_cap_names :: "json \<Rightarrow> nat \<Rightarrow> nat list \<Rightarrow> parser_error + unit" where
  "check_cap_names j clist [] = Inr ()"
| "check_cap_names j clist (i # is) =
     rbind (get_nth j clist i) (\<lambda>cap.
       case get_value j cap ''name'' of
         Inl _ \<Rightarrow> check_cap_names j clist is
       | Inr name \<Rightarrow>
           if CHR 0x5C \<in> set (span j name) then Inl UnexpectedCharacters
           else check_cap_names j clist is)"

definition find_device_signer :: "json \<Rightarrow> bytes \<Rightarrow> parser_error + (nat \<times> nat)" where
  "find_device_signer j device_hex =
     rbind (map_err (\<lambda>_. SignerNotFound) (get_value j 0 ''signers'')) (\<lambda>signers.
       if tok_kind (json_tok j signers) \<noteq> Array then Inl SignerNotFound
       else rbind (get_count j signers) (\<lambda>n.
       rbind (scan_signers j device_hex signers [0..<n] (None, 0)) (\<lambda>(e, matches).
       rbind (if matches = 1 then ok_or SignerRepeated e
              else if matches = 0 then Inl SignerNotFound else Inl SignerRepeated) (\<lambda>ent.
       rbind (map_err (\<lambda>_. SignerNotFound) (get_value j ent ''pubKey'')) (\<lambda>pk.
       if tok_kind (json_tok j pk) \<noteq> StringTok \<or> span j pk \<noteq> device_hex then Inl SignerNotFound
       else rbind
         (case get_value j ent ''clist'' of
            Inl _ \<Rightarrow> Inr ()
          | Inr clist \<Rightarrow>
              if tok_kind (json_tok j clist) = Array
              then rbind (get_count j clist) (\<lambda>m. check_cap_names j clist [0..<m])
              else Inr ())
         (\<lambda>_. Inr (ent, n)))))))"

section \<open>Amounts and integers\<close>

definition AMOUNT_PRECISION :: nat where "AMOUNT_PRECISION = 12"

text \<open>\<open>(0|[1-9][0-9]*)(.[0-9]{1,12})?\<close>\<close>

definition is_amount :: "bytes \<Rightarrow> bool" where
  "is_amount v =
     (let int_part = takeWhile (\<lambda>b. b \<noteq> CHR ''.'') v;
          frac = (if CHR ''.'' \<in> set v then Some (drop (Suc (length int_part)) v) else None)
      in all_digits int_part \<and> (int_part = ''0'' \<or> hd int_part \<noteq> CHR ''0'') \<and>
         (case frac of None \<Rightarrow> True | Some f \<Rightarrow> all_digits f \<and> length f \<le> AMOUNT_PRECISION))"

text \<open>\<open>check_amount\<close>: the token of the number shown for argument 3 of a transfer.\<close>

definition check_amount :: "json \<Rightarrow> nat \<Rightarrow> items_error + nat" where
  "check_amount j args =
     rbind (pe (get_nth j args 2)) (\<lambda>amount.
     rbind
       (case tok_kind (json_tok j amount) of
          Primitive \<Rightarrow> Inr amount
        | Object \<Rightarrow>
            rbind (pe (found (object_get_element_count j amount))) (\<lambda>n.
              if n \<noteq> 1 then Inl ItemUnexpectedCharacters
              else rbind (pe (found (object_get_nth_key j amount 0))) (\<lambda>key.
                rbind (pe (found (object_get_nth_value j amount 0 0))) (\<lambda>val.
                  if tok_kind (json_tok j key) \<noteq> StringTok \<or> span j key \<noteq> ''decimal'' \<or>
                     tok_kind (json_tok j val) \<noteq> StringTok
                  then Inl ItemUnexpectedCharacters else Inr val)))
        | _ \<Rightarrow> Inl ItemUnexpectedCharacters)
       (\<lambda>txt. if is_amount (span j txt) then Inr txt else Inl ItemUnexpectedCharacters))"

text \<open>\<open>plain_integer\<close>: a primitive written as digits only.\<close>

definition plain_integer :: "json \<Rightarrow> nat \<Rightarrow> items_error + unit" where
  "plain_integer j t =
     (if tok_kind (json_tok j t) \<noteq> Primitive \<or> span j t = [] \<or>
         \<not> list_all is_ascii_digit (span j t)
      then Inl ItemUnexpectedCharacters else Inr ())"

fun check_integer_fields :: "json \<Rightarrow> nat \<Rightarrow> bytes list \<Rightarrow> items_error + unit" where
  "check_integer_fields j meta [] = Inr ()"
| "check_integer_fields j meta (f # fs) =
     (case get_value j meta f of
        Inl _ \<Rightarrow> check_integer_fields j meta fs
      | Inr v \<Rightarrow> rbind (plain_integer j v) (\<lambda>_. check_integer_fields j meta fs))"

definition check_integer_meta :: "json \<Rightarrow> nat \<Rightarrow> items_error + unit" where
  "check_integer_meta j meta = check_integer_fields j meta [''creationTime'', ''ttl'', ''gasLimit'']"

section \<open>The signer key among the capability arguments\<close>

text \<open>\<open>find_pubkey_in_clist\<close>, its inner loop over the arguments of one capability.\<close>

definition strip_k :: "bytes \<Rightarrow> bytes" where
  "strip_k v = (if length v \<ge> 2 \<and> take 2 v = ''k:'' then drop 2 v else v)"

fun args_name_key :: "json \<Rightarrow> bytes \<Rightarrow> nat \<Rightarrow> nat list \<Rightarrow> bool" where
  "args_name_key j key args [] = False"
| "args_name_key j key args (i # is) =
     (case get_nth j args i of
        Inl _ \<Rightarrow> args_name_key j key args is
      | Inr t \<Rightarrow> strip_k (span j t) = key \<or> args_name_key j key args is)"

fun caps_name_key :: "json \<Rightarrow> bytes \<Rightarrow> nat \<Rightarrow> nat list \<Rightarrow> parser_error + unit" where
  "caps_name_key j key clist [] = Inl NoData"
| "caps_name_key j key clist (i # is) =
     rbind (get_nth j clist i) (\<lambda>ent.
     rbind (get_value j ent ''args'') (\<lambda>args.
     rbind (get_count j args) (\<lambda>nargs.
       if args_name_key j key args [0..<nargs] then Inr () else caps_name_key j key clist is)))"

definition find_pubkey_in_clist :: "json \<Rightarrow> nat \<Rightarrow> nat \<Rightarrow> parser_error + unit" where
  "find_pubkey_in_clist j signer key_idx =
     (case get_valid_clist j signer of
        Inl _ \<Rightarrow> Inl NoData
      | Inr (clist, n) \<Rightarrow> caps_name_key j (span j key_idx) clist [0..<n])"

section \<open>Namespaces of capability names\<close>

definition split_namespace :: "bytes \<Rightarrow> bytes option \<times> bytes" where
  "split_namespace name =
     (let i = length (takeWhile (\<lambda>b. b \<noteq> CHR ''.'') name) in
      if count_list name (CHR ''.'') \<ge> 2 then (Some (take i name), drop (Suc i) name)
      else (None, name))"

end
