(* ===== verification/Principal.thy ===== *)
theory Principal
  imports Kadena_Prelude
begin

text \<open>
  Whether an account name is a Pact principal (\<open>principal.rs\<close>). The parser is greedy and
  deterministic; the second half of the theory states the grammar it implements and shows that
  it accepts exactly that grammar.
\<close>

section \<open>The parser\<close>

definition B64URL :: bytes where
  "B64URL = ''ABCDEFGHIJKLMNOPQRSTUVWXYZabcdefghijklmnopqrstuvwxyz0123456789-_''"

definition SYMBOLS :: bytes where
  "SYMBOLS = ''%#+-_&$@<>=^?*!|/~''"

definition ident_start :: "byte \<Rightarrow> bool" where
  "ident_start b \<longleftrightarrow> is_ascii_alphabetic b \<or> b \<in> set SYMBOLS"

definition ident_rest :: "byte \<Rightarrow> bool" where
  "ident_rest b \<longleftrightarrow> is_ascii_alphanumeric b \<or> b \<in> set SYMBOLS"

text \<open>One identifier at the start of \<open>s\<close> (not \<open>true\<close>/\<open>false\<close>); the rest.\<close>

definition ident_p :: "bytes \<Rightarrow> bytes option" where
  "ident_p s = (case s of
     [] \<Rightarrow> None
   | b # bs \<Rightarrow>
       if \<not> ident_start b then None
       else (let n = 1 + length (takeWhile ident_rest bs) in
             if take n s = ''true'' \<or> take n s = ''false'' then None
             else Some (drop n s)))"

definition strip_prefix :: "byte \<Rightarrow> bytes \<Rightarrow> bytes option" where
  "strip_prefix c s = (case s of [] \<Rightarrow> None | b # bs \<Rightarrow> if b = c then Some bs else None)"

text \<open>The \<open>for _ in 0..2\<close> loop of \<open>name\<close>: at most \<open>k\<close> more \<open>'.' ident\<close>.\<close>

fun name_more :: "nat \<Rightarrow> bytes \<Rightarrow> bytes" where
  "name_more 0 rest = rest"
| "name_more (Suc k) rest =
     (case Option.bind (strip_prefix (CHR ''.'') rest) ident_p of
        Some r \<Rightarrow> name_more k r
      | None \<Rightarrow> rest)"

definition name_p :: "bytes \<Rightarrow> bytes option" where
  "name_p s = map_option (name_more 2) (ident_p s)"

definition module_p :: "bytes \<Rightarrow> bytes option" where
  "module_p s = (case ident_p s of
     None \<Rightarrow> None
   | Some rest \<Rightarrow>
       (case Option.bind (strip_prefix (CHR ''.'') rest) ident_p of
          None \<Rightarrow> Some rest | Some r \<Rightarrow> Some r))"

definition hash_p :: "bytes \<Rightarrow> bytes option" where
  "hash_p s = (if length s < 43 \<or> \<not> list_all (\<lambda>b. b \<in> set B64URL) (take 43 s) then None
               else Some (drop 43 s))"

definition colon_p :: "bytes \<Rightarrow> bytes option" where
  "colon_p s = strip_prefix (CHR '':'') s"

definition at_end :: "bytes option \<Rightarrow> bool" where
  "at_end r \<longleftrightarrow> r = Some []"

definition is_principal :: "bytes \<Rightarrow> bool" where
  "is_principal account = (case account of
     kind # c # body \<Rightarrow>
       if c \<noteq> CHR '':'' then False
       else if kind = CHR ''k'' then length body = 64 \<and> list_all is_ascii_hexdigit body
       else if kind = CHR ''w'' then
         at_end (Option.bind (Option.bind (hash_p body) colon_p) name_p)
       else if kind = CHR ''r'' then body \<noteq> []
       else if kind = CHR ''u'' then
         at_end (Option.bind (Option.bind (name_p body) colon_p) hash_p)
       else if kind = CHR ''m'' then
         at_end (Option.bind (Option.bind (module_p body) colon_p) name_p)
       else if kind = CHR ''p'' then
         at_end (Option.bind (Option.bind (hash_p body) colon_p) name_p)
       else if kind = CHR ''c'' then at_end (hash_p body)
       else False
   | _ \<Rightarrow> False)"

section \<open>The grammar\<close>

definition ident_word :: "bytes \<Rightarrow> bool" where
  "ident_word w \<longleftrightarrow> w \<noteq> [] \<and> ident_start (hd w) \<and> list_all ident_rest (tl w) \<and>
     w \<noteq> ''true'' \<and> w \<noteq> ''false''"

definition hash_word :: "bytes \<Rightarrow> bool" where
  "hash_word w \<longleftrightarrow> length w = 43 \<and> set w \<subseteq> set B64URL"

text \<open>\<open>dotted k w\<close>: between one and \<open>k + 1\<close> identifiers separated by dots.\<close>

fun dotted :: "nat \<Rightarrow> bytes \<Rightarrow> bool" where
  "dotted 0 w = ident_word w"
| "dotted (Suc k) w \<longleftrightarrow> ident_word w \<or>
     (\<exists>i r. w = i @ CHR ''.'' # r \<and> ident_word i \<and> dotted k r)"

definition principal_grammar :: "bytes \<Rightarrow> bool" where
  "principal_grammar s \<longleftrightarrow>
     (\<exists>b. s = ''k:'' @ b \<and> length b = 64 \<and> list_all is_ascii_hexdigit b)
   \<or> (\<exists>h n. s = ''w:'' @ h @ '':'' @ n \<and> hash_word h \<and> dotted 2 n)
   \<or> (\<exists>b. s = ''r:'' @ b \<and> b \<noteq> [])
   \<or> (\<exists>n h. s = ''u:'' @ n @ '':'' @ h \<and> dotted 2 n \<and> hash_word h)
   \<or> (\<exists>m n. s = ''m:'' @ m @ '':'' @ n \<and> dotted 1 m \<and> dotted 2 n)
   \<or> (\<exists>h n. s = ''p:'' @ h @ '':'' @ n \<and> hash_word h \<and> dotted 2 n)
   \<or> (\<exists>h. s = ''c:'' @ h \<and> hash_word h)"

section \<open>The parser accepts the grammar\<close>

text \<open>A rest that ends an identifier: nothing left, or a byte no identifier contains.\<close>

definition stops :: "bytes \<Rightarrow> bool" where
  "stops r \<longleftrightarrow> (case r of [] \<Rightarrow> True | c # _ \<Rightarrow> \<not> ident_rest c)"

lemma stops_simps [simp]: "stops []" "stops (c # r) \<longleftrightarrow> \<not> ident_rest c"
  by (simp_all add: stops_def)

lemma not_ident_rest [simp]: "\<not> ident_rest (CHR ''.'')" "\<not> ident_rest (CHR '':'')"
  by code_simp+

lemma takeWhile_stops: "list_all P w \<Longrightarrow> (case r of [] \<Rightarrow> True | c # _ \<Rightarrow> \<not> P c)
  \<Longrightarrow> takeWhile P (w @ r) = w"
  by (induction w) (auto split: list.splits)

lemma ident_p_word: "ident_word w \<Longrightarrow> stops r \<Longrightarrow> ident_p (w @ r) = Some r"
  by (cases w) (auto simp: ident_word_def ident_p_def stops_def takeWhile_stops)

lemma ident_p_SomeD:
  assumes "ident_p s = Some r"
  shows "\<exists>w. s = w @ r \<and> ident_word w \<and> stops r"
proof -
  from assms obtain b bs where s: "s = b # bs" and b: "ident_start b"
    by (auto simp: ident_p_def split: list.splits if_splits)
  let ?t = "takeWhile ident_rest bs"
  have r: "r = drop (length ?t) bs" and ne: "b # take (length ?t) bs \<noteq> ''true''"
     "b # take (length ?t) bs \<noteq> ''false''"
    using assms s b by (auto simp: ident_p_def Let_def split: if_splits)
  have t: "take (length ?t) bs = ?t" by (metis takeWhile_eq_take)
  have r': "r = dropWhile ident_rest bs" by (simp add: r dropWhile_eq_drop)
  have "stops r"
    unfolding r' stops_def by (metis hd_dropWhile list.case_eq_if list.collapse list.sel(1))
  moreover have "ident_word (b # ?t)"
    using b ne t by (auto simp: ident_word_def list_all_iff dest: set_takeWhileD)
  moreover have "s = (b # ?t) @ r" by (simp add: s r')
  ultimately show ?thesis by blast
qed

lemma name_more_stops: "stops r \<Longrightarrow> \<not> (\<exists>x. r = CHR ''.'' # x) \<Longrightarrow> name_more k r = r"
  by (cases k) (auto simp: strip_prefix_def split: list.splits)

lemma dotted_name:
  "dotted k w \<Longrightarrow> r = [] \<or> (\<exists>x. r = CHR '':'' # x) \<Longrightarrow>
   map_option (name_more k) (ident_p (w @ r)) = Some r"
proof (induction k arbitrary: w)
  case 0
  then have "stops r" by auto
  with 0 show ?case by (simp add: ident_p_word)
next
  case (Suc k)
  then have r: "stops r" "\<not> (\<exists>x. r = CHR ''.'' # x)" by auto
  from Suc.prems(1) show ?case
    unfolding dotted.simps
  proof (elim disjE exE conjE)
    assume "ident_word w"
    with r show ?thesis by (simp add: ident_p_word name_more_stops del: name_more.simps)
  next
    fix i v assume w: "w = i @ CHR ''.'' # v" "ident_word i" "dotted k v"
    obtain u where u: "ident_p (v @ r) = Some u" "name_more k u = r"
      using Suc.IH [OF w(3) Suc.prems(2)] by auto
    have "ident_p (w @ r) = Some (CHR ''.'' # v @ r)"
      using w ident_p_word [of i "CHR ''.'' # v @ r"] by simp
    then show ?thesis using u by (simp add: strip_prefix_def)
  qed
qed

lemma name_dotted:
  "map_option (name_more k) (ident_p s) = Some r \<Longrightarrow> \<exists>w. s = w @ r \<and> dotted k w"
proof (induction k arbitrary: s)
  case 0
  then show ?case by (auto dest: ident_p_SomeD)
next
  case (Suc k)
  then obtain t where t: "ident_p s = Some t" "name_more (Suc k) t = r" by auto
  then obtain w where w: "s = w @ t" "ident_word w" by (auto dest: ident_p_SomeD)
  show ?case
  proof (cases "Option.bind (strip_prefix (CHR ''.'') t) ident_p")
    case None
    with t w show ?thesis by auto
  next
    case (Some u)
    then obtain v where v: "t = CHR ''.'' # v" "ident_p v = Some u"
      by (auto simp: strip_prefix_def split: list.splits if_splits)
    moreover have "name_more k u = r" using Some t(2) by simp
    ultimately obtain x where "v = x @ r" "dotted k x" using Suc.IH [of v] by auto
    with v w show ?thesis by (intro exI [of _ "w @ CHR ''.'' # x"]) auto
  qed
qed

lemma hash_p_iff: "hash_p s = Some r \<longleftrightarrow> (\<exists>h. s = h @ r \<and> hash_word h)"
proof
  assume "hash_p s = Some r"
  then have "s = take 43 s @ r" "hash_word (take 43 s)"
    by (auto simp: hash_p_def hash_word_def list_all_iff split: if_splits)
  then show "\<exists>h. s = h @ r \<and> hash_word h" by blast
qed (auto simp: hash_p_def hash_word_def list_all_iff)

lemma module_p_eq: "module_p s = map_option (name_more 1) (ident_p s)"
  by (auto simp: module_p_def split: option.splits)

lemma colon_p_iff: "colon_p s = Some r \<longleftrightarrow> s = CHR '':'' # r"
  by (auto simp: colon_p_def strip_prefix_def split: list.splits)

lemma name_p_end: "name_p s = Some [] \<longleftrightarrow> dotted 2 s"
  using dotted_name [of 2 s "[]"] name_dotted [of 2 s "[]"] by (auto simp: name_p_def)

lemma name_p_colon:
  "name_p s = Some (CHR '':'' # r) \<longleftrightarrow> (\<exists>n. s = n @ CHR '':'' # r \<and> dotted 2 n)"
  using dotted_name [of 2] name_dotted [of 2 s] unfolding name_p_def by blast

lemma module_p_colon:
  "module_p s = Some (CHR '':'' # r) \<longleftrightarrow> (\<exists>n. s = n @ CHR '':'' # r \<and> dotted 1 n)"
  using dotted_name [of 1] name_dotted [of 1 s] unfolding module_p_eq by blast

lemma bind_end: "Option.bind (p s) (\<lambda>y. Option.bind (colon_p y) q) = Some [] \<longleftrightarrow>
  (\<exists>r. p s = Some (CHR '':'' # r) \<and> q r = Some [])"
  by (auto simp: bind_eq_Some_conv colon_p_iff)

lemma ex_split: "(\<exists>r. (\<exists>h. A h r \<and> P h) \<and> Q r) \<longleftrightarrow> (\<exists>h r. A h r \<and> P h \<and> Q r)"
  by metis

lemma is_principal_grammar: "is_principal s \<longleftrightarrow> principal_grammar s"
proof (cases "\<exists>k b. s = k # CHR '':'' # b")
  case False
  have "\<not> is_principal s"
  proof (cases "\<exists>k c b. s = k # c # b")
    case True
    with False show ?thesis by (auto simp: is_principal_def)
  next
    case F: False
    then show ?thesis by (cases s; cases "tl s") (auto simp: is_principal_def)
  qed
  moreover have "\<not> principal_grammar s"
    using False by (force simp: principal_grammar_def)
  ultimately show ?thesis by simp
next
  case True
  then obtain k b where s: "s = k # CHR '':'' # b" by blast
  note parts = bind_end hash_p_iff name_p_end name_p_colon module_p_colon
  consider (kind) "k \<in> set ''kwrumpc''" | (other) "k \<notin> set ''kwrumpc''" by blast
  then show ?thesis
  proof cases
    case kind
    then have "k = CHR ''k'' \<or> k = CHR ''w'' \<or> k = CHR ''r'' \<or> k = CHR ''u'' \<or> k = CHR ''m''
      \<or> k = CHR ''p'' \<or> k = CHR ''c''" by auto
    then show ?thesis
      by (elim disjE;
          simp add: s at_end_def is_principal_def principal_grammar_def parts ex_split del: dotted.simps)
  next
    case other
    then show ?thesis by (simp add: s is_principal_def principal_grammar_def)
  qed
qed

end
