(* ===== verification/Items.thy ===== *)
theory Items
  imports Review_Checks Principal
begin

text \<open>
  The review list (\<open>ItemArray\<close> of \<open>items.rs\<close>): a fixed array of slots. A store operation writes
  the slot \<open>num\<close> and then increments \<open>num\<close>; a lookup writes its token index into the slot even
  when the item is then not stored, and the next item stored there inherits it. The operations are
  state-passing programs over the array.
\<close>

section \<open>Items\<close>

definition MAX_ITEMS :: nat where "MAX_ITEMS = 100"

datatype tx_type = TxJson | TxHash | TxTransfer

text \<open>\<open>enum Key\<close> and \<open>enum Render\<close>, prefixed with \<open>K\<close> and \<open>R\<close>.\<close>

datatype item_key =
    KSigning | KOnNetwork | KRequiring | KOfKey | KUnscopedSigner | KWarning | KCaution | KOnChain
  | KUsingGas | KTransfer | KFrom | KTo | KAmount | KToChain | KRotate | KArguments | KCapability
  | KNamespace | KTransactionHash | KSignForAddress | KSigners | KKeyNotInTransfer | KPayload
  | KPactId | KStep | KMaxFee | KPayingAccount | KCreated | KTtl

datatype item_render =
    RNone | RStd | RWarning | RHashWarning | RCaution | RTxTooLarge | RSigning | RRequiring
  | RAmount | RTransfer | RCrossTransfer | RRotate | RGas | RHash | RUnknown | RSignForAddr
  | RSigners | RMaxFee | RRotateWarning | RNotPrincipal | RCapNotVerified | RCapName
  | RCapNamespace | RExec | RCont

record item =
  i_key :: item_key
  i_token :: nat
  can_display :: bool
  i_render :: item_render

definition ITEM_ZERO :: item where
  "ITEM_ZERO = \<lparr> i_key = KSigning, i_token = 0, can_display = False, i_render = RNone \<rparr>"

definition ITEM_INIT :: item where
  "ITEM_INIT = \<lparr> i_key = KSigning, i_token = 0, can_display = True, i_render = RNone \<rparr>"

record item_array =
  arr_items :: "item list"
  arr_num :: nat
  num_unknown :: nat
  arr_signer :: nat
  arr_key_tok :: nat
  arr_nsigners :: nat

definition items_new :: item_array where
  "items_new = \<lparr> arr_items = replicate MAX_ITEMS ITEM_ZERO, arr_num = 0, num_unknown = 0,
     arr_signer = 0, arr_key_tok = 0, arr_nsigners = 0 \<rparr>"

definition items_init :: "item_array \<Rightarrow> item_array" where
  "items_init a = a \<lparr> arr_items := replicate MAX_ITEMS ITEM_INIT, arr_num := 0, num_unknown := 1 \<rparr>"

section \<open>Slots\<close>

type_synonym 'a store = "(item_array, items_error, 'a) prog"

text \<open>
  \<open>self.items[num]\<close>. The index is in range in every call: an increment that reaches
  \<open>MAX_ITEMS\<close> fails, and a failed store ends the parse (lemma \<open>refines_num\<close> below).
\<close>

definition slot :: "item_array \<Rightarrow> item" where
  "slot a = arr_items a ! arr_num a"

definition set_slot :: "(item \<Rightarrow> item) \<Rightarrow> item_array \<Rightarrow> item_array" where
  "set_slot f a = a \<lparr> arr_items := (arr_items a)[arr_num a := f (slot a)] \<rparr>"

definition set_token :: "nat \<Rightarrow> unit store" where
  "set_token t = modifies (set_slot (\<lambda>i. i \<lparr> i_token := t \<rparr>))"

definition incr :: "unit store" where
  "incr a =
     (let a' = a \<lparr> arr_num := Suc (arr_num a) \<rparr> in
      if arr_num a' \<ge> MAX_ITEMS then (Inl TooManyItems, a') else (Inr (), a'))"

definition push :: "item_key \<Rightarrow> item_render \<Rightarrow> unit store" where
  "push key render =
     thn (modifies (set_slot (\<lambda>i. i \<lparr> i_key := key, i_render := render \<rparr>))) incr"

text \<open>
  \<open>pe(json.lookup(.., &mut self.items[num].token))\<close>: the lookup's out-parameter is the slot's
  token, written on failure too; the result is its new value.
\<close>

definition lookup_slot :: "(nat \<Rightarrow> lookup) \<Rightarrow> nat store" where
  "lookup_slot f a =
     (let (r, t) = f (i_token (slot a)) in
      (rbind (pe r) (\<lambda>_. Inr t), set_slot (\<lambda>i. i \<lparr> i_token := t \<rparr>) a))"

text \<open>An item whose token is set first.\<close>

definition push_at :: "nat \<Rightarrow> item_key \<Rightarrow> item_render \<Rightarrow> unit store" where
  "push_at t key render = thn (set_token t) (push key render)"

definition only_if :: "bool \<Rightarrow> unit store \<Rightarrow> unit store" where
  "only_if c m = (if c then m else ret ())"

section \<open>Network, key and signer checks\<close>

definition store_network :: "json \<Rightarrow> unit store" where
  "store_network j =
     bnd (reads (\<lambda>a. i_token (slot a))) (\<lambda>obj.
     bnd (lookup_slot (object_get_value j obj ''networkId'')) (\<lambda>t.
       only_if (\<not> is_null j t)
         (thn (lifts (shown_unescaped j t)) (push KOnNetwork RStd))))"

definition store_key :: "unit store" where
  "store_key = bnd (reads arr_key_tok) (\<lambda>k. push_at k KOfKey RStd)"

definition unscoped_signer :: "item_key \<Rightarrow> unit store" where
  "unscoped_signer key = bnd (reads arr_key_tok) (\<lambda>k.
     thn (modifies (set_slot (\<lambda>i. i \<lparr> i_key := key, i_token := k, i_render := RStd \<rparr>))) incr)"

text \<open>
  The loop of \<open>validate_signers\<close>, over \<open>i as u8\<close>: does it stop at a transfer none of whose
  capabilities names the key?
\<close>

fun key_not_in_transfer :: "json \<Rightarrow> nat \<Rightarrow> nat \<Rightarrow> nat \<Rightarrow> nat list \<Rightarrow> bool" where
  "key_not_in_transfer j signer key_tok clist [] = False"
| "key_not_in_transfer j signer key_tok clist (i # is) =
     ((case get_nth j clist i of
         Inl _ \<Rightarrow> False
       | Inr cap \<Rightarrow> get_tx_name j cap = NameTxTransfer \<and>
                   \<not> is_ok (find_pubkey_in_clist j signer key_tok)) \<or>
      key_not_in_transfer j signer key_tok clist is)"

definition validate_signers :: "json \<Rightarrow> unit store" where
  "validate_signers j a =
     (case get_valid_clist_out j (arr_signer a) (i_token (slot a)) of
        (Inl _, c) \<Rightarrow> unscoped_signer KUnscopedSigner (set_slot (\<lambda>i. i \<lparr> i_token := c \<rparr>) a)
      | (Inr _, c) \<Rightarrow>
          (let a1 = set_slot (\<lambda>i. i \<lparr> i_token := c \<rparr>) a in
           case pe (get_count j c) of
             Inl e \<Rightarrow> (Inl e, a1)
           | Inr n \<Rightarrow>
               if key_not_in_transfer j (arr_signer a) (arr_key_tok a) c [0..<u8 n]
               then unscoped_signer KKeyNotInTransfer a1
               else (Inr (), set_slot (\<lambda>i. i \<lparr> i_token := 0 \<rparr>) a1)))"

section \<open>Capabilities\<close>

text \<open>\<open>store_args_items\<close>: one item per argument position.\<close>

fun store_args_from :: "json \<Rightarrow> nat \<Rightarrow> nat \<Rightarrow> (item_key \<times> item_render) list \<Rightarrow> unit store" where
  "store_args_from j args pos [] = ret ()"
| "store_args_from j args pos ((key, render) # ks) =
     thn (modifies (set_slot (\<lambda>i. i \<lparr> i_key := key \<rparr>)))
     (bnd (lookup_slot (array_get_nth_element j args pos)) (\<lambda>_.
      thn (modifies (set_slot (\<lambda>i. i \<lparr> i_render := render \<rparr>)))
      (thn incr (store_args_from j args (Suc pos) ks))))"

definition store_args_items :: "json \<Rightarrow> nat \<Rightarrow> (item_key \<times> item_render) list \<Rightarrow> unit store" where
  "store_args_items j args ks = store_args_from j args 0 ks"

text \<open>V16: a warning after a transfer to anything but a principal.\<close>

definition check_receiver :: "json \<Rightarrow> nat \<Rightarrow> unit store" where
  "check_receiver j args =
     bnd (lifts (pe (get_nth j args 1))) (\<lambda>to.
       only_if (\<not> is_principal (span j to)) (push KWarning RNotPrincipal))"

definition store_unknown_item :: "json \<Rightarrow> nat \<Rightarrow> nat \<Rightarrow> unit store" where
  "store_unknown_item j nargs args =
     thn (modifies (\<lambda>a. set_slot (\<lambda>i. i \<lparr> i_key := KArguments, i_render := RUnknown \<rparr>)
            (a \<lparr> num_unknown := u8 (num_unknown a + 1) \<rparr>)))
     (thn (modifies (\<lambda>a.
            if nargs > 5 \<or> int (tok_end (json_tok j args)) - int (tok_start (json_tok j args)) > 256
            then set_slot (\<lambda>i. i \<lparr> can_display := False \<rparr>) a else a))
      incr)"

text \<open>V20: a capability the review cannot verify.\<close>

definition has_namespace :: "json \<Rightarrow> nat \<Rightarrow> bool" where
  "has_namespace j cap =
     (case get_value j cap ''name'' of
        Inl _ \<Rightarrow> False
      | Inr name \<Rightarrow> fst (split_namespace (span j name)) \<noteq> None)"

definition store_unverified :: "json \<Rightarrow> nat \<Rightarrow> nat \<Rightarrow> nat \<Rightarrow> bool \<Rightarrow> unit store" where
  "store_unverified j cap nargs args warn =
     thn (only_if warn (push_at cap KWarning RCapNotVerified))
     (thn (push_at cap KCapability RCapName)
     (thn (only_if (has_namespace j cap) (push_at cap KNamespace RCapNamespace))
     (thn (set_token cap) (store_unknown_item j nargs args))))"

text \<open>The token of an item that is already stored, \<open>self.items[num - bk].token = t\<close>.\<close>

definition set_stored_token :: "nat \<Rightarrow> nat \<Rightarrow> unit store" where
  "set_stored_token bk t = modifies (\<lambda>a.
     a \<lparr> arr_items := (arr_items a)[arr_num a - bk :=
       (arr_items a ! (arr_num a - bk)) \<lparr> i_token := t \<rparr>] \<rparr>)"

definition store_tx_item :: "json \<Rightarrow> nat \<Rightarrow> unit store" where
  "store_tx_item j cap =
     bnd (lifts (pe (get_value j cap ''args''))) (\<lambda>args.
     bnd (lifts (pe (get_count j args))) (\<lambda>nargs.
       if nargs = 3 then
         bnd (lifts (check_amount j args)) (\<lambda>amt.
         thn (lifts (args_unescaped j args [0, 1]))
         (thn (push KTransfer RTransfer)
         (thn (store_args_items j args [(KFrom, RStd), (KTo, RStd), (KAmount, RAmount)])
         (thn (set_stored_token 1 amt)
              (check_receiver j args)))))
       else store_unverified j cap nargs args True))"

definition store_tx_cross_item :: "json \<Rightarrow> nat \<Rightarrow> unit store" where
  "store_tx_cross_item j cap =
     bnd (lifts (pe (get_value j cap ''args''))) (\<lambda>args.
     bnd (lifts (pe (get_count j args))) (\<lambda>nargs.
       if nargs = 4 then
         bnd (lifts (check_amount j args)) (\<lambda>amt.
         thn (lifts (args_unescaped j args [0, 1, 3]))
         (thn (push KTransfer RCrossTransfer)
         (thn (store_args_items j args
                 [(KFrom, RStd), (KTo, RStd), (KAmount, RAmount), (KToChain, RStd)])
         (thn (set_stored_token 2 amt)
              (check_receiver j args)))))
       else store_unverified j cap nargs args True))"

definition store_tx_rotate_item :: "json \<Rightarrow> nat \<Rightarrow> unit store" where
  "store_tx_rotate_item j cap =
     bnd (lifts (pe (get_value j cap ''args''))) (\<lambda>args.
     bnd (lifts (pe (get_count j args))) (\<lambda>nargs.
       if nargs = 1 then push KRotate RRotate
       else store_unverified j cap nargs args False))"

text \<open>The body of the loop of \<open>store_all_transfers\<close>.\<close>

definition store_capability :: "json \<Rightarrow> nat \<Rightarrow> unit store" where
  "store_capability j cap =
     (if tok_kind (json_tok j cap) \<noteq> Object then fails ItemUnexpectedCharacters
      else (case get_tx_name j cap of
              NameTxTransfer \<Rightarrow> thn (set_token cap) (store_tx_item j cap)
            | NameTxTransferXchain \<Rightarrow> thn (set_token cap) (store_tx_cross_item j cap)
            | NameRotate \<Rightarrow>
                thn (set_token cap)
                (thn (store_tx_rotate_item j cap) (push KWarning RRotateWarning))
            | NameGas \<Rightarrow> ret ()
            | _ \<Rightarrow>
                thn (set_token cap)
                (bnd (lifts (pe (get_value j cap ''args''))) (\<lambda>args.
                 bnd (lifts (pe (get_count j args))) (\<lambda>nargs.
                   store_unverified j cap nargs args True)))))"

fun store_capabilities :: "json \<Rightarrow> nat \<Rightarrow> nat list \<Rightarrow> unit store" where
  "store_capabilities j clist [] = ret ()"
| "store_capabilities j clist (i # is) =
     thn (case get_nth j clist i of Inl _ \<Rightarrow> ret () | Inr cap \<Rightarrow> store_capability j cap)
     (bnd (reads arr_num) (\<lambda>n.
       if n \<ge> MAX_ITEMS then fails TooManyItems else store_capabilities j clist is))"

definition store_all_transfers :: "json \<Rightarrow> unit store" where
  "store_all_transfers j =
     bnd (reads (\<lambda>a. (arr_signer a, arr_num a))) (\<lambda>(signer, curr).
       case get_valid_clist j signer of
         Inr (clist, n) \<Rightarrow> store_capabilities j clist [0..<n]
       | Inl _ \<Rightarrow>
           thn (push KWarning RWarning)
               (modifies (\<lambda>a. a \<lparr> arr_items := (arr_items a)[curr :=
                  (arr_items a ! curr) \<lparr> i_token := 0 \<rparr>] \<rparr>)))"

section \<open>Meta\<close>

definition store_chain_id :: "json \<Rightarrow> unit store" where
  "store_chain_id j =
     bnd (lookup_slot (object_get_value j 0 ''meta'')) (\<lambda>meta.
       only_if (\<not> is_null j meta)
         (bnd (lookup_slot (object_get_value j meta ''chainId'')) (\<lambda>t.
            only_if (\<not> is_null j t)
              (thn (lifts (shown_unescaped j t)) (push KOnChain RStd)))))"

definition store_using_gas :: "json \<Rightarrow> unit store" where
  "store_using_gas j =
     bnd (lookup_slot (object_get_value j 0 ''meta'')) (\<lambda>meta.
       if \<not> is_null j meta then push KUsingGas RGas else set_token 0)"

definition store_fee_and_payer :: "json \<Rightarrow> unit store" where
  "store_fee_and_payer j =
     bnd (lifts (pe (get_value j 0 ''meta''))) (\<lambda>meta.
       if is_null j meta then ret ()
       else thn (push_at meta KMaxFee RMaxFee)
         (case get_value j meta ''sender'' of
            Inl _ \<Rightarrow> ret ()
          | Inr sender \<Rightarrow>
              thn (lifts (shown_unescaped j sender)) (push_at sender KPayingAccount RStd)))"

text \<open>F-4: a \<open>meta\<close> that is not the primitive \<open>null\<close> is an object with a sender.\<close>

definition meta_has_sender :: "json \<Rightarrow> bool" where
  "meta_has_sender j =
     (case get_value j 0 ''meta'' of
        Inl _ \<Rightarrow> True
      | Inr meta \<Rightarrow>
          is_null j meta \<and> tok_kind (json_tok j meta) = Primitive \<or>
          tok_kind (json_tok j meta) = Object \<and> is_ok (get_value j meta ''sender''))"

definition check_tx_lengths :: "unit store" where
  "check_tx_lengths =
     bnd (reads (\<lambda>a. list_ex (\<lambda>i. \<not> can_display i) (take (arr_num a) (arr_items a)))) (\<lambda>b.
       only_if b (push KWarning RTxTooLarge))"

definition store_meta_items :: "json \<Rightarrow> unit store" where
  "store_meta_items j =
     (if \<not> is_ok (validate_meta_field j) then push KCaution RCaution
      else bnd (lifts (pe (get_value j 0 ''meta''))) (\<lambda>meta.
        thn (lifts (check_integer_meta j meta))
        (thn (store_chain_id j)
        (thn (store_using_gas j)
             (store_fee_and_payer j)))))"

definition store_tx_items :: "json \<Rightarrow> nat \<Rightarrow> nat \<Rightarrow> unit store" where
  "store_tx_items j signer nsigners =
     thn (modifies (\<lambda>a. a \<lparr> arr_signer := signer, arr_nsigners := nsigners \<rparr>))
     (thn (\<lambda>a. let (r, k) = object_get_value j signer ''pubKey'' (arr_key_tok a) in
            (pe r, a \<lparr> arr_key_tok := k \<rparr>))
     (thn (push KSigning RSigning)
     (thn (store_network j)
     (thn (only_if (nsigners > 1) (push KSigners RSigners))
     (thn (push KRequiring RRequiring)
     (thn store_key
     (thn (validate_signers j)
     (thn (store_all_transfers j)
     (if \<not> meta_has_sender j then fails ItemInvalidMetaField
      else thn (store_meta_items j) check_tx_lengths)))))))))"

section \<open>Expert mode and transaction hashes\<close>

fun store_cont_fields :: "json \<Rightarrow> nat \<Rightarrow> (item_key \<times> bytes) list \<Rightarrow> unit store" where
  "store_cont_fields j cont [] = ret ()"
| "store_cont_fields j cont ((key, field) # fs) =
     thn (case get_value j cont field of
            Inl _ \<Rightarrow> ret ()
          | Inr v \<Rightarrow>
              thn (lifts (if key = KPactId then shown_unescaped j v else plain_integer j v))
                  (push_at v key RStd))
         (store_cont_fields j cont fs)"

fun store_meta_fields :: "json \<Rightarrow> nat \<Rightarrow> (item_key \<times> bytes) list \<Rightarrow> unit store" where
  "store_meta_fields j meta [] = ret ()"
| "store_meta_fields j meta ((key, field) # fs) =
     thn (case get_value j meta field of
            Inl _ \<Rightarrow> ret ()
          | Inr v \<Rightarrow> push_at v key RStd)
         (store_meta_fields j meta fs)"

definition store_payload_kind :: "json \<Rightarrow> unit store" where
  "store_payload_kind j =
     (case get_value j 0 ''payload'' of
        Inl _ \<Rightarrow> ret ()
      | Inr payload \<Rightarrow>
          if is_ok (get_value j payload ''exec'') then push KPayload RExec
          else (case get_value j payload ''cont'' of
                  Inl _ \<Rightarrow> ret ()
                | Inr cont \<Rightarrow>
                    thn (push KPayload RCont)
                      (store_cont_fields j cont [(KPactId, ''pactId''), (KStep, ''step'')])))"

definition store_expert_meta :: "json \<Rightarrow> unit store" where
  "store_expert_meta j =
     thn (store_payload_kind j)
     (if \<not> is_ok (validate_meta_field j) then ret ()
      else bnd (lifts (pe (get_value j 0 ''meta''))) (\<lambda>meta.
        store_meta_fields j meta [(KCreated, ''creationTime''), (KTtl, ''ttl'')]))"

definition store_hash_items :: "unit store" where
  "store_hash_items = thn (push KWarning RHashWarning) (push KTransactionHash RHash)"

definition store_expert_items :: "unit store" where
  "store_expert_items = thn (push KTransactionHash RHash) (push KSignForAddress RSignForAddr)"

section \<open>Blind signing\<close>

definition blind_render :: "item_render \<Rightarrow> bool" where
  "blind_render r \<longleftrightarrow>
     r = RWarning \<or> r = RTxTooLarge \<or> r = RCaution \<or> r = RRotateWarning \<or> r = RCapNotVerified"

text \<open>V11, V14, V20: the review does not bound the signature.\<close>

definition needs_blind :: "item_array \<Rightarrow> bool" where
  "needs_blind a \<longleftrightarrow> list_ex (\<lambda>i. blind_render (i_render i)) (take (arr_num a) (arr_items a))"

end
