(* ===== verification/Render.thy ===== *)
theory Render
  imports Fee Items
begin

text \<open>
  Titles and values of the review items (\<open>title\<close>, \<open>render\<close> and \<open>render_unknown\<close> of
  \<open>items.rs\<close>), written into bounded buffers.
\<close>

section \<open>The bounded writer\<close>

definition VALUE_BUF :: nat where "VALUE_BUF = 300"
definition TITLE_BUF :: nat where "TITLE_BUF = 40"

text \<open>\<open>W::put\<close> over a buffer of \<open>cap\<close> bytes: the state is what has been written, \<open>out[..n]\<close>.\<close>

definition w_put :: "nat \<Rightarrow> bytes \<Rightarrow> bytes \<Rightarrow> bytes" where
  "w_put cap w b = w @ take (cap - length w) b"

text \<open>A sequence of \<open>put\<close>s on an empty writer.\<close>

definition w_puts :: "nat \<Rightarrow> bytes list \<Rightarrow> bytes" where
  "w_puts cap bs = foldl (w_put cap) [] bs"

text \<open>The bytes of \<open>W::put_u32\<close>: decimal, without leading zeros.\<close>

fun u32_digits :: "nat \<Rightarrow> bytes" where
  "u32_digits v = (if v < 10 then [digit_byte v] else u32_digits (v div 10) @ [digit_byte (v mod 10)])"

declare u32_digits.simps [simp del]

section \<open>Texts\<close>

definition WARNING_TEXT :: bytes where
  "WARNING_TEXT = ''UNSAFE TRANSACTION. This transaction's code was not recognized and does not limit capabilities for all signers. Signing this transaction may make arbitrary actions on the chain including loss of all funds.''"

definition HASH_WARNING_TEXT :: bytes where
  "HASH_WARNING_TEXT = ''Blind Signing a Transaction Hash is a very unusual operation. Do not continue unless you know what you are doing''"

definition CAUTION_TEXT :: bytes where
  "CAUTION_TEXT = CHR 0x27 # ''meta' field of transaction not recognized''"

definition ROTATE_WARNING_TEXT :: bytes where
  "ROTATE_WARNING_TEXT = ''Account rotation: new owner not shown''"

definition NOT_PRINCIPAL_TEXT :: bytes where
  "NOT_PRINCIPAL_TEXT = ''Recipient is not a principal account''"

definition CAP_NOT_VERIFIED_TEXT :: bytes where
  "CAP_NOT_VERIFIED_TEXT = ''Capability not verified''"

definition TX_TOO_LARGE_TEXT :: bytes where
  "TX_TOO_LARGE_TEXT = ''Transaction too large for Ledger to display.  PROCEED WITH GREAT CAUTION.  Do you want to continue?''"

lemmas text_defs = WARNING_TEXT_def HASH_WARNING_TEXT_def CAUTION_TEXT_def ROTATE_WARNING_TEXT_def
  NOT_PRINCIPAL_TEXT_def CAP_NOT_VERIFIED_TEXT_def TX_TOO_LARGE_TEXT_def

section \<open>Titles\<close>

fun key_text :: "item_key \<Rightarrow> bytes" where
  "key_text KSigning = ''Signing''"
| "key_text KOnNetwork = ''On Network''"
| "key_text KRequiring = ''Requiring''"
| "key_text KOfKey = ''Of Key''"
| "key_text KUnscopedSigner = ''Unscoped Signer''"
| "key_text KKeyNotInTransfer = ''Key not in transfer''"
| "key_text KPayload = ''Payload''"
| "key_text KPactId = ''Pact ID''"
| "key_text KStep = ''Step''"
| "key_text KWarning = ''WARNING''"
| "key_text KCaution = ''CAUTION''"
| "key_text KOnChain = ''On Chain''"
| "key_text KUsingGas = ''Using Gas''"
| "key_text KFrom = ''From''"
| "key_text KTo = ''To''"
| "key_text KAmount = ''Amount''"
| "key_text KToChain = ''To Chain''"
| "key_text KRotate = ''Rotate for account''"
| "key_text KTransactionHash = ''Transaction hash''"
| "key_text KSignForAddress = ''Sign for Address''"
| "key_text KSigners = ''Signers''"
| "key_text KMaxFee = ''Max fee''"
| "key_text KPayingAccount = ''Paying account''"
| "key_text KCreated = ''Created (unix time)''"
| "key_text KTtl = ''TTL (seconds)''"
| "key_text KTransfer = ''Transfer ''"
| "key_text KArguments = ''Arguments''"
| "key_text KCapability = ''Capability''"
| "key_text KNamespace = ''Namespace''"

text \<open>Transfers are numbered: \<open>items[1..=idx]\<close> counted, \<open>as u8\<close>.\<close>

definition title :: "item_array \<Rightarrow> nat \<Rightarrow> bytes" where
  "title a idx =
     (let k = i_key (arr_items a ! idx) in
      w_puts TITLE_BUF (key_text k #
        (if k = KTransfer then
           [u32_digits (u8 (length (filter (\<lambda>i. i_key i = KTransfer)
              (take idx (drop 1 (arr_items a))))))]
         else [])))"

section \<open>Values\<close>

text \<open>One argument of \<open>render_unknown\<close>, \<open>arg n: value\<close>, a string in quotes.\<close>

definition arg_pieces :: "json \<Rightarrow> nat \<Rightarrow> nat \<Rightarrow> bytes list" where
  "arg_pieces j n t =
     (let q = (if tok_kind (json_tok j t) = StringTok then [''\"''] else [])
      in [''arg '', u32_digits n, '': ''] @ q @ [span j t] @ q)"

text \<open>
  The loop over all arguments but the last: \<open>idx\<close> is the C code's length counter, \<open>w\<close> what has
  been written.
\<close>

fun unknown_args :: "json \<Rightarrow> nat \<Rightarrow> nat list \<Rightarrow> nat \<Rightarrow> bytes \<Rightarrow> items_error + (nat \<times> bytes)" where
  "unknown_args j args [] idx w = Inr (idx, w)"
| "unknown_args j args (i # is) idx w =
     rbind (pe (get_nth j args i)) (\<lambda>t.
       let n = tok_len (json_tok j t) +
             (if tok_kind (json_tok j t) = StringTok then 11 else 9)
       in if idx + n > VALUE_BUF then Inl DataTooLarge
          else unknown_args j args is (idx + n)
                 (foldl (w_put VALUE_BUF) w (arg_pieces j (i + 1) t @ ['', ''])))"

definition render_unknown :: "json \<Rightarrow> item \<Rightarrow> items_error + bytes" where
  "render_unknown j it =
     (if \<not> can_display it then Inr (w_puts VALUE_BUF [''args cannot be displayed on Ledger''])
      else rbind (pe (get_value j (i_token it) ''args'')) (\<lambda>args.
           rbind (pe (get_count j args)) (\<lambda>n.
             if n = 0 then Inr (w_puts VALUE_BUF [''no args''])
             else rbind (unknown_args j args [0..<u8 n - 1] 0 []) (\<lambda>(idx, w).
                  rbind (pe (get_nth j args (n - 1))) (\<lambda>t.
                    let len = tok_len (json_tok j t) +
                          (if tok_kind (json_tok j t) = StringTok then 10 else 8)
                    in if idx + len > VALUE_BUF then Inl DataTooLarge
                       else Inr (foldl (w_put VALUE_BUF) w (arg_pieces j n t)))))))"

text \<open>\<open>Render::CapName\<close> and \<open>Render::CapNamespace\<close>: shown whole or refused.\<close>

definition render_name_part :: "json \<Rightarrow> item \<Rightarrow> items_error + bytes" where
  "render_name_part j it =
     rbind (pe (get_value j (i_token it) ''name'')) (\<lambda>name.
       let (ns, rest) = split_namespace (span j name) in
       rbind (if i_render it = RCapName then Inr rest else ok_or ItemError ns) (\<lambda>txt.
         if txt = [] then Inl LengthZero
         else if length txt \<ge> VALUE_BUF then Inl DataTooLarge
         else Inr (w_puts VALUE_BUF [txt])))"

definition render_gas :: "json \<Rightarrow> item \<Rightarrow> items_error + bytes" where
  "render_gas j it =
     rbind (pe (get_value j (i_token it) ''gasLimit'')) (\<lambda>gl.
     rbind (pe (get_value j (i_token it) ''gasPrice'')) (\<lambda>gp.
       if tok_len (json_tok j gl) + tok_len (json_tok j gp) + 8 + 10 + 1 > VALUE_BUF
       then Inl DataTooLarge
       else Inr (w_puts VALUE_BUF [''at most '', span j gl, '' at price '', span j gp])))"

text \<open>The fee is written behind \<open>KDA\<close>, into \<open>out[4..299]\<close>.\<close>

definition render_max_fee :: "json \<Rightarrow> item \<Rightarrow> items_error + bytes" where
  "render_max_fee j it =
     rbind (pe (get_value j (i_token it) ''gasLimit'')) (\<lambda>gl.
     rbind (pe (get_value j (i_token it) ''gasPrice'')) (\<lambda>gp.
     rbind (ok_or DataTooLarge (max_fee (span j gl) (span j gp) (VALUE_BUF - 1 - 4))) (\<lambda>fee.
       Inr (w_put VALUE_BUF [] ''KDA '' @ fee))))"

definition render_rotate :: "json \<Rightarrow> item \<Rightarrow> items_error + bytes" where
  "render_rotate j it =
     rbind (pe (get_value j (i_token it) ''args'')) (\<lambda>args.
     rbind (pe (get_nth j args 0)) (\<lambda>t.
       if tok_len (json_tok j t) + 3 > VALUE_BUF then Inl DataTooLarge
       else Inr (w_puts VALUE_BUF [''\"'', span j t, ''\"''])))"

definition render_std :: "json \<Rightarrow> item \<Rightarrow> items_error + bytes" where
  "render_std j it =
     (let len = tok_len (json_tok j (i_token it)) in
      if len = 0 then Inl LengthZero
      else if len \<ge> VALUE_BUF then Inl DataTooLarge
      else Inr (w_puts VALUE_BUF [span j (i_token it)]))"

definition render_amount :: "json \<Rightarrow> item \<Rightarrow> items_error + bytes" where
  "render_amount j it =
     (let len = tok_len (json_tok j (i_token it)) in
      if len = 0 then Inl LengthZero
      else if len + 5 > VALUE_BUF then Inl DataTooLarge
      else Inr (w_puts VALUE_BUF [''KDA '', span j (i_token it)]))"

text \<open>\<open>b64\<close> is the 44-byte display hash, \<open>address\<close> the public key for the current path.\<close>

definition render :: "item_array \<Rightarrow> json \<Rightarrow> bytes \<Rightarrow> bytes option \<Rightarrow> nat \<Rightarrow> items_error + bytes" where
  "render a j b64 address idx =
     (let it = arr_items a ! idx; fixed = (\<lambda>t. Inr (w_puts VALUE_BUF [t])) in
      case i_render it of
        RNone \<Rightarrow> Inl ItemError
      | RStd \<Rightarrow> render_std j it
      | RWarning \<Rightarrow> fixed WARNING_TEXT
      | RHashWarning \<Rightarrow> fixed HASH_WARNING_TEXT
      | RCaution \<Rightarrow> fixed CAUTION_TEXT
      | RTxTooLarge \<Rightarrow> fixed TX_TOO_LARGE_TEXT
      | RSigning \<Rightarrow> fixed ''Transaction''
      | RRequiring \<Rightarrow> fixed ''Capabilities''
      | RTransfer \<Rightarrow> fixed ''Normal Transfer''
      | RCrossTransfer \<Rightarrow> fixed ''Cross-chain Transfer''
      | RAmount \<Rightarrow> render_amount j it
      | RRotate \<Rightarrow> render_rotate j it
      | RGas \<Rightarrow> render_gas j it
      | RHash \<Rightarrow> fixed (take 43 b64)
      | RSignForAddr \<Rightarrow> rbind (ok_or ItemError address) (\<lambda>pk. fixed (hex_lower pk))
      | RUnknown \<Rightarrow> render_unknown j it
      | RSigners \<Rightarrow> fixed (u32_digits (arr_nsigners a))
      | RRotateWarning \<Rightarrow> fixed ROTATE_WARNING_TEXT
      | RNotPrincipal \<Rightarrow> fixed NOT_PRINCIPAL_TEXT
      | RExec \<Rightarrow> fixed ''exec (code)''
      | RCont \<Rightarrow> fixed ''cont (continuation)''
      | RCapNotVerified \<Rightarrow> fixed CAP_NOT_VERIFIED_TEXT
      | RCapName \<Rightarrow> render_name_part j it
      | RCapNamespace \<Rightarrow> render_name_part j it
      | RMaxFee \<Rightarrow> render_max_fee j it)"

section \<open>What is rendered fits, and is shown whole\<close>

lemma w_put_fits: "length w + length b \<le> cap \<Longrightarrow> w_put cap w b = w @ b"
  by (simp add: w_put_def)

lemma foldl_w_put_fits:
  "length w + length (concat bs) \<le> cap \<Longrightarrow> foldl (w_put cap) w bs = w @ concat bs"
  by (induction bs arbitrary: w) (simp_all add: w_put_fits)

lemma w_puts_fits: "length (concat bs) \<le> cap \<Longrightarrow> w_puts cap bs = concat bs"
  by (simp add: w_puts_def foldl_w_put_fits)

lemma w_put_length: "length w \<le> cap \<Longrightarrow> length (w_put cap w b) \<le> cap"
  by (simp add: w_put_def)

lemma foldl_w_put_length: "length w \<le> cap \<Longrightarrow> length (foldl (w_put cap) w bs) \<le> cap"
  by (induction bs arbitrary: w) (simp_all add: w_put_length)

lemma w_puts_length: "length (w_puts cap bs) \<le> cap"
  by (simp add: w_puts_def foldl_w_put_length)

lemma length_u32_digits: "v < 10 ^ k \<Longrightarrow> 0 < k \<Longrightarrow> length (u32_digits v) \<le> k"
proof (induction k arbitrary: v)
  case (Suc k)
  show ?case
  proof (cases "v < 10")
    case False
    then have "0 < k" using Suc.prems by (cases k) simp_all
    moreover have "v div 10 < 10 ^ k" using Suc.prems by (simp add: div_less_iff_less_mult mult.commute)
    ultimately have "length (u32_digits (v div 10)) \<le> k" by (intro Suc.IH)
    then show ?thesis using False by (simp add: u32_digits.simps [of v])
  qed (simp add: u32_digits.simps [of v])
qed simp

text \<open>The token length and its span agree for the tokens of a document.\<close>

lemma length_span_le:
  assumes "json_wf j"
  shows "length (span j t) = tok_len (json_tok j t)"
proof (cases "t < json_n j")
  case True
  then have "span_ok (length (buf j)) (tokens j ! t)"
    using assms by (simp add: json_wf_def tokens_wf_def json_n_def list_all_length)
  then have ok: "tok_start (tokens j ! t) \<le> tok_end (tokens j ! t)" "tok_end (tokens j ! t) \<le> length (buf j)"
    by (simp_all add: span_ok_def)
  then have "tok_end (tokens j ! t) + 65536 - tok_start (tokens j ! t) =
      (tok_end (tokens j ! t) - tok_start (tokens j ! t)) + 65536" by simp
  then have "tok_len (tokens j ! t) = u16 ((tok_end (tokens j ! t) - tok_start (tokens j ! t)) + 65536)"
    by (simp only: tok_len_def)
  also have "\<dots> = tok_end (tokens j ! t) - tok_start (tokens j ! t)"
  proof (rule u16_wrap)
    have "length (buf j) < 65535" using assms by (simp add: json_wf_def UNSET_def)
    then show "tok_end (tokens j ! t) - tok_start (tokens j ! t) < 65536" using ok by linarith
  qed
  finally have "tok_len (tokens j ! t) = tok_end (tokens j ! t) - tok_start (tokens j ! t)" .
  then show ?thesis
    using True ok by (simp add: span_def token_span_def json_tok_def json_n_def)
next
  case False
  then show ?thesis
    by (simp add: span_def token_span_def json_tok_def json_n_def tok_len_def EMPTY_TOKEN_def u16_def)
qed

subsection \<open>The unbounded texts\<close>

text \<open>The arguments of an unverified capability, numbered from \<open>n\<close>.\<close>

fun args_text :: "json \<Rightarrow> nat \<Rightarrow> nat list \<Rightarrow> bytes" where
  "args_text j n [] = ''no args''"
| "args_text j n [t] = concat (arg_pieces j n t)"
| "args_text j n (t # u # ts) = concat (arg_pieces j n t) @ '', '' @ args_text j (Suc n) (u # ts)"

lemma arg_pieces_length:
  assumes "json_wf j" "n < 10"
  shows "length (concat (arg_pieces j n t)) =
    tok_len (json_tok j t) + (if tok_kind (json_tok j t) = StringTok then 9 else 7)"
  using assms length_span_le [OF assms(1), of t]
  by (simp add: arg_pieces_def Let_def u32_digits.simps [of n])

text \<open>The length counter of the C code is the length of what has been written.\<close>

lemma unknown_args_InrD:
  assumes wf: "json_wf j" and r: "unknown_args j args is (length w) w = Inr (idx, v)"
    and m: "map (get_nth j args) is = map Inr ts" and lt: "list_all (\<lambda>i. i < 9) is"
    and w: "length w \<le> VALUE_BUF"
  shows "idx = length v \<and> length v \<le> VALUE_BUF \<and>
    v = w @ concat (map (\<lambda>(i, t). concat (arg_pieces j (i + 1) t) @ '', '') (zip is ts))"
  using r m lt w
proof (induction "is" arbitrary: w ts)
  case (Cons i "is")
  then obtain t ts' where ts: "ts = t # ts'" "get_nth j args i = Inr t" "map (get_nth j args) is = map Inr ts'"
    by (cases ts) auto
  let ?p = "concat (arg_pieces j (i + 1) t) @ '', ''"
  have len: "length ?p = tok_len (json_tok j t) + (if tok_kind (json_tok j t) = StringTok then 11 else 9)"
    using arg_pieces_length [OF wf, of "i + 1" t] Cons.prems(3) by simp
  have n: "length w + length ?p \<le> VALUE_BUF"
    and r: "unknown_args j args is (length w + length ?p)
      (foldl (w_put VALUE_BUF) w (arg_pieces j (i + 1) t @ ['', ''])) = Inr (idx, v)"
    using Cons.prems(1) ts(2) unfolding len by (auto simp: Let_def not_less split: if_splits)
  have "foldl (w_put VALUE_BUF) w (arg_pieces j (i + 1) t @ ['', '']) = w @ ?p"
    using n by (subst foldl_w_put_fits) simp_all
  then have "unknown_args j args is (length (w @ ?p)) (w @ ?p) = Inr (idx, v)" using r by simp
  have "list_all (\<lambda>i. i < 9) is" "length (w @ ?p) \<le> VALUE_BUF" using Cons.prems(3) n by simp_all
  note ih = Cons.IH [OF \<open>unknown_args j args is (length (w @ ?p)) (w @ ?p) = Inr (idx, v)\<close> ts(3) this]
  have "idx = length v" "length v \<le> VALUE_BUF" "v = (w @ ?p) @
      concat (map (\<lambda>(i, t). concat (arg_pieces j (i + 1) t) @ '', '') (zip is ts'))"
    using ih by blast+
  then show ?case by (intro conjI) (assumption, assumption, simp add: ts(1))
qed simp

lemma args_text_zip:
  "ts \<noteq> [] \<Longrightarrow> args_text j n ts =
     concat (map (\<lambda>(i, t). concat (arg_pieces j (i + n) t) @ '', '') (zip [0..<length ts - 1] (butlast ts))) @
     concat (arg_pieces j (length ts - 1 + n) (last ts))"
proof (induction j n ts rule: args_text.induct)
  case (3 j n t u ts)
  have "zip [0..<length (t # u # ts) - 1] (butlast (t # u # ts)) =
      (0, t) # map (\<lambda>(i, x). (Suc i, x)) (zip [0..<length (u # ts) - 1] (butlast (u # ts)))"
    by (simp add: upt_conv_Cons map_Suc_upt [symmetric] zip_map1 del: upt_Suc)
  then show ?case using 3 by (simp add: comp_def split_def)
qed simp_all

lemma render_unknown_whole:
  assumes wf: "json_wf j" and r: "render_unknown j it = Inr v" and d: "can_display it"
    and a: "get_value j (i_token it) ''args'' = Inr args" "get_count j args = Inr n" "n \<le> 5"
  shows "v = args_text j 1 (array_elements j args) \<and> length v < VALUE_BUF"
proof (cases "n = 0")
  case True
  then have "array_elements j args = []" using doc.all_elems [OF wf a(2)] by simp
  then show ?thesis using r d a True by (auto simp: render_unknown_def w_puts_fits VALUE_BUF_def)
next
  case False
  let ?ts = "array_elements j args"
  have ts: "map (get_nth j args) [0..<n] = map Inr ?ts" "n = length ?ts"
    using doc.all_elems [OF wf a(2)] by blast+
  then have ne: "?ts \<noteq> []" using False by auto
  obtain k where k: "n = Suc k" using False by (cases n) auto
  have u: "u8 n - 1 = n - 1" using a(3) by simp
  have bl: "map (get_nth j args) [0..<n - 1] = map Inr (butlast ?ts)"
    using arg_cong [OF ts(1), of butlast] k by (simp add: map_butlast)
  have la: "get_nth j args (n - 1) = Inr (last ?ts)"
    using arg_cong [OF ts(1), of last] k ne by (simp add: last_map)
  let ?t = "last ?ts"
  from r d a False la obtain idx w where w: "unknown_args j args [0..<n - 1] (length ([]::bytes)) [] = Inr (idx, w)"
    and len: "\<not> idx + (tok_len (json_tok j ?t) + (if tok_kind (json_tok j ?t) = StringTok then 10 else 8)) > VALUE_BUF"
    and v: "v = foldl (w_put VALUE_BUF) w (arg_pieces j n ?t)"
    by (auto simp: render_unknown_def u rbind_Inr_iff Let_def split: if_splits)
  have wv: "idx = length w \<and> length w \<le> VALUE_BUF \<and>
    w = [] @ concat (map (\<lambda>(i, t). concat (arg_pieces j (i + 1) t) @ '', '') (zip [0..<n - 1] (butlast ?ts)))"
    by (rule unknown_args_InrD [OF wf w bl]) (use a(3) in \<open>auto simp: list_all_iff\<close>)
  have fit: "length w + length (concat (arg_pieces j n ?t)) < VALUE_BUF"
    using len wv arg_pieces_length [OF wf, of n ?t] a(3) by (auto split: if_splits)
  then have "v = w @ concat (arg_pieces j n ?t)"
    unfolding v by (intro foldl_w_put_fits) simp
  moreover have "args_text j 1 ?ts = w @ concat (arg_pieces j n ?t)"
    unfolding args_text_zip [OF ne] using wv by (simp add: ts(2) [symmetric] k)
  ultimately show ?thesis using fit by simp
qed

text \<open>The value of an item without any buffer.\<close>

definition whole_value :: "item_array \<Rightarrow> json \<Rightarrow> bytes \<Rightarrow> bytes option \<Rightarrow> item \<Rightarrow> items_error + bytes" where
  "whole_value a j b64 address it =
     (let s = (\<lambda>key. pe (get_value j (i_token it) key)) in
      case i_render it of
        RNone \<Rightarrow> Inl ItemError
      | RStd \<Rightarrow> Inr (span j (i_token it))
      | RWarning \<Rightarrow> Inr WARNING_TEXT
      | RHashWarning \<Rightarrow> Inr HASH_WARNING_TEXT
      | RCaution \<Rightarrow> Inr CAUTION_TEXT
      | RTxTooLarge \<Rightarrow> Inr TX_TOO_LARGE_TEXT
      | RSigning \<Rightarrow> Inr ''Transaction''
      | RRequiring \<Rightarrow> Inr ''Capabilities''
      | RTransfer \<Rightarrow> Inr ''Normal Transfer''
      | RCrossTransfer \<Rightarrow> Inr ''Cross-chain Transfer''
      | RAmount \<Rightarrow> Inr (''KDA '' @ span j (i_token it))
      | RRotate \<Rightarrow> rbind (s ''args'') (\<lambda>args. rbind (pe (get_nth j args 0)) (\<lambda>t.
          Inr (''\"'' @ span j t @ ''\"'')))
      | RGas \<Rightarrow> rbind (s ''gasLimit'') (\<lambda>gl. rbind (s ''gasPrice'') (\<lambda>gp.
          Inr (''at most '' @ span j gl @ '' at price '' @ span j gp)))
      | RHash \<Rightarrow> Inr (take 43 b64)
      | RSignForAddr \<Rightarrow> rbind (ok_or ItemError address) (\<lambda>pk. Inr (hex_lower pk))
      | RUnknown \<Rightarrow>
          if \<not> can_display it then Inr ''args cannot be displayed on Ledger''
          else rbind (s ''args'') (\<lambda>args. Inr (args_text j 1 (array_elements j args)))
      | RSigners \<Rightarrow> Inr (u32_digits (arr_nsigners a))
      | RRotateWarning \<Rightarrow> Inr ROTATE_WARNING_TEXT
      | RNotPrincipal \<Rightarrow> Inr NOT_PRINCIPAL_TEXT
      | RExec \<Rightarrow> Inr ''exec (code)''
      | RCont \<Rightarrow> Inr ''cont (continuation)''
      | RCapNotVerified \<Rightarrow> Inr CAP_NOT_VERIFIED_TEXT
      | RCapName \<Rightarrow> rbind (s ''name'') (\<lambda>n. Inr (snd (split_namespace (span j n))))
      | RCapNamespace \<Rightarrow> rbind (s ''name'') (\<lambda>n. ok_or ItemError (fst (split_namespace (span j n))))
      | RMaxFee \<Rightarrow> rbind (s ''gasLimit'') (\<lambda>gl. rbind (s ''gasPrice'') (\<lambda>gp.
          rbind (ok_or DataTooLarge (max_fee (span j gl) (span j gp) 295)) (\<lambda>fee. Inr (''KDA '' @ fee)))))"

text \<open>Unknown arguments that are displayed are few enough for one-digit numbers.\<close>

definition few_args :: "json \<Rightarrow> item \<Rightarrow> bool" where
  "few_args j it \<longleftrightarrow> i_render it = RUnknown \<and> can_display it \<longrightarrow>
     (\<exists>args n. get_value j (i_token it) ''args'' = Inr args \<and> get_count j args = Inr n \<and> n \<le> 5)"

lemma w_puts_whole: "length (concat bs) < VALUE_BUF \<Longrightarrow> w_puts VALUE_BUF bs = concat bs"
  by (rule w_puts_fits) simp

lemma render_fixed_whole:
  "length t < VALUE_BUF \<Longrightarrow> Inr (w_puts VALUE_BUF [t]) = Inr v \<Longrightarrow> v = t \<and> length v < VALUE_BUF"
  using w_puts_whole [of "[t]"] by auto

lemma max_fee_length: "max_fee l p cap = Some fee \<Longrightarrow> length fee \<le> cap"
  by (auto simp: max_fee_def Let_def split: option.splits if_splits)

lemma render_pieces_whole:
  assumes "json_wf j"
  shows "render_std j it = Inr v \<Longrightarrow> v = span j (i_token it) \<and> length v < VALUE_BUF \<and> v \<noteq> []"
    and "render_amount j it = Inr v \<Longrightarrow> v = ''KDA '' @ span j (i_token it) \<and> length v < VALUE_BUF"
    and "render_rotate j it = Inr v \<Longrightarrow> \<exists>args t. get_value j (i_token it) ''args'' = Inr args \<and>
      get_nth j args 0 = Inr t \<and> v = ''\"'' @ span j t @ ''\"'' \<and> length v < VALUE_BUF"
    and "render_gas j it = Inr v \<Longrightarrow> \<exists>gl gp. get_value j (i_token it) ''gasLimit'' = Inr gl \<and>
      get_value j (i_token it) ''gasPrice'' = Inr gp \<and>
      v = ''at most '' @ span j gl @ '' at price '' @ span j gp \<and> length v < VALUE_BUF"
    and "render_max_fee j it = Inr v \<Longrightarrow> \<exists>gl gp fee. get_value j (i_token it) ''gasLimit'' = Inr gl \<and>
      get_value j (i_token it) ''gasPrice'' = Inr gp \<and> max_fee (span j gl) (span j gp) 295 = Some fee \<and>
      v = ''KDA '' @ fee \<and> length v < VALUE_BUF"
    and "render_name_part j it = Inr v \<Longrightarrow> \<exists>n. get_value j (i_token it) ''name'' = Inr n \<and>
      (if i_render it = RCapName then v = snd (split_namespace (span j n))
       else fst (split_namespace (span j n)) = Some v) \<and> v \<noteq> [] \<and> length v < VALUE_BUF"
proof -
  note len = length_span_le [OF assms]
  show "render_std j it = Inr v \<Longrightarrow> v = span j (i_token it) \<and> length v < VALUE_BUF \<and> v \<noteq> []"
    using w_puts_whole [of "[span j (i_token it)]"] len [of "i_token it"]
    by (auto simp: render_std_def Let_def split: if_splits)
  show "render_amount j it = Inr v \<Longrightarrow> v = ''KDA '' @ span j (i_token it) \<and> length v < VALUE_BUF"
    by (auto simp: render_amount_def w_puts_whole len Let_def split: if_splits)
  show "render_rotate j it = Inr v \<Longrightarrow> \<exists>args t. get_value j (i_token it) ''args'' = Inr args \<and>
      get_nth j args 0 = Inr t \<and> v = ''\"'' @ span j t @ ''\"'' \<and> length v < VALUE_BUF"
    by (auto simp: render_rotate_def rbind_Inr_iff w_puts_whole len split: if_splits)
  show "render_gas j it = Inr v \<Longrightarrow> \<exists>gl gp. get_value j (i_token it) ''gasLimit'' = Inr gl \<and>
      get_value j (i_token it) ''gasPrice'' = Inr gp \<and>
      v = ''at most '' @ span j gl @ '' at price '' @ span j gp \<and> length v < VALUE_BUF"
    by (auto simp: render_gas_def rbind_Inr_iff w_puts_whole len split: if_splits)
  show "render_max_fee j it = Inr v \<Longrightarrow> \<exists>gl gp fee. get_value j (i_token it) ''gasLimit'' = Inr gl \<and>
      get_value j (i_token it) ''gasPrice'' = Inr gp \<and> max_fee (span j gl) (span j gp) 295 = Some fee \<and>
      v = ''KDA '' @ fee \<and> length v < VALUE_BUF"
    by (auto simp: render_max_fee_def rbind_Inr_iff w_put_def VALUE_BUF_def)
       (drule max_fee_length, simp)
  show "\<exists>n. get_value j (i_token it) ''name'' = Inr n \<and>
      (if i_render it = RCapName then v = snd (split_namespace (span j n))
       else fst (split_namespace (span j n)) = Some v) \<and> v \<noteq> [] \<and> length v < VALUE_BUF"
    if r: "render_name_part j it = Inr v"
  proof -
    from r obtain n where n: "get_value j (i_token it) ''name'' = Inr n"
      by (auto simp: render_name_part_def rbind_Inr_iff)
    obtain ns rest where sp: "split_namespace (span j n) = (ns, rest)" by fastforce
    show ?thesis using r n sp
      by (auto simp: render_name_part_def rbind_Inr_iff w_puts_whole not_le split: if_splits)
  qed
qed

lemma length_hex_pair_concat: "length pk = 32 \<Longrightarrow> length (hex_lower pk) < VALUE_BUF"
  by (simp add: length_hex_lower VALUE_BUF_def)

text \<open>The renderers that show one text.\<close>

definition fixed_value :: "item_array \<Rightarrow> bytes \<Rightarrow> item_render \<Rightarrow> bytes option" where
  "fixed_value a b64 r =
     (case r of
        RWarning \<Rightarrow> Some WARNING_TEXT
      | RHashWarning \<Rightarrow> Some HASH_WARNING_TEXT
      | RCaution \<Rightarrow> Some CAUTION_TEXT
      | RTxTooLarge \<Rightarrow> Some TX_TOO_LARGE_TEXT
      | RSigning \<Rightarrow> Some ''Transaction''
      | RRequiring \<Rightarrow> Some ''Capabilities''
      | RTransfer \<Rightarrow> Some ''Normal Transfer''
      | RCrossTransfer \<Rightarrow> Some ''Cross-chain Transfer''
      | RHash \<Rightarrow> Some (take 43 b64)
      | RSigners \<Rightarrow> Some (u32_digits (arr_nsigners a))
      | RRotateWarning \<Rightarrow> Some ROTATE_WARNING_TEXT
      | RNotPrincipal \<Rightarrow> Some NOT_PRINCIPAL_TEXT
      | RExec \<Rightarrow> Some ''exec (code)''
      | RCont \<Rightarrow> Some ''cont (continuation)''
      | RCapNotVerified \<Rightarrow> Some CAP_NOT_VERIFIED_TEXT
      | _ \<Rightarrow> None)"

lemma fixed_value_eq:
  assumes "fixed_value a b64 (i_render (arr_items a ! idx)) = Some t"
  shows "render a j b64 address idx = Inr (w_puts VALUE_BUF [t])"
    "whole_value a j b64 address (arr_items a ! idx) = Inr t"
  using assms
  by (cases "i_render (arr_items a ! idx)"; simp add: fixed_value_def render_def whole_value_def Let_def)+

lemma fixed_value_short:
  assumes "fixed_value a b64 r = Some t" "arr_nsigners a < 65536"
  shows "length t < VALUE_BUF"
proof (cases r)
  case RSigners
  then show ?thesis using assms length_u32_digits [of "arr_nsigners a" 5]
    by (simp add: fixed_value_def VALUE_BUF_def)
next
  case RHash
  then show ?thesis using assms by (auto simp: fixed_value_def VALUE_BUF_def)
qed (use assms(1) in \<open>auto simp: fixed_value_def text_defs VALUE_BUF_def\<close>)

lemma render_unknown_shown:
  assumes "json_wf j" "render_unknown j it = Inr v" "few_args j it" "i_render it = RUnknown"
  shows "whole_value a j b64 address it = Inr v \<and> length v < VALUE_BUF"
proof (cases "can_display it")
  case True
  then obtain args m where t: "get_value j (i_token it) ''args'' = Inr args" "get_count j args = Inr m" "m \<le> 5"
    using assms(3,4) by (auto simp: few_args_def)
  then show ?thesis using render_unknown_whole [OF assms(1,2) True t] assms(4) True by (auto simp: whole_value_def)
qed (use assms(2,4) in \<open>auto simp: render_unknown_def whole_value_def w_puts_fits VALUE_BUF_def\<close>)

lemma render_whole:
  assumes wf: "json_wf j" and r: "render a j b64 address idx = Inr v"
    and few: "few_args j (arr_items a ! idx)" and n: "arr_nsigners a < 65536"
    and pk: "\<And>pk. address = Some pk \<Longrightarrow> length pk = 32"
  shows "whole_value a j b64 address (arr_items a ! idx) = Inr v \<and> length v < VALUE_BUF"
proof (cases "fixed_value a b64 (i_render (arr_items a ! idx))")
  case (Some t)
  note short = fixed_value_short [OF Some n]
  have "Inr (w_puts VALUE_BUF [t]) = (Inr v :: items_error + bytes)"
    using r fixed_value_eq(1) [OF Some] by simp
  from render_fixed_whole [OF short this] show ?thesis using fixed_value_eq(2) [OF Some] by auto
next
  case None
  let ?it = "arr_items a ! idx"
  note pieces = render_pieces_whole [OF wf, of ?it v]
  show ?thesis
  proof (cases "i_render ?it")
    case RUnknown
    then show ?thesis using render_unknown_shown [OF wf _ few] r by (simp add: render_def Let_def)
  next
    case RSignForAddr
    then obtain p where p: "address = Some p" "Inr (w_puts VALUE_BUF [hex_lower p]) = Inr v"
      using r by (auto simp: render_def Let_def rbind_Inr_iff)
    then show ?thesis
      using render_fixed_whole [OF length_hex_pair_concat [OF pk [OF p(1)]] p(2)] RSignForAddr p(1)
      by (auto simp: whole_value_def)
  qed (use r None pieces in \<open>auto simp: render_def whole_value_def fixed_value_def\<close>)
qed

end
