(* ===== verification/Structured_Transfer.thy ===== *)
theory Structured_Transfer
  imports Errors Display
begin

text \<open>
  Structured transfer (\<open>transfer.rs\<close>): the 0x24 payload is a type byte and 12 length-prefixed
  fields; each field is checked against a length bound and a content allowlist, and the device
  writes the Pact command JSON itself.
\<close>

section \<open>Fields\<close>

definition TEMPLATE_BUF :: nat where "TEMPLATE_BUF = 1280"

definition RECIPIENT :: nat where "RECIPIENT = 0"
definition RECIPIENT_CHAIN :: nat where "RECIPIENT_CHAIN = 1"
definition NETWORK :: nat where "NETWORK = 2"
definition AMOUNT :: nat where "AMOUNT = 3"
definition NAMESPACE :: nat where "NAMESPACE = 4"
definition MODULE :: nat where "MODULE = 5"
definition GAS_PRICE :: nat where "GAS_PRICE = 6"
definition GAS_LIMIT :: nat where "GAS_LIMIT = 7"
definition CREATION_TIME :: nat where "CREATION_TIME = 8"
definition CHAIN_ID :: nat where "CHAIN_ID = 9"
definition NONCE :: nat where "NONCE = 10"
definition TTL :: nat where "TTL = 11"
definition FIELDS :: nat where "FIELDS = 12"

lemmas field_defs = RECIPIENT_def RECIPIENT_CHAIN_def NETWORK_def AMOUNT_def NAMESPACE_def
  MODULE_def GAS_PRICE_def GAS_LIMIT_def CREATION_TIME_def CHAIN_ID_def NONCE_def TTL_def

definition TX_TYPE_TRANSFER :: nat where "TX_TYPE_TRANSFER = 0"
definition TX_TYPE_TRANSFER_CREATE :: nat where "TX_TYPE_TRANSFER_CREATE = 1"
definition TX_TYPE_TRANSFER_CROSSCHAIN :: nat where "TX_TYPE_TRANSFER_CROSSCHAIN = 2"

lemmas tx_type_defs = TX_TYPE_TRANSFER_def TX_TYPE_TRANSFER_CREATE_def TX_TYPE_TRANSFER_CROSSCHAIN_def

definition max_len :: "nat \<Rightarrow> nat" where
  "max_len field =
     (if field = RECIPIENT then 64
      else if field = RECIPIENT_CHAIN then 2
      else if field = NETWORK then 20
      else if field = AMOUNT then 32
      else if field = NAMESPACE then 63
      else if field = MODULE then 32
      else if field = GAS_PRICE then 20
      else if field = GAS_LIMIT then 10
      else if field = CREATION_TIME then 12
      else if field = CHAIN_ID then 2
      else if field = NONCE then 32
      else 20)"

section \<open>The reader and the bounded writer\<close>

text \<open>\<open>Reader\<close>: the state is the unread rest \<open>buf[off..]\<close>.\<close>

definition reader_byte :: "bytes \<Rightarrow> parser_error + (byte \<times> bytes)" where
  "reader_byte r = (case r of [] \<Rightarrow> Inl UnexpectedBufferEnd | b # bs \<Rightarrow> Inr (b, bs))"

definition reader_bytes :: "nat \<Rightarrow> bytes \<Rightarrow> parser_error + (bytes \<times> bytes)" where
  "reader_bytes n r =
     (if length r < n then Inl UnexpectedBufferEnd else Inr (take n r, drop n r))"

text \<open>The field loop of \<open>build\<close>: \<open>k\<close> more fields.\<close>

fun read_fields :: "nat \<Rightarrow> bytes \<Rightarrow> parser_error + (bytes list \<times> bytes)" where
  "read_fields 0 r = Inr ([], r)"
| "read_fields (Suc k) r =
     rbind (reader_byte r) (\<lambda>(b, r1).
       let len = byte_val b in
       rbind (if len > 0 then reader_bytes len r1 else Inr ([], r1)) (\<lambda>(f, r2).
         rbind (read_fields k r2) (\<lambda>(fs, r3). Inr (f # fs, r3))))"

text \<open>\<open>Out::app\<close>: a short append fails the whole transfer. The state is \<open>buf[..pos]\<close>.\<close>

definition out_app :: "bytes \<Rightarrow> bytes \<Rightarrow> parser_error + bytes" where
  "out_app w data =
     (if TEMPLATE_BUF - length w < length data then Inl UnexpectedBufferEnd else Inr (w @ data))"

fun out_all :: "bytes \<Rightarrow> bytes list \<Rightarrow> parser_error + bytes" where
  "out_all w [] = Inr w"
| "out_all w (d # ds) = rbind (out_app w d) (\<lambda>w'. out_all w' ds)"

section \<open>The content allowlist\<close>

definition is_pact_ident :: "byte \<Rightarrow> bool" where
  "is_pact_ident b \<longleftrightarrow> is_ascii_alphanumeric b \<or> b \<in> set ''%#+-_&$@<>=?*!|/''"

text \<open>Consumes one or more ASCII digits; \<open>None\<close> if there is none.\<close>

definition digits_p :: "bytes \<Rightarrow> bytes option" where
  "digits_p v =
     (let n = length (takeWhile is_ascii_digit v) in if n > 0 then Some (drop n v) else None)"

definition is_decimal :: "bytes \<Rightarrow> bool" where
  "is_decimal v = (case digits_p v of
     None \<Rightarrow> False
   | Some rest \<Rightarrow>
       (case rest of
          [] \<Rightarrow> True
        | c # frac \<Rightarrow> c = CHR ''.'' \<and> digits_p frac = Some []))"

definition is_exp_char :: "byte \<Rightarrow> bool" where
  "is_exp_char b \<longleftrightarrow> b = CHR ''e'' \<or> b = CHR ''E''"

definition is_json_number :: "bytes \<Rightarrow> bool" where
  "is_json_number v =
     (if list_ex is_exp_char v then
        (let e = length (takeWhile (\<lambda>b. \<not> is_exp_char b) v);
             t = drop (Suc e) v;
             exp = (if t \<noteq> [] \<and> (hd t = CHR ''+'' \<or> hd t = CHR ''-'') then tl t else t)
         in is_decimal (take e v) \<and> digits_p exp = Some [])
      else is_decimal v)"

definition field_allowed :: "nat \<Rightarrow> bytes \<Rightarrow> nat \<Rightarrow> bool" where
  "field_allowed field value tx_type =
     (if field = RECIPIENT then
        list_all (\<lambda>b. is_ascii_digit b \<or> 97 \<le> byte_val b \<and> byte_val b \<le> 102) value
      else if field = RECIPIENT_CHAIN \<and> tx_type \<noteq> TX_TYPE_TRANSFER_CROSSCHAIN then
        list_all is_ascii_digit value
      else if field = RECIPIENT_CHAIN \<or> field = CHAIN_ID then digits_p value = Some []
      else if field = NETWORK then
        list_all (\<lambda>b. is_ascii_alphanumeric b \<or> b = CHR ''-'' \<or> b = CHR ''_'' \<or> b = CHR ''.'') value
      else if field = AMOUNT then is_decimal value \<and> CHR ''.'' \<in> set value
      else if field = GAS_LIMIT \<or> field = CREATION_TIME \<or> field = TTL then is_decimal value
      else if field = GAS_PRICE then is_json_number value
      else if field = NAMESPACE \<or> field = MODULE then list_all is_pact_ident value
      else list_all (\<lambda>b. 0x20 \<le> byte_val b \<and> byte_val b < 0x7F \<and> b \<noteq> CHR 0x22 \<and> b \<noteq> CHR 0x5C) value)"

section \<open>The template\<close>

text \<open>An escaped quote, \<open>\"\<close>, inside the Pact code of the template.\<close>

definition BQ :: bytes where
  "BQ = [CHR 0x5C, CHR 0x22]"

definition nsmod :: "bytes list \<Rightarrow> bytes list" where
  "nsmod f =
     (if f ! NAMESPACE \<noteq> [] \<and> f ! MODULE \<noteq> []
      then [f ! NAMESPACE, ''.'', f ! MODULE] else [''coin''])"

text \<open>The sequence of appended pieces of \<open>format\<close>.\<close>

definition format_pieces :: "bytes list \<Rightarrow> nat \<Rightarrow> bytes \<Rightarrow> bytes list" where
  \<open>format_pieces f tx_type addr =
     [''{"networkId":"'', f ! NETWORK, ''","payload":{"exec":{"data":''] @
     (if tx_type = TX_TYPE_TRANSFER then [''{}'']
      else [''{"ks":{"pred":"keys-all","keys":["'', f ! RECIPIENT, ''"]}}'']) @
     ['',"code":"(''] @
     nsmod f @
     [if tx_type = TX_TYPE_TRANSFER then ''.transfer''
      else if tx_type = TX_TYPE_TRANSFER_CREATE then ''.transfer-create''
      else ''.transfer-crosschain''] @
     ['' '' @ BQ @ ''k:'', addr, BQ @ '' '' @ BQ @ ''k:'', f ! RECIPIENT, BQ] @
     (if tx_type \<noteq> TX_TYPE_TRANSFER then ['' (read-keyset '' @ BQ @ ''ks'' @ BQ @ '')''] else []) @
     (if tx_type = TX_TYPE_TRANSFER_CROSSCHAIN
      then ['' '' @ BQ, f ! RECIPIENT_CHAIN, BQ] else []) @
     ['' '', f ! AMOUNT, '')"}},"signers":[{"pubKey":"'', addr,
      ''","clist":[{"args":["k:'', addr, ''","k:'', f ! RECIPIENT, ''",'', f ! AMOUNT] @
     (if tx_type = TX_TYPE_TRANSFER_CROSSCHAIN
      then ['',"'', f ! RECIPIENT_CHAIN, ''"''] else []) @
     [''],"name":"''] @
     nsmod f @
     [''.TRANSFER''] @
     (if tx_type = TX_TYPE_TRANSFER_CROSSCHAIN then [''_XCHAIN''] else []) @
     [''"},{"args":[],"name":"coin.GAS"}]}],"meta":{"creationTime":'', f ! CREATION_TIME,
      '',"ttl":'', f ! TTL, '',"gasLimit":'', f ! GAS_LIMIT, '',"chainId":"'', f ! CHAIN_ID,
      ''","gasPrice":'', f ! GAS_PRICE, '',"sender":"k:'', addr, ''"},"nonce":"'', f ! NONCE, ''"}'']\<close>

definition format_transfer :: "bytes list \<Rightarrow> nat \<Rightarrow> bytes \<Rightarrow> parser_error + bytes" where
  "format_transfer f tx_type addr = out_all [] (format_pieces f tx_type addr)"

text \<open>\<open>parser_validate_chunks\<close> and the allowlist loop of \<open>build\<close>.\<close>

definition lengths_ok :: "bytes list \<Rightarrow> bool" where
  "lengths_ok f \<longleftrightarrow> length (f ! RECIPIENT) = 64 \<and>
     list_all (\<lambda>i. length (f ! i) \<le> max_len i) [1..<FIELDS]"

definition contents_ok :: "bytes list \<Rightarrow> nat \<Rightarrow> bool" where
  "contents_ok f tx_type \<longleftrightarrow> list_all (\<lambda>i. field_allowed i (f ! i) tx_type) [0..<FIELDS]"

text \<open>\<open>build\<close>: \<open>address\<close> is the device public key for the current path.\<close>

definition transfer_build :: "bytes \<Rightarrow> bytes option \<Rightarrow> parser_error + bytes" where
  "transfer_build input address =
     rbind (reader_byte input) (\<lambda>(b, r1).
       let tx_type = byte_val b in
       if tx_type \<noteq> TX_TYPE_TRANSFER \<and> tx_type \<noteq> TX_TYPE_TRANSFER_CREATE \<and>
          tx_type \<noteq> TX_TYPE_TRANSFER_CROSSCHAIN
       then Inl UnexpectedValue
       else rbind (read_fields FIELDS r1) (\<lambda>(f, r2).
         if r2 \<noteq> [] then Inl UnexpectedUnparsedBytes
         else if \<not> lengths_ok f then Inl ValueOutOfRange
         else if \<not> contents_ok f tx_type then Inl UnexpectedCharacters
         else rbind (ok_or UnexpectedError address) (\<lambda>pk.
           format_transfer f tx_type (hex_lower pk))))"

section \<open>Reading fields inverts their encoding\<close>

definition encode_field :: "bytes \<Rightarrow> bytes" where
  "encode_field f = byte_of (length f) # f"

definition encode_fields :: "bytes list \<Rightarrow> bytes" where
  "encode_fields fs = concat (map encode_field fs)"

lemma encode_fields_simps [simp]:
  "encode_fields [] = []"
  "encode_fields (f # fs) = byte_of (length f) # f @ encode_fields fs"
  by (simp_all add: encode_fields_def encode_field_def)

lemma read_fields_encode:
  "list_all (\<lambda>f. length f < 256) fs \<Longrightarrow>
   read_fields (length fs) (encode_fields fs @ rest) = Inr (fs, rest)"
  by (induction fs) (auto simp: reader_byte_def reader_bytes_def Let_def)

lemma read_fields_InrD:
  "read_fields k r = Inr (fs, rest) \<Longrightarrow>
   length fs = k \<and> list_all (\<lambda>f. length f < 256) fs \<and> r = encode_fields fs @ rest"
proof (induction k arbitrary: r fs)
  case (Suc k)
  then obtain b r1 where r: "r = b # r1" by (cases r) (auto simp: reader_byte_def)
  let ?n = "byte_val b"
  from Suc.prems r obtain f r2 fs' where f: "f = take ?n r1" "r2 = drop ?n r1" "length r1 \<ge> ?n"
    and fs: "read_fields k r2 = Inr (fs', rest)" "fs = f # fs'"
    by (auto simp: reader_byte_def reader_bytes_def Let_def rbind_Inr_iff split: if_splits)
  from Suc.IH [OF fs(1)] have "r2 = encode_fields fs' @ rest" "length fs' = k"
    "list_all (\<lambda>f. length f < 256) fs'" by simp_all
  moreover have "length f = ?n" using f by simp
  moreover have "r1 = f @ r2" using f by simp
  ultimately show ?case using fs r by simp
qed simp

lemma read_fields_iff:
  "read_fields k r = Inr (fs, rest) \<longleftrightarrow>
     length fs = k \<and> list_all (\<lambda>f. length f < 256) fs \<and> r = encode_fields fs @ rest"
  using read_fields_InrD read_fields_encode by blast

section \<open>The bounded writer\<close>

lemma out_all_Inr_iff:
  "length w \<le> TEMPLATE_BUF \<Longrightarrow>
   out_all w ds = Inr t \<longleftrightarrow> t = w @ concat ds \<and> length t \<le> TEMPLATE_BUF"
proof (induction ds arbitrary: w)
  case (Cons d ds)
  then show ?case
    by (cases "TEMPLATE_BUF - length w < length d") (auto simp: out_app_def)
qed auto

lemma length_concat_sum: "length (concat xs) = sum_list (map length xs)"
  by (induction xs) auto

lemma upt_0_12: "[0..<12] = [0, 1, 2, 3, 4, 5, 6, 7, 8, 9, 10, 11::nat]"
  and upt_1_12: "[Suc 0..<12] = [1, 2, 3, 4, 5, 6, 7, 8, 9, 10, 11::nat]"
  by code_simp+

lemma list_all_upt12:
  "list_all P [0..<FIELDS] \<longleftrightarrow> P 0 \<and> P 1 \<and> P 2 \<and> P 3 \<and> P 4 \<and> P 5 \<and> P 6 \<and> P 7 \<and> P 8 \<and> P 9 \<and>
     P 10 \<and> P 11"
  unfolding FIELDS_def upt_0_12 by simp

lemma lengths_okD:
  "lengths_ok f \<Longrightarrow> length (f ! RECIPIENT) = 64 \<and> length (f ! RECIPIENT_CHAIN) \<le> 2 \<and>
     length (f ! NETWORK) \<le> 20 \<and> length (f ! AMOUNT) \<le> 32 \<and> length (f ! NAMESPACE) \<le> 63 \<and>
     length (f ! MODULE) \<le> 32 \<and> length (f ! GAS_PRICE) \<le> 20 \<and> length (f ! GAS_LIMIT) \<le> 10 \<and>
     length (f ! CREATION_TIME) \<le> 12 \<and> length (f ! CHAIN_ID) \<le> 2 \<and> length (f ! NONCE) \<le> 32 \<and>
     length (f ! TTL) \<le> 20"
  by (simp add: lengths_ok_def FIELDS_def upt_1_12 max_len_def field_defs)

text \<open>The largest template: a cross-chain transfer with every field at its bound.\<close>

lemma nsmod_length: "lengths_ok f \<Longrightarrow> sum_list (map length (nsmod f)) \<le> 96"
  using lengths_okD [of f] by (simp add: nsmod_def)

lemma template_length:
  assumes "lengths_ok f" "length addr = 64"
  shows "length (concat (format_pieces f ty addr)) \<le> 1191"
proof -
  note lengths_okD [OF assms(1)] nsmod_length [OF assms(1)]
  then show ?thesis
    unfolding length_concat_sum format_pieces_def by (simp add: assms(2) BQ_def)
qed

lemma format_transfer_ok:
  assumes "lengths_ok f" "length addr = 64"
  shows "format_transfer f ty addr = Inr (concat (format_pieces f ty addr))"
  using template_length [OF assms, of ty]
  by (simp add: format_transfer_def out_all_Inr_iff TEMPLATE_BUF_def)

section \<open>What the allowlist lets through\<close>

definition safe_byte :: "byte \<Rightarrow> bool" where
  "safe_byte b \<longleftrightarrow> 0x20 \<le> byte_val b \<and> byte_val b < 0x7F \<and> b \<noteq> CHR 0x22 \<and> b \<noteq> CHR 0x5C"

definition decimal_text :: "bytes \<Rightarrow> bool" where
  "decimal_text v \<longleftrightarrow> all_digits v \<or> (\<exists>a b. v = a @ CHR ''.'' # b \<and> all_digits a \<and> all_digits b)"

lemma digits_p_None_iff: "digits_p v = None \<longleftrightarrow> takeWhile is_ascii_digit v = []"
  by (simp add: digits_p_def Let_def)

lemma digits_p_eq:
  "digits_p v = (if takeWhile is_ascii_digit v = [] then None else Some (dropWhile is_ascii_digit v))"
  by (simp add: digits_p_def Let_def dropWhile_eq_drop)

lemma digits_p_all: "digits_p v = Some [] \<longleftrightarrow> all_digits v"
  by (cases v) (auto simp: digits_p_eq all_digits_def list_all_iff)

lemma takeWhile_digits: "list_all is_ascii_digit (takeWhile is_ascii_digit v)"
  by (simp add: list_all_iff) (meson set_takeWhileD)

lemma digits_p_Some_iff:
  "digits_p v = Some r \<longleftrightarrow>
     (\<exists>a. v = a @ r \<and> all_digits a \<and> (r = [] \<or> \<not> is_ascii_digit (hd r)))"
proof
  assume "digits_p v = Some r"
  then have "takeWhile is_ascii_digit v \<noteq> []" "r = dropWhile is_ascii_digit v"
    by (auto simp: digits_p_eq split: if_splits)
  then show "\<exists>a. v = a @ r \<and> all_digits a \<and> (r = [] \<or> \<not> is_ascii_digit (hd r))"
    using takeWhile_digits [of v] hd_dropWhile [of is_ascii_digit v]
    by (intro exI [of _ "takeWhile is_ascii_digit v"]) (auto simp: all_digits_def)
next
  assume "\<exists>a. v = a @ r \<and> all_digits a \<and> (r = [] \<or> \<not> is_ascii_digit (hd r))"
  then obtain a where a: "v = a @ r" "all_digits a" "r = [] \<or> \<not> is_ascii_digit (hd r)" by blast
  then have "takeWhile is_ascii_digit v = a" "dropWhile is_ascii_digit v = r"
    by (cases r; auto simp: all_digits_def list_all_iff takeWhile_append dropWhile_append)+
  then show "digits_p v = Some r" using a by (simp add: digits_p_eq all_digits_def)
qed

lemma is_decimal_iff: "is_decimal v \<longleftrightarrow> decimal_text v"
proof
  assume "is_decimal v"
  then obtain r where r: "digits_p v = Some r"
    and c: "r = [] \<or> (\<exists>b. r = CHR ''.'' # b \<and> digits_p b = Some [])"
    by (auto simp: is_decimal_def split: option.splits list.splits)
  from r obtain a where "v = a @ r" "all_digits a" by (auto simp: digits_p_Some_iff)
  with c show "decimal_text v" by (auto simp: decimal_text_def digits_p_all)
next
  assume "decimal_text v"
  then consider "all_digits v"
    | a b where "v = a @ CHR ''.'' # b" "all_digits a" "all_digits b"
    by (auto simp: decimal_text_def)
  then show "is_decimal v"
  proof cases
    case 1
    then have "digits_p v = Some []" by (simp add: digits_p_all)
    then show ?thesis by (simp add: is_decimal_def)
  next
    case 2
    then have "digits_p v = Some (CHR ''.'' # b)" by (auto simp: digits_p_Some_iff)
    then show ?thesis using 2 by (simp add: is_decimal_def digits_p_all)
  qed
qed

lemma digit_safe: "is_ascii_digit b \<Longrightarrow> safe_byte b"
  by (auto simp: is_ascii_digit_def safe_byte_def)

lemma alnum_safe: "is_ascii_alphanumeric b \<Longrightarrow> safe_byte b"
  by (auto simp: is_ascii_alphanumeric_def is_ascii_digit_def is_ascii_alphabetic_def safe_byte_def)

lemma ident_safe: "is_pact_ident b \<Longrightarrow> safe_byte b"
proof -
  have "list_all safe_byte ''%#+-_&$@<>=?*!|/''" by code_simp
  then show "is_pact_ident b \<Longrightarrow> safe_byte b"
    by (auto simp: is_pact_ident_def list_all_iff dest: alnum_safe)
qed

lemma punct_safe: "safe_byte (CHR ''.'')" "safe_byte (CHR ''-'')" "safe_byte (CHR ''_'')"
  "safe_byte (CHR ''+'')" "safe_byte (CHR ''e'')" "safe_byte (CHR ''E'')"
  by code_simp+

lemma all_digits_safe: "all_digits v \<Longrightarrow> list_all safe_byte v"
  by (auto simp: all_digits_def list_all_iff digit_safe)

lemma decimal_safe: "is_decimal v \<Longrightarrow> list_all safe_byte v"
  by (auto simp: is_decimal_iff decimal_text_def all_digits_safe punct_safe)

lemma is_json_number_exp:
  assumes "is_exp_char x" "\<forall>y \<in> set a. \<not> is_exp_char y"
  shows "is_json_number (a @ x # t) \<longleftrightarrow> is_decimal a \<and>
    digits_p (if t \<noteq> [] \<and> (hd t = CHR ''+'' \<or> hd t = CHR ''-'') then tl t else t) = Some []"
proof -
  have "takeWhile (\<lambda>b. \<not> is_exp_char b) (a @ x # t) = a"
    using assms by (simp add: takeWhile_append)
  moreover have "drop (Suc (length a)) (a @ x # t) = t" by simp
  ultimately show ?thesis using assms(1) by (simp only: is_json_number_def Let_def) simp
qed

lemma json_number_safe:
  assumes "is_json_number v"
  shows "list_all safe_byte v"
proof (cases "list_ex is_exp_char v")
  case True
  then obtain a x t where v: "v = a @ x # t" "is_exp_char x" "\<forall>y \<in> set a. \<not> is_exp_char y"
    by (auto simp: list_ex_iff dest!: split_list_first_prop)
  with assms have "is_decimal a"
    and "digits_p (if t \<noteq> [] \<and> (hd t = CHR ''+'' \<or> hd t = CHR ''-'') then tl t else t) = Some []"
    using is_json_number_exp by simp_all
  moreover from this(2) have "list_all safe_byte t"
    by (cases t) (auto simp: digits_p_all punct_safe dest: all_digits_safe split: if_splits)
  moreover have "safe_byte x" using v(2) by (auto simp: is_exp_char_def punct_safe)
  ultimately show ?thesis using v(1) decimal_safe by simp
next
  case False
  then show ?thesis using assms by (simp add: is_json_number_def decimal_safe)
qed

lemma hex_safe: "97 \<le> byte_val b \<Longrightarrow> byte_val b \<le> 102 \<Longrightarrow> safe_byte b"
  by (auto simp: safe_byte_def)

lemma free_safe:
  "0x20 \<le> byte_val b \<Longrightarrow> byte_val b < 0x7F \<Longrightarrow> b \<noteq> CHR 0x22 \<Longrightarrow> b \<noteq> CHR 0x5C \<Longrightarrow> safe_byte b"
  by (simp add: safe_byte_def)

lemma field_allowed_safe:
  assumes "field_allowed i v ty"
  shows "list_all safe_byte v"
proof -
  from assms consider
      "list_all (\<lambda>b. is_ascii_digit b \<or> 97 \<le> byte_val b \<and> byte_val b \<le> 102) v"
    | "list_all is_ascii_digit v" | "all_digits v" | "is_decimal v" | "is_json_number v"
    | "list_all (\<lambda>b. is_ascii_alphanumeric b \<or> b = CHR ''-'' \<or> b = CHR ''_'' \<or> b = CHR ''.'') v"
    | "list_all is_pact_ident v"
    | "list_all (\<lambda>b. 0x20 \<le> byte_val b \<and> byte_val b < 0x7F \<and> b \<noteq> CHR 0x22 \<and> b \<noteq> CHR 0x5C) v"
    unfolding field_allowed_def digits_p_all by (simp only: split: if_splits)
  then show ?thesis
  proof cases
    case 1 then show ?thesis unfolding list_all_iff using digit_safe hex_safe by blast
  next
    case 2 then show ?thesis unfolding list_all_iff using digit_safe by blast
  next
    case 3 then show ?thesis by (rule all_digits_safe)
  next
    case 4 then show ?thesis by (rule decimal_safe)
  next
    case 5 then show ?thesis by (rule json_number_safe)
  next
    case 6 then show ?thesis unfolding list_all_iff using alnum_safe punct_safe by blast
  next
    case 7 then show ?thesis unfolding list_all_iff using ident_safe by blast
  next
    case 8 then show ?thesis unfolding list_all_iff using free_safe by blast
  qed
qed

section \<open>The accepted payloads\<close>

text \<open>Everything \<open>build\<close> asks of a payload, as one predicate on the type and the fields.\<close>

definition transfer_fields_ok :: "nat \<Rightarrow> bytes list \<Rightarrow> bool" where
  "transfer_fields_ok ty f \<longleftrightarrow> ty \<le> 2 \<and> length f = FIELDS \<and> lengths_ok f \<and> contents_ok f ty"

lemma lengths_ok_short:
  assumes "length f = FIELDS" "lengths_ok f"
  shows "list_all (\<lambda>x. length x \<le> 64) f"
proof -
  have "\<forall>i \<in> set [0..<FIELDS]. length (f ! i) \<le> 64"
    unfolding list_all_iff [symmetric] list_all_upt12
    using lengths_okD [OF assms(2), unfolded field_defs] by simp
  then show ?thesis using assms(1) by (simp add: list_all_length)
qed

lemma hex_lower_64: "length pk = 32 \<Longrightarrow> length (hex_lower pk) = 64"
  by (simp add: length_hex_lower)

lemma tx_type_le: "ty \<noteq> TX_TYPE_TRANSFER \<and> ty \<noteq> TX_TYPE_TRANSFER_CREATE \<and>
    ty \<noteq> TX_TYPE_TRANSFER_CROSSCHAIN \<longleftrightarrow> \<not> ty \<le> 2"
  by (auto simp: tx_type_defs)

lemma transfer_build_iff:
  assumes "\<And>pk. address = Some pk \<Longrightarrow> length pk = 32"
  shows "transfer_build input address = Inr t \<longleftrightarrow>
    (\<exists>ty f pk. transfer_fields_ok ty f \<and> input = byte_of ty # encode_fields f \<and> address = Some pk \<and>
       t = concat (format_pieces f ty (hex_lower pk)))" (is "?L \<longleftrightarrow> ?R")
proof
  assume ?L
  then obtain b r1 where i: "input = b # r1" by (cases input) (auto simp: transfer_build_def reader_byte_def)
  with \<open>?L\<close> obtain f pk where f: "byte_val b \<le> 2" "read_fields FIELDS r1 = Inr (f, [])" "lengths_ok f"
    "contents_ok f (byte_val b)" "address = Some pk"
    and t: "format_transfer f (byte_val b) (hex_lower pk) = Inr t"
    by (auto simp: transfer_build_def reader_byte_def Let_def tx_type_le rbind_Inr_iff split: if_splits)
  have "t = concat (format_pieces f (byte_val b) (hex_lower pk))"
    using t format_transfer_ok [OF f(3) hex_lower_64 [OF assms [OF f(5)]]] by simp
  then show ?R using f i
    by (intro exI [of _ "byte_val b"] exI [of _ f] exI [of _ pk])
       (simp add: read_fields_iff transfer_fields_ok_def)
next
  assume ?R
  then obtain ty f pk where f: "ty \<le> 2" "length f = FIELDS" "lengths_ok f" "contents_ok f ty"
    "input = byte_of ty # encode_fields f" "address = Some pk"
    "t = concat (format_pieces f ty (hex_lower pk))"
    by (auto simp: transfer_fields_ok_def)
  have short: "list_all (\<lambda>x. length x < 256) f"
    using lengths_ok_short [OF f(2,3)] by (auto simp: list_all_iff)
  have "read_fields FIELDS (encode_fields f) = Inr (f, [])"
    using short f(2) by (simp add: read_fields_iff)
  moreover have "byte_val (byte_of ty) = ty" using f(1) by simp
  ultimately show ?L
    using f format_transfer_ok [OF f(3) hex_lower_64 [OF assms [OF f(6)]]]
    by (simp add: transfer_build_def reader_byte_def Let_def tx_type_le)
qed

lemma encode_fields_length:
  "list_all (\<lambda>x. length x \<le> n) f \<Longrightarrow> length (encode_fields f) \<le> (n + 1) * length f"
  by (induction f) auto

end
