(* ===== verification/Items_Spec.thy ===== *)
theory Items_Spec
  imports Items
begin

text \<open>
  What the review shows, without the slot array: each store operation has a pure specification,
  the list of entries it adds or the error it ends with, and the array operation refines it.
\<close>

section \<open>Entries\<close>

text \<open>Key, renderer, the token the renderer reads (\<open>None\<close>: it reads none), displayable.\<close>

type_synonym entry = "item_key \<times> item_render \<times> nat option \<times> bool"

type_synonym review = "items_error + entry list"

fun item_shows :: "item \<Rightarrow> entry \<Rightarrow> bool" where
  "item_shows i (k, r, t, d) \<longleftrightarrow> i_key i = k \<and> i_render i = r \<and> can_display i = d \<and>
     (case t of None \<Rightarrow> True | Some x \<Rightarrow> i_token i = x)"

definition blind_entry :: "entry \<Rightarrow> bool" where
  "blind_entry e = (case e of (k, r, t, d) \<Rightarrow> blind_render r)"

definition hidden_entry :: "entry \<Rightarrow> bool" where
  "hidden_entry e = (case e of (k, r, t, d) \<Rightarrow> \<not> d)"

definition cat :: "review \<Rightarrow> review \<Rightarrow> review" where
  "cat s1 s2 = rbind s1 (\<lambda>xs. rbind s2 (\<lambda>ys. Inr (xs @ ys)))"

lemma cat_simps [simp]:
  "cat (Inl e) s = Inl e" "cat (Inr xs) (Inl e) = Inl e" "cat (Inr xs) (Inr ys) = Inr (xs @ ys)"
  "cat (Inr []) s = s"
  by (auto simp: cat_def) (cases s; simp)

lemma cat_Inr_iff: "cat s1 s2 = Inr zs \<longleftrightarrow> (\<exists>xs ys. s1 = Inr xs \<and> s2 = Inr ys \<and> zs = xs @ ys)"
  by (auto simp: cat_def rbind_Inr_iff)

section \<open>The specification\<close>

definition plain_entry :: "item_key \<Rightarrow> item_render \<Rightarrow> entry" where
  "plain_entry k r = (k, r, None, True)"

definition tok_entry :: "item_key \<Rightarrow> item_render \<Rightarrow> nat \<Rightarrow> entry" where
  "tok_entry k r t = (k, r, Some t, True)"

definition network_review :: "json \<Rightarrow> review" where
  "network_review j =
     rbind (pe (get_value j 0 ''networkId'')) (\<lambda>t.
       if is_null j t then Inr []
       else rbind (shown_unescaped j t) (\<lambda>_. Inr [tok_entry KOnNetwork RStd t]))"

definition signer_review :: "json \<Rightarrow> nat \<Rightarrow> nat \<Rightarrow> review" where
  "signer_review j signer key =
     (case get_valid_clist j signer of
        Inl _ \<Rightarrow> Inr [tok_entry KUnscopedSigner RStd key]
      | Inr (clist, n) \<Rightarrow>
          Inr (if key_not_in_transfer j signer key clist [0..<u8 n]
               then [tok_entry KKeyNotInTransfer RStd key] else []))"

text \<open>An argument list that is not shown in full (\<open>can_display\<close> is false).\<close>

definition args_too_large :: "json \<Rightarrow> nat \<Rightarrow> nat \<Rightarrow> bool" where
  "args_too_large j nargs args \<longleftrightarrow>
     nargs > 5 \<or> int (tok_end (json_tok j args)) - int (tok_start (json_tok j args)) > 256"

definition unverified_review :: "json \<Rightarrow> nat \<Rightarrow> nat \<Rightarrow> nat \<Rightarrow> bool \<Rightarrow> entry list" where
  "unverified_review j cap nargs args warn =
     (if warn then [tok_entry KWarning RCapNotVerified cap] else []) @
     [tok_entry KCapability RCapName cap] @
     (if has_namespace j cap then [tok_entry KNamespace RCapNamespace cap] else []) @
     [(KArguments, RUnknown, Some cap, \<not> args_too_large j nargs args)]"

definition receiver_review :: "json \<Rightarrow> nat \<Rightarrow> review" where
  "receiver_review j args =
     rbind (pe (get_nth j args 1)) (\<lambda>to.
       Inr (if \<not> is_principal (span j to) then [plain_entry KWarning RNotPrincipal] else []))"

text \<open>A transfer: kind, sender, receiver, amount, then the receiver warning.\<close>

definition transfer_review :: "json \<Rightarrow> nat \<Rightarrow> review" where
  "transfer_review j args =
     rbind (check_amount j args) (\<lambda>amt.
     rbind (args_unescaped j args [0, 1]) (\<lambda>_.
     rbind (pe (get_nth j args 0)) (\<lambda>from.
     rbind (pe (get_nth j args 1)) (\<lambda>to.
     rbind (pe (get_nth j args 2)) (\<lambda>_.
       cat (Inr [plain_entry KTransfer RTransfer, tok_entry KFrom RStd from,
                 tok_entry KTo RStd to, tok_entry KAmount RAmount amt])
           (receiver_review j args))))))"

definition cross_review :: "json \<Rightarrow> nat \<Rightarrow> review" where
  "cross_review j args =
     rbind (check_amount j args) (\<lambda>amt.
     rbind (args_unescaped j args [0, 1, 3]) (\<lambda>_.
     rbind (pe (get_nth j args 0)) (\<lambda>from.
     rbind (pe (get_nth j args 1)) (\<lambda>to.
     rbind (pe (get_nth j args 2)) (\<lambda>_.
     rbind (pe (get_nth j args 3)) (\<lambda>chain.
       cat (Inr [plain_entry KTransfer RCrossTransfer, tok_entry KFrom RStd from,
                 tok_entry KTo RStd to, tok_entry KAmount RAmount amt,
                 tok_entry KToChain RStd chain])
           (receiver_review j args)))))))"

definition cap_review :: "json \<Rightarrow> nat \<Rightarrow> review" where
  "cap_review j cap =
     (if tok_kind (json_tok j cap) \<noteq> Object then Inl ItemUnexpectedCharacters
      else if get_tx_name j cap = NameGas then Inr []
      else rbind (pe (get_value j cap ''args'')) (\<lambda>args.
           rbind (pe (get_count j args)) (\<lambda>nargs.
             case get_tx_name j cap of
               NameTxTransfer \<Rightarrow>
                 if nargs = 3 then transfer_review j args
                 else Inr (unverified_review j cap nargs args True)
             | NameTxTransferXchain \<Rightarrow>
                 if nargs = 4 then cross_review j args
                 else Inr (unverified_review j cap nargs args True)
             | NameRotate \<Rightarrow>
                 Inr ((if nargs = 1 then [tok_entry KRotate RRotate cap]
                       else unverified_review j cap nargs args False) @
                      [plain_entry KWarning RRotateWarning])
             | _ \<Rightarrow> Inr (unverified_review j cap nargs args True))))"

fun caps_review :: "json \<Rightarrow> nat \<Rightarrow> nat list \<Rightarrow> review" where
  "caps_review j clist [] = Inr []"
| "caps_review j clist (i # is) =
     cat (case get_nth j clist i of Inl _ \<Rightarrow> Inr [] | Inr cap \<Rightarrow> cap_review j cap)
         (caps_review j clist is)"

definition transfers_review :: "json \<Rightarrow> nat \<Rightarrow> review" where
  "transfers_review j signer =
     (case get_valid_clist j signer of
        Inr (clist, n) \<Rightarrow> caps_review j clist [0..<n]
      | Inl _ \<Rightarrow> Inr [plain_entry KWarning RWarning])"

definition chain_review :: "json \<Rightarrow> review" where
  "chain_review j =
     rbind (pe (get_value j 0 ''meta'')) (\<lambda>meta.
       if is_null j meta then Inr []
       else rbind (pe (get_value j meta ''chainId'')) (\<lambda>t.
         if is_null j t then Inr []
         else rbind (shown_unescaped j t) (\<lambda>_. Inr [tok_entry KOnChain RStd t])))"

definition gas_review :: "json \<Rightarrow> review" where
  "gas_review j =
     rbind (pe (get_value j 0 ''meta'')) (\<lambda>meta.
       Inr (if \<not> is_null j meta then [tok_entry KUsingGas RGas meta] else []))"

definition fee_review :: "json \<Rightarrow> review" where
  "fee_review j =
     rbind (pe (get_value j 0 ''meta'')) (\<lambda>meta.
       if is_null j meta then Inr []
       else cat (Inr [tok_entry KMaxFee RMaxFee meta])
         (case get_value j meta ''sender'' of
            Inl _ \<Rightarrow> Inr []
          | Inr sender \<Rightarrow>
              rbind (shown_unescaped j sender) (\<lambda>_. Inr [tok_entry KPayingAccount RStd sender])))"

definition meta_review :: "json \<Rightarrow> review" where
  "meta_review j =
     (if \<not> is_ok (validate_meta_field j) then Inr [plain_entry KCaution RCaution]
      else rbind (pe (get_value j 0 ''meta'')) (\<lambda>meta.
           rbind (check_integer_meta j meta) (\<lambda>_.
             cat (chain_review j) (cat (gas_review j) (fee_review j)))))"

text \<open>The whole review of a JSON transaction, before the size warning.\<close>

definition body_review :: "json \<Rightarrow> nat \<Rightarrow> nat \<Rightarrow> review" where
  "body_review j signer nsigners =
     rbind (pe (get_value j signer ''pubKey'')) (\<lambda>key.
       cat (Inr [plain_entry KSigning RSigning])
       (cat (network_review j)
       (cat (Inr (if nsigners > 1 then [plain_entry KSigners RSigners] else []))
       (cat (Inr [plain_entry KRequiring RRequiring])
       (cat (Inr [tok_entry KOfKey RStd key])
       (cat (signer_review j signer key)
       (cat (transfers_review j signer)
       (if meta_has_sender j then meta_review j else Inl ItemInvalidMetaField))))))))"

definition tx_review :: "json \<Rightarrow> nat \<Rightarrow> nat \<Rightarrow> review" where
  "tx_review j signer nsigners =
     rbind (body_review j signer nsigners) (\<lambda>es.
       Inr (es @ (if list_ex hidden_entry es then [plain_entry KWarning RTxTooLarge] else [])))"

section \<open>Refinement\<close>

definition shown :: "item_array \<Rightarrow> item list" where
  "shown a = take (arr_num a) (arr_items a)"

text \<open>
  The array between two store operations: a free slot at \<open>num\<close> (its token may be left over from a
  lookup), untouched slots above it.
\<close>

definition array_ok :: "item_array \<Rightarrow> bool" where
  "array_ok a \<longleftrightarrow> length (arr_items a) = MAX_ITEMS \<and> arr_num a < MAX_ITEMS \<and> can_display (slot a) \<and>
     drop (Suc (arr_num a)) (arr_items a) = replicate (MAX_ITEMS - Suc (arr_num a)) ITEM_INIT"

definition grows :: "item_array \<Rightarrow> entry list \<Rightarrow> item_array \<Rightarrow> bool" where
  "grows a es a' \<longleftrightarrow> array_ok a' \<and>
     (\<exists>xs. shown a' = shown a @ xs \<and> list_all2 item_shows xs es) \<and>
     arr_signer a' = arr_signer a \<and> arr_key_tok a' = arr_key_tok a \<and>
     arr_nsigners a' = arr_nsigners a"

text \<open>
  A run of \<open>m\<close> from \<open>a\<close> either succeeds with exactly the entries of \<open>s\<close> appended, or fails with the
  error of \<open>s\<close>, or runs out of slots because the entries of \<open>s\<close> do not fit.
\<close>

definition overflows :: "item_array \<Rightarrow> review \<Rightarrow> bool" where
  "overflows a s \<longleftrightarrow> (\<forall>es. s = Inr es \<longrightarrow> MAX_ITEMS \<le> arr_num a + length es)"

definition refines :: "unit store \<Rightarrow> item_array \<Rightarrow> review \<Rightarrow> bool" where
  "refines m a s \<longleftrightarrow> (array_ok a \<longrightarrow>
     (case m a of
        (Inr _, a') \<Rightarrow> \<exists>es. s = Inr es \<and> grows a es a'
      | (Inl e, a') \<Rightarrow> e = TooManyItems \<and> overflows a s \<or> s = Inl e))"

lemma refinesI:
  "(array_ok a \<Longrightarrow> case m a of (Inr _, a') \<Rightarrow> \<exists>es. s = Inr es \<and> grows a es a'
      | (Inl e, a') \<Rightarrow> e = TooManyItems \<and> overflows a s \<or> s = Inl e) \<Longrightarrow> refines m a s"
  by (simp add: refines_def)

lemma grows_refl: "array_ok a \<Longrightarrow> grows a [] a"
  by (simp add: grows_def)

lemma grows_trans: "grows a es b \<Longrightarrow> grows b fs c \<Longrightarrow> grows a (es @ fs) c"
  unfolding grows_def by (auto intro: list_all2_appendI)

lemma shown_length: "array_ok a \<Longrightarrow> length (shown a) = arr_num a"
  by (simp add: shown_def array_ok_def)

lemma grows_num: "grows a es b \<Longrightarrow> array_ok a \<Longrightarrow> arr_num b = arr_num a + length es"
  using shown_length [of a] shown_length [of b] by (auto simp: grows_def dest!: list_all2_lengthD)

lemma overflows_simps [simp]:
  "overflows a (Inr es) \<longleftrightarrow> MAX_ITEMS \<le> arr_num a + length es" "overflows a (Inl e)"
  "overflows (set_slot f a) s \<longleftrightarrow> overflows a s"
  "overflows (a \<lparr> num_unknown := k \<rparr>) s \<longleftrightarrow> overflows a s"
  by (simp_all add: overflows_def set_slot_def)

lemma overflows_cat1: "overflows a s1 \<Longrightarrow> overflows a (cat s1 s2)"
  by (fastforce simp: overflows_def cat_Inr_iff)

lemma overflows_cat2: "grows a es b \<Longrightarrow> array_ok a \<Longrightarrow> overflows b s2 \<Longrightarrow> overflows a (cat (Inr es) s2)"
  by (fastforce simp: overflows_def cat_Inr_iff grows_num)

lemma grows_ok: "grows a es b \<Longrightarrow> array_ok b"
  by (simp add: grows_def)

lemma refines_ret [simp]: "refines (ret ()) a (Inr [])"
  by (simp add: refines_def ret_def grows_refl)

lemma refines_fails [simp]: "refines (fails e) a (Inl e)"
  by (simp add: refines_def fails_def)

lemma refines_thn_run:
  assumes "refines m a s1"
    "\<And>es a'. s1 = Inr es \<Longrightarrow> array_ok a \<Longrightarrow> m a = (Inr (), a') \<Longrightarrow> grows a es a' \<Longrightarrow> refines n a' s2"
  shows "refines (thn m n) a (cat s1 s2)"
proof (rule refinesI)
  assume ok: "array_ok a"
  show "case thn m n a of (Inr _, a') \<Rightarrow> \<exists>es. cat s1 s2 = Inr es \<and> grows a es a'
      | (Inl e, a') \<Rightarrow> e = TooManyItems \<and> overflows a (cat s1 s2) \<or> cat s1 s2 = Inl e"
  proof (cases "m a")
    case (Pair r a1)
    show ?thesis
    proof (cases r)
      case (Inl e)
      then show ?thesis using assms(1) ok Pair by (auto simp: refines_def thn_eq intro: overflows_cat1)
    next
      case (Inr u)
      then obtain es where es: "s1 = Inr es" "grows a es a1"
        using assms(1) ok Pair by (auto simp: refines_def)
      obtain r2 a2 where n: "n a1 = (r2, a2)" by (cases "n a1")
      have "refines n a1 s2" "array_ok a1" using assms(2) es grows_ok ok Inr Pair by auto
      then show ?thesis using es n Inr Pair
        by (cases r2) (auto simp: refines_def thn_eq intro: grows_trans overflows_cat2 [OF _ ok])
    qed
  qed
qed

lemma refines_thn:
  assumes "refines m a s1" "\<And>es a'. s1 = Inr es \<Longrightarrow> grows a es a' \<Longrightarrow> refines n a' s2"
  shows "refines (thn m n) a (cat s1 s2)"
  using assms by (rule refines_thn_run)

lemma refines_lifts:
  "(\<And>x. r = Inr x \<Longrightarrow> refines (g x) a (s x)) \<Longrightarrow> refines (bnd (lifts r) g) a (rbind r s)"
  by (cases r) (simp_all add: refines_def bnd_def lifts_def)

lemma refines_thn_lifts:
  "(r = Inr () \<Longrightarrow> refines m a s) \<Longrightarrow> refines (thn (lifts r) m) a (rbind r (\<lambda>_. s))"
  by (cases r) (simp_all add: refines_def bnd_def thn_def lifts_def)

lemma refines_reads: "refines (g (f a)) a s \<Longrightarrow> refines (bnd (reads f) g) a s"
  by (simp add: refines_def bnd_def reads_def)

text \<open>Writes to the free slot.\<close>

lemma array_ok_num: "array_ok a \<Longrightarrow> arr_num a < length (arr_items a)"
  by (simp add: array_ok_def)

lemma slot_set_slot: "array_ok a \<Longrightarrow> slot (set_slot f a) = f (slot a)"
  by (simp add: slot_def set_slot_def array_ok_def)

lemma set_slot_fields [simp]:
  "arr_num (set_slot f a) = arr_num a" "arr_signer (set_slot f a) = arr_signer a"
  "arr_key_tok (set_slot f a) = arr_key_tok a" "arr_nsigners (set_slot f a) = arr_nsigners a"
  by (simp_all add: set_slot_def)

lemma shown_set_slot [simp]: "shown (set_slot f a) = shown a"
  by (simp add: shown_def set_slot_def)

lemma array_ok_set_slot:
  "array_ok a \<Longrightarrow> can_display (f (slot a)) \<Longrightarrow> array_ok (set_slot f a)"
  using slot_set_slot [of a f] by (simp add: array_ok_def) (simp add: set_slot_def drop_update_cancel)

lemma refines_set_slot:
  assumes "\<And>i. can_display (f i) = can_display i" "refines m (set_slot f a) s"
  shows "refines (thn (modifies (set_slot f)) m) a s"
proof (rule refinesI)
  assume ok: "array_ok a"
  then have "array_ok (set_slot f a)"
    using assms(1) array_ok_set_slot by (auto simp: array_ok_def)
  then show "case thn (modifies (set_slot f)) m a of (Inr _, a') \<Rightarrow> \<exists>es. s = Inr es \<and> grows a es a'
      | (Inl e, a') \<Rightarrow> e = TooManyItems \<and> overflows a s \<or> s = Inl e"
    using assms(2)
    by (auto simp: refines_def thn_eq modifies_def grows_def split: prod.splits sum.splits)
qed

lemma refines_set_token:
  "refines m (set_slot (\<lambda>i. i \<lparr> i_token := t \<rparr>) a) s \<Longrightarrow> refines (thn (set_token t) m) a s"
  unfolding set_token_def by (rule refines_set_slot) simp_all

lemma refines_lookup_slot:
  assumes "\<And>t. found (f (i_token (slot a))) = Inr t \<Longrightarrow>
      refines (g t) (set_slot (\<lambda>i. i \<lparr> i_token := t \<rparr>) a) (s t)"
  shows "refines (bnd (lookup_slot f) g) a (rbind (pe (found (f (i_token (slot a))))) s)"
proof -
  obtain r t where f: "f (i_token (slot a)) = (r, t)" by fastforce
  show ?thesis
  proof (cases r)
    case (Inl e)
    then show ?thesis using f by (simp add: refines_def bnd_def lookup_slot_def)
  next
    case (Inr u)
    then have "refines (thn (modifies (set_slot (\<lambda>i. i \<lparr> i_token := t \<rparr>))) (g t)) a (s t)"
      using f assms by (intro refines_set_slot) simp_all
    then show ?thesis using f Inr
      by (simp add: refines_def bnd_def lookup_slot_def thn_eq modifies_def)
  qed
qed

text \<open>The increment stores the slot.\<close>

lemma next_slot:
  assumes "length (arr_items a) = MAX_ITEMS" "Suc (arr_num a) < MAX_ITEMS"
    "drop (Suc (arr_num a)) (arr_items a) = replicate (MAX_ITEMS - Suc (arr_num a)) ITEM_INIT"
  shows "arr_items a ! Suc (arr_num a) = ITEM_INIT"
proof -
  have "arr_items a ! Suc (arr_num a) = drop (Suc (arr_num a)) (arr_items a) ! 0"
    using assms(1,2) by simp
  also have "\<dots> = ITEM_INIT" using assms(2,3) by simp
  finally show ?thesis .
qed

lemma array_ok_Suc:
  assumes "length (arr_items a) = MAX_ITEMS" "Suc (arr_num a) < MAX_ITEMS"
    "drop (Suc (arr_num a)) (arr_items a) = replicate (MAX_ITEMS - Suc (arr_num a)) ITEM_INIT"
  shows "array_ok (a \<lparr> arr_num := Suc (arr_num a) \<rparr>)"
proof -
  have "drop (Suc (Suc (arr_num a))) (arr_items a) = drop 1 (drop (Suc (arr_num a)) (arr_items a))"
    by simp
  also have "\<dots> = replicate (MAX_ITEMS - Suc (Suc (arr_num a))) ITEM_INIT"
    unfolding assms(3) by simp
  finally show ?thesis
    using next_slot [OF assms] assms(1,2) by (simp add: array_ok_def slot_def ITEM_INIT_def)
qed

lemma refines_incr_slot:
  assumes "item_shows (f (slot a)) e"
  shows "refines (thn (modifies (set_slot f)) incr) a (Inr [e])"
proof (rule refinesI)
  assume ok: "array_ok a"
  let ?b = "set_slot f a" and ?c = "(set_slot f a) \<lparr> arr_num := Suc (arr_num a) \<rparr>"
  have "shown ?c = shown a @ [f (slot a)]"
    using array_ok_num [OF ok] by (simp add: shown_def set_slot_def take_Suc_conv_app_nth)
  moreover have "array_ok ?c" if "Suc (arr_num a) < MAX_ITEMS"
    using array_ok_Suc [of ?b] that ok by (simp add: array_ok_def set_slot_def drop_update_cancel)
  ultimately show "case thn (modifies (set_slot f)) incr a of
       (Inr _, a') \<Rightarrow> \<exists>es. Inr [e] = Inr es \<and> grows a es a' | (Inl x, a') \<Rightarrow> x = TooManyItems \<and> overflows a (Inr [e]) \<or> Inr [e] = Inl x"
    using assms by (auto simp: thn_eq modifies_def incr_def grows_def overflows_def Let_def)
qed

section \<open>The operations refine their specifications\<close>

lemma found_out [simp]:
  "found (object_get_value j ob key out) = get_value j ob key"
  "found (array_get_nth_element j arr i out) = get_nth j arr i"
  by (simp_all add: get_value_def get_nth_def object_get_value_def array_get_nth_element_def Let_def)

lemma refines_push:
  "refines (push k r) a (Inr [(k, r, Some (i_token (slot a)), can_display (slot a))])"
  unfolding push_def by (rule refines_incr_slot) simp

lemma refines_weaken:
  assumes "refines m a (Inr [(k, r, t, d)])" "array_ok a \<Longrightarrow> d = d'"
  shows "refines m a (Inr [(k, r, None, d')])"
  using assms unfolding refines_def grows_def
  by (auto simp: list_all2_Cons2 split: prod.splits sum.splits)

lemma refines_push_plain [simp]: "refines (push k r) a (Inr [plain_entry k r])"
  unfolding plain_entry_def
  by (rule refines_weaken [OF refines_push]) (simp add: array_ok_def)

lemma refines_ok_slot: "(array_ok a \<Longrightarrow> refines m a s) \<Longrightarrow> refines m a s"
  by (simp add: refines_def)

lemma refines_push_tok:
  "i_token (slot a) = t \<Longrightarrow> refines (push k r) a (Inr [tok_entry k r t])"
  by (rule refines_ok_slot) (use refines_push [of k r a] in \<open>simp add: tok_entry_def array_ok_def\<close>)

lemma refines_push_slot_tok:
  "refines (push k r) (set_slot (\<lambda>i. i \<lparr> i_token := t \<rparr>) a) (Inr [tok_entry k r t])"
proof (cases "array_ok a")
  case True
  then show ?thesis by (intro refines_push_tok) (simp add: slot_set_slot)
next
  case False
  then have "\<not> array_ok (set_slot (\<lambda>i. i \<lparr> i_token := t \<rparr>) a)"
    by (auto simp: array_ok_def set_slot_def slot_def nth_list_update split: if_splits)
  then show ?thesis by (simp add: refines_def)
qed

lemma refines_push_at [simp]: "refines (push_at t k r) a (Inr [tok_entry k r t])"
  unfolding push_at_def by (rule refines_set_token) (rule refines_push_slot_tok)

lemma refines_only_if: "(c \<Longrightarrow> refines m a s) \<Longrightarrow> refines (only_if c m) a (if c then s else Inr [])"
  by (simp add: only_if_def)

lemma refines_only_if_Inr:
  "(c \<Longrightarrow> refines m a (Inr es)) \<Longrightarrow> refines (only_if c m) a (Inr (if c then es else []))"
  by (simp add: only_if_def)

lemma refines_if:
  "(c \<Longrightarrow> refines m a s) \<Longrightarrow> (\<not> c \<Longrightarrow> refines m' a s') \<Longrightarrow>
   refines (if c then m else m') a (if c then s else s')"
  by simp

lemma cat_rbind: "cat (rbind r f) s = rbind r (\<lambda>x. cat (f x) s)"
  by (cases r) simp_all

lemma rbind_cong_if: "(if c then Inr [] else rbind r f) = (if \<not> c then rbind r f else Inr [])"
  by simp

lemma refines_lookup_value:
  "(\<And>t. get_value j ob key = Inr t \<Longrightarrow>
      refines (g t) (set_slot (\<lambda>i. i \<lparr> i_token := t \<rparr>) a) (s t)) \<Longrightarrow>
   refines (bnd (lookup_slot (object_get_value j ob key)) g) a (rbind (pe (get_value j ob key)) s)"
  using refines_lookup_slot [where f = "object_get_value j ob key" and a = a and g = g and s = s] by simp

lemma refines_lookup_nth:
  "(\<And>t. get_nth j arr pos = Inr t \<Longrightarrow>
      refines (g t) (set_slot (\<lambda>i. i \<lparr> i_token := t \<rparr>) a) (s t)) \<Longrightarrow>
   refines (bnd (lookup_slot (array_get_nth_element j arr pos)) g) a (rbind (pe (get_nth j arr pos)) s)"
  using refines_lookup_slot [where f = "array_get_nth_element j arr pos" and a = a and g = g and s = s] by simp

lemma refines_network:
  "i_token (slot a) = 0 \<Longrightarrow> refines (store_network j) a (network_review j)"
  unfolding store_network_def network_review_def rbind_cong_if
  by (auto intro!: refines_reads refines_lookup_value refines_only_if refines_thn_lifts refines_push_slot_tok)

lemma refines_key: "refines store_key a (Inr [tok_entry KOfKey RStd (arr_key_tok a)])"
  unfolding store_key_def by (intro refines_reads) simp

lemma refines_unscoped:
  "refines (unscoped_signer k) a (Inr [tok_entry k RStd (arr_key_tok a)])"
  unfolding unscoped_signer_def
proof (rule refines_reads, rule refines_ok_slot)
  assume "array_ok a"
  then show "refines (thn (modifies (set_slot (\<lambda>i. i \<lparr> i_key := k, i_token := arr_key_tok a, i_render := RStd \<rparr>))) incr)
      a (Inr [tok_entry k RStd (arr_key_tok a)])"
    by (intro refines_incr_slot) (simp add: tok_entry_def array_ok_def)
qed

lemma get_valid_clist_out_eq:
  "(case get_valid_clist_out j s out of (Inl e, c) \<Rightarrow> Inl e | (Inr n, c) \<Rightarrow> Inr (c, n)) = get_valid_clist j s"
proof (cases "s < json_n j")
  case True
  then have "object_get_value j s ''clist'' out = object_get_value j s ''clist'' 0"
    by (simp add: object_get_value_def)
  then show ?thesis by (simp add: get_valid_clist_def get_valid_clist_out_def)
next
  case False
  then show ?thesis by (simp add: get_valid_clist_def get_valid_clist_out_def object_get_value_def)
qed

lemma get_valid_clist_count:
  "get_valid_clist j s = Inr (c, n) \<Longrightarrow> get_count j c = Inr n \<and> 0 < n \<and> get_value j s ''clist'' = Inr c"
  unfolding get_valid_clist_def get_valid_clist_out_def get_value_def
  by (auto simp: found_def split: prod.splits sum.splits if_splits)

lemma refines_signers:
  "refines (validate_signers j) a (signer_review j (arr_signer a) (arr_key_tok a))"
proof -
  obtain r c where out: "get_valid_clist_out j (arr_signer a) (i_token (slot a)) = (r, c)"
    by fastforce
  let ?f = "\<lambda>t (i::item). i \<lparr> i_token := t \<rparr>" and ?s = "arr_signer a" and ?k = "arr_key_tok a"
  note eq = get_valid_clist_out_eq [of j ?s "i_token (slot a)", unfolded out]
  have unscoped: "refines (unscoped_signer k) (set_slot f a) (Inr [tok_entry k RStd ?k])" for k f
    using refines_unscoped [of k "set_slot f a"] by simp
  show ?thesis
  proof (cases r)
    case (Inl e)
    then have m: "validate_signers j a = thn (modifies (set_slot (?f c))) (unscoped_signer KUnscopedSigner) a"
      using out by (simp add: validate_signers_def thn_eq modifies_def)
    have s: "signer_review j ?s ?k = Inr [tok_entry KUnscopedSigner RStd ?k]"
      using eq [symmetric] Inl by (simp add: signer_review_def)
    have "refines (thn (modifies (set_slot (?f c))) (unscoped_signer KUnscopedSigner)) a
        (Inr [tok_entry KUnscopedSigner RStd ?k])"
      by (rule refines_set_slot) (simp_all add: unscoped)
    then show ?thesis unfolding s using m by (simp add: refines_def)
  next
    case (Inr n)
    then have v: "get_valid_clist j ?s = Inr (c, n)" using eq by simp
    then have cnt: "get_count j c = Inr n" using get_valid_clist_count by blast
    let ?n = "key_not_in_transfer j ?s ?k c [0..<u8 n]"
    have s: "signer_review j ?s ?k = Inr (if ?n then [tok_entry KKeyNotInTransfer RStd ?k] else [])"
      using v by (simp add: signer_review_def)
    have m: "validate_signers j a = thn (modifies (set_slot (?f c)))
        (if ?n then unscoped_signer KKeyNotInTransfer
         else thn (modifies (set_slot (?f 0))) (ret ())) a"
      using out Inr cnt by (simp add: validate_signers_def thn_eq modifies_def Let_def ret_def)
    have "refines (thn (modifies (set_slot (?f c)))
        (if ?n then unscoped_signer KKeyNotInTransfer
         else thn (modifies (set_slot (?f 0))) (ret ()))) a
        (Inr (if ?n then [tok_entry KKeyNotInTransfer RStd ?k] else []))"
      by (rule refines_set_slot) (auto simp: unscoped intro!: refines_set_slot)
    then show ?thesis unfolding s using m by (simp add: refines_def)
  qed
qed

lemma thn_assoc: "thn (thn m n) k = thn m (thn n k)"
  by (auto simp: thn_eq fun_eq_iff split: prod.splits sum.splits)

lemma refines_unknown:
  "refines (thn (set_token cap) (store_unknown_item j nargs args)) a
     (Inr [(KArguments, RUnknown, Some cap, \<not> args_too_large j nargs args)])"
proof -
  let ?d = "args_too_large j nargs args"
  let ?f = "\<lambda>i. i \<lparr> i_token := cap, i_key := KArguments, i_render := RUnknown,
      can_display := (if ?d then False else can_display i) \<rparr>"
  let ?b = "a \<lparr> num_unknown := u8 (Suc (num_unknown a)) \<rparr>"
  have m: "thn (set_token cap) (store_unknown_item j nargs args) a =
      thn (modifies (set_slot ?f)) incr ?b" if ok: "array_ok a"
    using array_ok_num [OF ok]
    by (simp add: thn_eq modifies_def set_token_def store_unknown_item_def args_too_large_def
        set_slot_def slot_def list_update_overwrite)
  have ok: "array_ok a = array_ok ?b" by (simp add: array_ok_def slot_def)
  have gr: "grows a es a' = grows ?b es a'" for es a' by (simp add: grows_def shown_def)
  have "refines (thn (modifies (set_slot ?f)) incr) ?b (Inr [(KArguments, RUnknown, Some cap, \<not> ?d)])"
    by (rule refines_ok_slot, rule refines_incr_slot) (simp add: array_ok_def slot_def)
  then show ?thesis using m ok by (auto simp: refines_def gr split: prod.splits sum.splits)
qed

lemma refines_unverified:
  "refines (store_unverified j cap nargs args warn) a (Inr (unverified_review j cap nargs args warn))"
proof -
  let ?e = "(KArguments, RUnknown, Some cap, \<not> args_too_large j nargs args)"
  have "refines (store_unverified j cap nargs args warn) a
     (cat (Inr (if warn then [tok_entry KWarning RCapNotVerified cap] else []))
     (cat (Inr [tok_entry KCapability RCapName cap])
     (cat (Inr (if has_namespace j cap then [tok_entry KNamespace RCapNamespace cap] else []))
       (Inr [?e]))))"
    unfolding store_unverified_def
    by (intro refines_thn refines_only_if_Inr refines_push_at refines_unknown)
  then show ?thesis by (simp add: unverified_review_def)
qed

section \<open>Transfers\<close>

fun args_review :: "json \<Rightarrow> nat \<Rightarrow> nat \<Rightarrow> (item_key \<times> item_render) list \<Rightarrow> review" where
  "args_review j args pos [] = Inr []"
| "args_review j args pos ((k, r) # ks) =
     rbind (pe (get_nth j args pos)) (\<lambda>t. cat (Inr [tok_entry k r t]) (args_review j args (Suc pos) ks))"

lemma args_review_length: "args_review j args pos ks = Inr es \<Longrightarrow> length es = length ks"
  by (induction j args pos ks arbitrary: es rule: args_review.induct)
     (auto simp: rbind_Inr_iff cat_Inr_iff)

lemma refines_args: "refines (store_args_from j args pos ks) a (args_review j args pos ks)"
proof (induction j args pos ks arbitrary: a rule: store_args_from.induct)
  case (2 j args pos key render ks)
  let ?k = "set_slot (\<lambda>i. i \<lparr> i_key := key \<rparr>)" and ?r = "set_slot (\<lambda>i. i \<lparr> i_render := render \<rparr>)"
  have one: "refines (thn (modifies ?r) incr) (set_slot (\<lambda>i. i \<lparr> i_token := t \<rparr>) (?k a))
      (Inr [tok_entry key render t])" for t
  proof (rule refines_ok_slot)
    assume ok: "array_ok (set_slot (\<lambda>i. i \<lparr> i_token := t \<rparr>) (?k a))"
    then have "array_ok a"
      by (auto simp: array_ok_def set_slot_def slot_def nth_list_update split: if_splits)
    then have "array_ok (?k a)" by (intro array_ok_set_slot) (simp_all add: array_ok_def)
    then show "refines (thn (modifies ?r) incr) (set_slot (\<lambda>i. i \<lparr> i_token := t \<rparr>) (?k a))
        (Inr [tok_entry key render t])"
      using ok \<open>array_ok a\<close>
      by (intro refines_incr_slot) (simp add: slot_set_slot tok_entry_def, simp add: array_ok_def)
  qed
  have step: "refines (thn (modifies ?r) (thn incr (store_args_from j args (Suc pos) ks)))
      (set_slot (\<lambda>i. i \<lparr> i_token := t \<rparr>) (?k a))
      (cat (Inr [tok_entry key render t]) (args_review j args (Suc pos) ks))" for t
    unfolding thn_assoc [symmetric] by (rule refines_thn [OF one 2])
  show ?case unfolding store_args_from.simps args_review.simps
    by (rule refines_set_slot, simp) (rule refines_lookup_nth [OF step])
qed simp

fun set_entry_token :: "nat \<Rightarrow> entry \<Rightarrow> entry" where
  "set_entry_token t (k, r, _, d) = (k, r, Some t, d)"

lemma item_shows_set_token:
  "item_shows x e \<Longrightarrow> item_shows (x \<lparr> i_token := t \<rparr>) (set_entry_token t e)"
  by (cases e) auto

lemma grows_stored:
  assumes g: "grows a es b" and ok: "array_ok a" and bk: "0 < bk" "bk \<le> length es"
  shows "grows a (es[length es - bk := set_entry_token t (es ! (length es - bk))])
    (b \<lparr> arr_items := (arr_items b)[arr_num b - bk := (arr_items b ! (arr_num b - bk)) \<lparr> i_token := t \<rparr>] \<rparr>)"
    (is "grows a ?es ?b")
proof -
  obtain xs where xs: "shown b = shown a @ xs" "list_all2 item_shows xs es" and okb: "array_ok b"
    using g by (auto simp: grows_def)
  then have len: "length xs = length es" by (simp add: list_all2_lengthD)
  have n: "arr_num b = arr_num a + length es"
    using arg_cong [OF xs(1), of length] len shown_length [OF ok] shown_length [OF okb] by simp
  let ?i = "length es - bk"
  have i: "arr_num b - bk = arr_num a + ?i" using n bk by simp
  have x: "arr_items b ! (arr_num b - bk) = xs ! ?i"
  proof -
    have "arr_items b ! (arr_num b - bk) = shown b ! (arr_num b - bk)"
      using bk n by (simp add: shown_def)
    then show ?thesis using i shown_length [OF ok] by (simp add: xs(1) nth_append)
  qed
  have "shown ?b = (shown b)[arr_num b - bk := (xs ! ?i) \<lparr> i_token := t \<rparr>]"
    using x by (simp add: shown_def take_update_swap)
  also have "\<dots> = shown a @ xs[?i := (xs ! ?i) \<lparr> i_token := t \<rparr>]"
    using i shown_length [OF ok] by (simp add: xs(1) list_update_append)
  finally have 1: "shown ?b = shown a @ xs[?i := (xs ! ?i) \<lparr> i_token := t \<rparr>]" .
  have "list_all2 item_shows (xs[?i := (xs ! ?i) \<lparr> i_token := t \<rparr>]) ?es"
    using xs(2) bk len
    by (intro list_all2_update_cong item_shows_set_token) (auto simp: list_all2_conv_all_nth)
  moreover have "array_ok ?b"
    using okb bk n by (simp add: array_ok_def slot_def)
  ultimately show ?thesis using 1 g by (auto simp: grows_def)
qed

lemma refines_stored:
  assumes "refines m a s" "\<And>es. s = Inr es \<Longrightarrow> bk \<le> length es" "0 < bk"
  shows "refines (thn m (set_stored_token bk t)) a
    (rbind s (\<lambda>es. Inr (es[length es - bk := set_entry_token t (es ! (length es - bk))])))"
proof (rule refinesI)
  assume ok: "array_ok a"
  obtain r b where m: "m a = (r, b)" by fastforce
  show "case thn m (set_stored_token bk t) a of
      (Inr _, a') \<Rightarrow> \<exists>es. rbind s (\<lambda>es. Inr (es[length es - bk := set_entry_token t (es ! (length es - bk))])) = Inr es \<and> grows a es a'
    | (Inl e, a') \<Rightarrow> e = TooManyItems \<and> overflows a
        (rbind s (\<lambda>es. Inr (es[length es - bk := set_entry_token t (es ! (length es - bk))]))) \<or>
        rbind s (\<lambda>es. Inr (es[length es - bk := set_entry_token t (es ! (length es - bk))])) = Inl e"
    using assms ok m grows_stored [OF _ ok assms(3)]
    by (cases r) (auto simp: refines_def thn_eq set_stored_token_def modifies_def overflows_def rbind_Inr_iff)
qed

lemma refines_receiver: "refines (check_receiver j args) a (receiver_review j args)"
  unfolding check_receiver_def receiver_review_def
  by (intro refines_lifts refines_only_if_Inr refines_push_plain)

lemma refines_transfer_items:
  assumes "0 < bk" "bk \<le> length ks"
  shows "refines (thn (push KTransfer r) (thn (store_args_items j args ks)
      (thn (set_stored_token bk amt) (check_receiver j args)))) a
    (cat (Inr [plain_entry KTransfer r]) (cat (rbind (args_review j args 0 ks) (\<lambda>es. Inr
       (es[length es - bk := set_entry_token amt (es ! (length es - bk))])))
       (receiver_review j args)))"
  unfolding thn_assoc [of "store_args_items j args ks", symmetric]
  unfolding store_args_items_def
  by (rule refines_thn [OF refines_push_plain refines_thn [OF refines_stored refines_receiver]])
     (use assms in \<open>auto intro: refines_args dest: args_review_length\<close>)

lemma refines_tx_item: "refines (store_tx_item j cap) a
   (rbind (pe (get_value j cap ''args'')) (\<lambda>args. rbind (pe (get_count j args)) (\<lambda>nargs.
      if nargs = 3 then transfer_review j args
      else Inr (unverified_review j cap nargs args True))))"
proof -
  have eq: "rbind (check_amount j args) (\<lambda>amt. rbind (args_unescaped j args [0, 1]) (\<lambda>_.
      cat (Inr [plain_entry KTransfer RTransfer]) (cat (rbind (args_review j args 0
        [(KFrom, RStd), (KTo, RStd), (KAmount, RAmount)]) (\<lambda>es. Inr
       (es[length es - 1 := set_entry_token amt (es ! (length es - 1))])))
       (receiver_review j args)))) = transfer_review j args" for args
    by (cases "check_amount j args"; cases "get_nth j args 0"; cases "get_nth j args 1";
        cases "get_nth j args 2"; cases "receiver_review j args")
       (simp_all add: transfer_review_def tok_entry_def numeral_eq_Suc)
  show ?thesis unfolding store_tx_item_def
    by (intro refines_lifts refines_if refines_unverified)
       (unfold eq [symmetric], intro refines_lifts refines_thn_lifts refines_transfer_items; simp)
qed

lemma refines_cross_item: "refines (store_tx_cross_item j cap) a
   (rbind (pe (get_value j cap ''args'')) (\<lambda>args. rbind (pe (get_count j args)) (\<lambda>nargs.
      if nargs = 4 then cross_review j args
      else Inr (unverified_review j cap nargs args True))))"
proof -
  have eq: "rbind (check_amount j args) (\<lambda>amt. rbind (args_unescaped j args [0, 1, 3]) (\<lambda>_.
      cat (Inr [plain_entry KTransfer RCrossTransfer]) (cat (rbind (args_review j args 0
        [(KFrom, RStd), (KTo, RStd), (KAmount, RAmount), (KToChain, RStd)]) (\<lambda>es. Inr
       (es[length es - 2 := set_entry_token amt (es ! (length es - 2))])))
       (receiver_review j args)))) = cross_review j args" for args
    by (cases "check_amount j args"; cases "get_nth j args 0"; cases "get_nth j args 1";
        cases "get_nth j args 2"; cases "get_nth j args 3"; cases "receiver_review j args")
       (simp_all add: cross_review_def tok_entry_def numeral_eq_Suc)
  show ?thesis unfolding store_tx_cross_item_def
    by (intro refines_lifts refines_if refines_unverified)
       (unfold eq [symmetric], intro refines_lifts refines_thn_lifts refines_transfer_items; simp)
qed

section \<open>Capabilities and the rest of the review\<close>

lemma refines_rotate_item: "refines (store_tx_rotate_item j cap) (set_slot (\<lambda>i. i \<lparr> i_token := cap \<rparr>) a)
   (rbind (pe (get_value j cap ''args'')) (\<lambda>args. rbind (pe (get_count j args)) (\<lambda>nargs.
      if nargs = 1 then Inr [tok_entry KRotate RRotate cap]
      else Inr (unverified_review j cap nargs args False))))"
  unfolding store_tx_rotate_item_def
  by (intro refines_lifts refines_if refines_unverified refines_push_slot_tok)

lemma refines_capability: "refines (store_capability j cap) a (cap_review j cap)"
proof (cases "tok_kind (json_tok j cap) = Object")
  case True
  let ?u = "thn (set_token cap) (bnd (lifts (pe (get_value j cap ''args''))) (\<lambda>args.
      bnd (lifts (pe (get_count j args))) (\<lambda>nargs. store_unverified j cap nargs args True)))"
  let ?s = "rbind (pe (get_value j cap ''args'')) (\<lambda>args. rbind (pe (get_count j args)) (\<lambda>nargs.
      Inr (unverified_review j cap nargs args True)))"
  have u: "refines ?u a ?s" by (intro refines_set_token refines_lifts refines_unverified)
  have r: "refines (thn (set_token cap) (thn (store_tx_rotate_item j cap) (push KWarning RRotateWarning))) a
      (cat (rbind (pe (get_value j cap ''args'')) (\<lambda>args. rbind (pe (get_count j args)) (\<lambda>nargs.
        if nargs = 1 then Inr [tok_entry KRotate RRotate cap]
        else Inr (unverified_review j cap nargs args False)))) (Inr [plain_entry KWarning RRotateWarning]))"
    by (intro refines_set_token refines_thn refines_rotate_item refines_push_plain)
  have r': "cat (rbind (pe (get_value j cap ''args'')) (\<lambda>args. rbind (pe (get_count j args)) (\<lambda>nargs.
        if nargs = 1 then Inr [tok_entry KRotate RRotate cap]
        else Inr (unverified_review j cap nargs args False)))) (Inr [plain_entry KWarning RRotateWarning]) =
      rbind (pe (get_value j cap ''args'')) (\<lambda>args. rbind (pe (get_count j args)) (\<lambda>nargs.
        Inr ((if nargs = 1 then [tok_entry KRotate RRotate cap]
              else unverified_review j cap nargs args False) @ [plain_entry KWarning RRotateWarning])))"
    by (cases "get_value j cap ''args''"; cases "get_count j (projr (get_value j cap ''args''))") simp_all
  show ?thesis
    using True u r [unfolded r'] unfolding store_capability_def cap_review_def
    by (cases "get_tx_name j cap")
       (auto intro!: refines_set_token refines_tx_item refines_cross_item)
next
  case False
  then show ?thesis by (simp add: store_capability_def cap_review_def)
qed

lemma refines_capabilities: "refines (store_capabilities j clist is) a (caps_review j clist is)"
proof (induction j clist "is" arbitrary: a rule: store_capabilities.induct)
  case (2 j clist i "is")
  show ?case unfolding store_capabilities.simps caps_review.simps
  proof (rule refines_thn)
    show "refines (case get_nth j clist i of Inl _ \<Rightarrow> ret () | Inr cap \<Rightarrow> store_capability j cap) a
       (case get_nth j clist i of Inl _ \<Rightarrow> Inr [] | Inr cap \<Rightarrow> cap_review j cap)"
      by (simp add: refines_capability split: sum.splits)
    show "refines (bnd (reads arr_num) (\<lambda>n. if MAX_ITEMS \<le> n then fails TooManyItems
        else store_capabilities j clist is)) b (caps_review j clist is)" for b
      by (rule refines_reads, rule refines_ok_slot)
         (use 2 [of "arr_num b" b] in \<open>simp add: array_ok_def\<close>)
  qed
qed simp

lemma refines_transfers: "refines (store_all_transfers j) a (transfers_review j (arr_signer a))"
proof (cases "get_valid_clist j (arr_signer a)")
  case (Inl e)
  let ?m = "thn (push KWarning RWarning) (modifies (\<lambda>x. x \<lparr> arr_items := (arr_items x)[arr_num a :=
      (arr_items x ! arr_num a) \<lparr> i_token := 0 \<rparr>] \<rparr>))"
  have "?m a = thn (push KWarning RWarning) (set_stored_token 1 0) a"
    by (auto simp: push_def thn_eq modifies_def incr_def Let_def set_stored_token_def)
  moreover have "refines (thn (push KWarning RWarning) (set_stored_token 1 0)) a
      (rbind (Inr [plain_entry KWarning RWarning]) (\<lambda>es. Inr (es[length es - 1 := set_entry_token 0 (es ! (length es - 1))])))"
    by (rule refines_stored) (simp_all del: rbind_simps)
  then have "refines (thn (push KWarning RWarning) (set_stored_token 1 0)) a (Inr [tok_entry KWarning RWarning 0])"
    by (simp add: plain_entry_def tok_entry_def)
  ultimately have "refines ?m a (Inr [tok_entry KWarning RWarning 0])" by (simp add: refines_def)
  then have "refines ?m a (Inr [plain_entry KWarning RWarning])"
    unfolding tok_entry_def plain_entry_def by (rule refines_weaken) simp
  then show ?thesis
    using Inl by (simp add: store_all_transfers_def transfers_review_def refines_reads)
next
  case (Inr p)
  then show ?thesis
    by (cases p) (auto simp: store_all_transfers_def transfers_review_def
        intro!: refines_reads refines_capabilities)
qed

lemma refines_chain: "refines (store_chain_id j) a (chain_review j)"
  unfolding store_chain_id_def chain_review_def rbind_cong_if
  by (auto intro!: refines_lookup_value refines_only_if refines_thn_lifts refines_push_slot_tok)

lemma refines_set_token_only: "refines (set_token t) a (Inr [])"
proof (rule refinesI)
  assume ok: "array_ok a"
  then have "array_ok (set_slot (\<lambda>i. i \<lparr> i_token := t \<rparr>) a)"
    by (intro array_ok_set_slot) (simp_all add: array_ok_def)
  then show "case set_token t a of (Inr _, a') \<Rightarrow> \<exists>es. Inr [] = Inr es \<and> grows a es a'
      | (Inl e, a') \<Rightarrow> e = TooManyItems \<and> overflows a (Inr []) \<or> Inr [] = Inl e"
    by (simp add: set_token_def modifies_def grows_def)
qed

lemma refines_gas: "refines (store_using_gas j) a (gas_review j)"
proof -
  have "refines (store_using_gas j) a (rbind (pe (get_value j 0 ''meta'')) (\<lambda>meta.
      if \<not> is_null j meta then Inr [tok_entry KUsingGas RGas meta] else Inr []))"
    unfolding store_using_gas_def
    by (intro refines_lookup_value refines_if refines_push_slot_tok refines_set_token_only)
  then show ?thesis by (simp only: gas_review_def if_distrib [of Inr])
qed

lemma refines_fee: "refines (store_fee_and_payer j) a (fee_review j)"
proof -
  have sender: "refines (case get_value j meta ''sender'' of Inl _ \<Rightarrow> ret ()
       | Inr s \<Rightarrow> thn (lifts (shown_unescaped j s)) (push_at s KPayingAccount RStd)) b
     (case get_value j meta ''sender'' of Inl _ \<Rightarrow> Inr []
       | Inr s \<Rightarrow> rbind (shown_unescaped j s) (\<lambda>_. Inr [tok_entry KPayingAccount RStd s]))" for meta b
    by (auto split: sum.splits intro: refines_thn_lifts)
  show ?thesis unfolding store_fee_and_payer_def fee_review_def
    by (intro refines_lifts refines_if refines_ret refines_thn refines_push_at sender)
qed

lemma refines_meta: "refines (store_meta_items j) a (meta_review j)"
  unfolding store_meta_items_def meta_review_def
  by (intro refines_if refines_push_plain refines_lifts refines_thn_lifts refines_thn
      refines_chain refines_gas refines_fee)

lemma hidden_entry_iff: "item_shows i e \<Longrightarrow> hidden_entry e \<longleftrightarrow> \<not> can_display i"
  by (cases e) (auto simp: hidden_entry_def)

lemma blind_entry_iff: "item_shows i e \<Longrightarrow> blind_entry e \<longleftrightarrow> blind_render (i_render i)"
  by (cases e) (auto simp: blind_entry_def)

lemma list_ex_shows:
  "list_all2 item_shows xs es \<Longrightarrow> list_ex hidden_entry es \<longleftrightarrow> list_ex (\<lambda>i. \<not> can_display i) xs"
  "list_all2 item_shows xs es \<Longrightarrow> list_ex blind_entry es \<longleftrightarrow> list_ex (\<lambda>i. blind_render (i_render i)) xs"
  by (induction rule: list_all2_induct) (auto simp: hidden_entry_iff blind_entry_iff)

text \<open>The array after \<open>items_init\<close>: nothing stored, all slots fresh.\<close>

lemma items_init_ok: "array_ok (items_init a)" "shown (items_init a) = []"
  "i_token (slot (items_init a)) = 0"
  by (simp_all add: array_ok_def items_init_def shown_def slot_def MAX_ITEMS_def ITEM_INIT_def)

lemma push_slot_fresh:
  assumes "array_ok a" "push k r a = (Inr (), a')"
  shows "slot a' = ITEM_INIT"
proof -
  have a': "a' = (set_slot (\<lambda>i. i \<lparr> i_key := k, i_render := r \<rparr>) a) \<lparr> arr_num := Suc (arr_num a) \<rparr>"
    and n: "Suc (arr_num a) < MAX_ITEMS"
    using assms(2) by (auto simp: push_def thn_eq modifies_def incr_def Let_def split: if_splits)
  have "slot a' = arr_items a ! Suc (arr_num a)"
    by (simp add: a' slot_def set_slot_def)
  then show ?thesis using n assms(1) next_slot [of a] by (simp add: array_ok_def)
qed

text \<open>The store of a whole transaction, in three parts.\<close>

definition store_setup :: "json \<Rightarrow> nat \<Rightarrow> nat \<Rightarrow> unit store" where
  "store_setup j signer nsigners =
     thn (modifies (\<lambda>a. a \<lparr> arr_signer := signer, arr_nsigners := nsigners \<rparr>))
       (\<lambda>a. let (r, k) = object_get_value j signer ''pubKey'' (arr_key_tok a) in
          (pe r, a \<lparr> arr_key_tok := k \<rparr>))"

definition store_body :: "json \<Rightarrow> nat \<Rightarrow> unit store" where
  "store_body j nsigners =
     thn (push KSigning RSigning)
     (thn (store_network j)
     (thn (only_if (nsigners > 1) (push KSigners RSigners))
     (thn (push KRequiring RRequiring)
     (thn store_key
     (thn (validate_signers j)
     (thn (store_all_transfers j)
     (if meta_has_sender j then store_meta_items j else fails ItemInvalidMetaField)))))))"

lemma thn_fails: "thn (fails e) m = fails e"
  by (simp add: thn_eq fails_def fun_eq_iff)

lemma fails_or_thn: "(if \<not> h then fails e else thn m c) = thn (if h then m else fails e) c"
  by (simp add: thn_fails)

lemma store_tx_items_parts:
  "store_tx_items j signer nsigners =
     thn (store_setup j signer nsigners) (thn (store_body j nsigners) check_tx_lengths)"
  unfolding store_tx_items_def store_setup_def store_body_def
  by (simp only: thn_assoc fails_or_thn)

text \<open>Every operation keeps the signer entry and the key token.\<close>

lemma refines_thn_keep:
  assumes "refines m b s1" "arr_signer b = sg \<and> arr_key_tok b = k"
    "\<And>c. arr_signer c = sg \<and> arr_key_tok c = k \<Longrightarrow> refines n c s2"
  shows "refines (thn m n) b (cat s1 s2)"
  using assms by (intro refines_thn) (auto simp: grows_def)

lemma refines_body:
  assumes "shown a = []" "i_token (slot a) = 0"
  shows "refines (store_body j nsigners) a
    (cat (Inr [plain_entry KSigning RSigning])
    (cat (network_review j)
    (cat (Inr (if nsigners > 1 then [plain_entry KSigners RSigners] else []))
    (cat (Inr [plain_entry KRequiring RRequiring])
    (cat (Inr [tok_entry KOfKey RStd (arr_key_tok a)])
    (cat (signer_review j (arr_signer a) (arr_key_tok a))
    (cat (transfers_review j (arr_signer a))
    (if meta_has_sender j then meta_review j else Inl ItemInvalidMetaField))))))))"
proof -
  have tail1: "refines (thn (validate_signers j) (thn (store_all_transfers j)
      (if meta_has_sender j then store_meta_items j else fails ItemInvalidMetaField))) b
    (cat (signer_review j (arr_signer a) (arr_key_tok a)) (cat (transfers_review j (arr_signer a))
      (if meta_has_sender j then meta_review j else Inl ItemInvalidMetaField)))"
    if "arr_signer b = arr_signer a \<and> arr_key_tok b = arr_key_tok a" for b
  proof -
    have s: "refines (validate_signers j) b (signer_review j (arr_signer a) (arr_key_tok a))"
      using refines_signers [of j b] that by simp
    have t: "refines (store_all_transfers j) c (transfers_review j (arr_signer a))"
      if "arr_signer c = arr_signer a" for c
      using refines_transfers [of j c] that by simp
    show ?thesis
      by (rule refines_thn_keep [OF s that], rule refines_thn [OF t])
         (simp, intro refines_if refines_meta refines_fails)
  qed
  have tail2: "refines (thn store_key (thn (validate_signers j) (thn (store_all_transfers j)
      (if meta_has_sender j then store_meta_items j else fails ItemInvalidMetaField)))) b
    (cat (Inr [tok_entry KOfKey RStd (arr_key_tok a)])
    (cat (signer_review j (arr_signer a) (arr_key_tok a)) (cat (transfers_review j (arr_signer a))
      (if meta_has_sender j then meta_review j else Inl ItemInvalidMetaField))))"
    if "arr_signer b = arr_signer a \<and> arr_key_tok b = arr_key_tok a" for b
    using refines_thn_keep [OF refines_key that tail1] that by simp
  show ?thesis unfolding store_body_def
  proof (rule refines_thn_run [OF refines_push_plain])
    fix es b assume "array_ok a" "push KSigning RSigning a = (Inr (), b)" "grows a es b"
    then have b: "i_token (slot b) = 0" "arr_signer b = arr_signer a \<and> arr_key_tok b = arr_key_tok a"
      using push_slot_fresh by (auto simp: ITEM_INIT_def grows_def)
    show "refines (thn (store_network j) (thn (only_if (1 < nsigners) (push KSigners RSigners))
       (thn (push KRequiring RRequiring) (thn store_key (thn (validate_signers j)
       (thn (store_all_transfers j) (if meta_has_sender j then store_meta_items j
          else fails ItemInvalidMetaField))))))) b
      (cat (network_review j) (cat (Inr (if 1 < nsigners then [plain_entry KSigners RSigners] else []))
      (cat (Inr [plain_entry KRequiring RRequiring]) (cat (Inr [tok_entry KOfKey RStd (arr_key_tok a)])
      (cat (signer_review j (arr_signer a) (arr_key_tok a)) (cat (transfers_review j (arr_signer a))
      (if meta_has_sender j then meta_review j else Inl ItemInvalidMetaField)))))))"
      by (rule refines_thn_keep [OF refines_network [OF b(1)] b(2)],
          rule refines_thn_keep [OF refines_only_if_Inr [OF refines_push_plain]], assumption,
          rule refines_thn_keep [OF refines_push_plain], assumption, rule tail2)
  qed
qed

end
