(* ===== verification/Items_Props.thy ===== *)
theory Items_Props
  imports Items_Spec
begin

text \<open>
  The review of a whole transaction as the device stores it: the array after \<open>store_tx_items\<close>,
  \<open>store_expert_meta\<close> and \<open>store_expert_items\<close> shows exactly the entries of the specification,
  within the 99 slots.
\<close>

section \<open>The stored review\<close>

definition review_shown :: "item_array \<Rightarrow> entry list \<Rightarrow> bool" where
  "review_shown a es \<longleftrightarrow> array_ok a \<and> list_all2 item_shows (shown a) es"

lemma review_shown_length: "review_shown a es \<Longrightarrow> length es = arr_num a \<and> arr_num a < MAX_ITEMS"
  using shown_length [of a] by (auto simp: review_shown_def array_ok_def dest!: list_all2_lengthD)

lemma needs_blind_iff: "review_shown a es \<Longrightarrow> needs_blind a \<longleftrightarrow> list_ex blind_entry es"
  using list_ex_shows(2) [of "shown a" es] by (simp add: review_shown_def needs_blind_def shown_def)

lemma refines_check:
  assumes "refines m a s" "shown a = []"
  shows "refines (thn m check_tx_lengths) a (rbind s (\<lambda>es.
    Inr (es @ (if list_ex hidden_entry es then [plain_entry KWarning RTxTooLarge] else []))))"
proof (rule refinesI)
  assume ok: "array_ok a"
  let ?w = "\<lambda>es. if list_ex hidden_entry es then [plain_entry KWarning RTxTooLarge] else []"
  obtain r b where m: "m a = (r, b)" by fastforce
  show "case thn m check_tx_lengths a of
      (Inr _, a') \<Rightarrow> \<exists>es. rbind s (\<lambda>es. Inr (es @ ?w es)) = Inr es \<and> grows a es a'
    | (Inl e, a') \<Rightarrow> e = TooManyItems \<and> overflows a (rbind s (\<lambda>es. Inr (es @ ?w es))) \<or>
        rbind s (\<lambda>es. Inr (es @ ?w es)) = Inl e"
  proof (cases r)
    case (Inl e)
    then show ?thesis using assms(1) ok m
      by (auto simp: refines_def thn_eq overflows_def rbind_Inr_iff)
  next
    case (Inr u)
    then obtain es where es: "s = Inr es" "grows a es b"
      using assms(1) ok m by (auto simp: refines_def)
    have "list_all2 item_shows (shown b) es" using es(2) assms(2) by (simp add: grows_def)
    then have h: "list_ex (\<lambda>i. \<not> can_display i) (take (arr_num b) (arr_items b)) = list_ex hidden_entry es"
      using list_ex_shows(1) by (simp add: shown_def)
    have "refines check_tx_lengths b (Inr (?w es))"
      unfolding check_tx_lengths_def
      by (rule refines_reads) (simp only: h, rule refines_only_if_Inr, rule refines_push_plain)
    then have "refines (thn m check_tx_lengths) a (cat s (Inr (?w es)))"
      using es m Inr by (intro refines_thn_run [OF assms(1)]) auto
    then show ?thesis using ok unfolding refines_def es(1) cat_simps rbind_simps by (rule mp)
  qed
qed

lemma pe_fst: "pe (fst l) = rbind (pe (found l)) (\<lambda>_. Inr ())"
  by (cases l; cases "fst l") (simp_all add: found_def)

lemma store_tx_items_refines:
  "case store_tx_items j signer nsigners (items_init a0) of
     (Inr _, a) \<Rightarrow> \<exists>es. tx_review j signer nsigners = Inr es \<and> review_shown a es \<and>
        arr_signer a = signer \<and> arr_nsigners a = nsigners
   | (Inl e, a) \<Rightarrow> tx_review j signer nsigners = Inl e \<or>
        e = TooManyItems \<and> (\<forall>es. tx_review j signer nsigners = Inr es \<longrightarrow> MAX_ITEMS \<le> length es)"
proof -
  let ?b = "(items_init a0) \<lparr> arr_signer := signer, arr_nsigners := nsigners \<rparr>"
  obtain r k where l: "object_get_value j signer ''pubKey'' (arr_key_tok (items_init a0)) = (r, k)"
    by fastforce
  let ?c = "?b \<lparr> arr_key_tok := k \<rparr>"
  have setup_eq: "store_setup j signer nsigners (items_init a0) = (pe r, ?c)"
    using l by (simp add: store_setup_def thn_eq modifies_def)
  have gv: "get_value j signer ''pubKey'' = found (r, k)"
    using l found_out(1) [of j signer "''pubKey''"] by metis
  have ok: "array_ok ?c" "shown ?c = []" "i_token (slot ?c) = 0"
    using items_init_ok [of a0] by (simp_all add: array_ok_def shown_def slot_def)
  show ?thesis
  proof (cases r)
    case (Inl e)
    then have "store_tx_items j signer nsigners (items_init a0) = (Inl ItemError, ?c)"
      unfolding store_tx_items_parts by (subst thn_eq) (simp add: setup_eq)
    then show ?thesis using gv Inl by (simp add: tx_review_def body_review_def)
  next
    case (Inr u)
    have run: "store_tx_items j signer nsigners (items_init a0) =
        thn (store_body j nsigners) check_tx_lengths ?c"
      unfolding store_tx_items_parts by (subst thn_eq) (simp add: setup_eq Inr)
    have "refines (thn (store_body j nsigners) check_tx_lengths) ?c (tx_review j signer nsigners)"
      unfolding tx_review_def
      by (rule refines_check, rule subst [where P = "refines _ _", OF _ refines_body [OF ok(2,3)]])
         (simp_all add: ok body_review_def gv Inr)
    moreover have "arr_num ?c = 0" by (simp add: items_init_def)
    ultimately show ?thesis using ok(1,2) unfolding run
      by (auto simp: refines_def grows_def review_shown_def overflows_def split: prod.splits sum.splits)
  qed
qed

section \<open>Expert mode and transaction hashes\<close>

fun cont_review :: "json \<Rightarrow> nat \<Rightarrow> (item_key \<times> bytes) list \<Rightarrow> review" where
  "cont_review j cont [] = Inr []"
| "cont_review j cont ((key, field) # fs) =
     cat (case get_value j cont field of
            Inl _ \<Rightarrow> Inr []
          | Inr v \<Rightarrow> rbind (if key = KPactId then shown_unescaped j v else plain_integer j v)
              (\<lambda>_. Inr [tok_entry key RStd v]))
         (cont_review j cont fs)"

fun fields_review :: "json \<Rightarrow> nat \<Rightarrow> (item_key \<times> bytes) list \<Rightarrow> entry list" where
  "fields_review j meta [] = []"
| "fields_review j meta ((key, field) # fs) =
     (case get_value j meta field of Inl _ \<Rightarrow> [] | Inr v \<Rightarrow> [tok_entry key RStd v]) @
     fields_review j meta fs"

definition payload_review :: "json \<Rightarrow> review" where
  "payload_review j =
     (case get_value j 0 ''payload'' of
        Inl _ \<Rightarrow> Inr []
      | Inr payload \<Rightarrow>
          if is_ok (get_value j payload ''exec'') then Inr [plain_entry KPayload RExec]
          else (case get_value j payload ''cont'' of
                  Inl _ \<Rightarrow> Inr []
                | Inr cont \<Rightarrow> cat (Inr [plain_entry KPayload RCont])
                    (cont_review j cont [(KPactId, ''pactId''), (KStep, ''step'')])))"

definition expert_meta_review :: "json \<Rightarrow> review" where
  "expert_meta_review j =
     cat (payload_review j)
       (if \<not> is_ok (validate_meta_field j) then Inr []
        else rbind (pe (get_value j 0 ''meta'')) (\<lambda>meta.
          Inr (fields_review j meta [(KCreated, ''creationTime''), (KTtl, ''ttl'')])))"

definition expert_entries :: "entry list" where
  "expert_entries = [plain_entry KTransactionHash RHash, plain_entry KSignForAddress RSignForAddr]"

definition hash_entries :: "entry list" where
  "hash_entries = [plain_entry KWarning RHashWarning, plain_entry KTransactionHash RHash]"

lemma refines_cont: "refines (store_cont_fields j cont fs) a (cont_review j cont fs)"
proof (induction j cont fs arbitrary: a rule: store_cont_fields.induct)
  case (2 j cont key field fs)
  have "refines (case get_value j cont field of Inl _ \<Rightarrow> ret ()
      | Inr v \<Rightarrow> thn (lifts (if key = KPactId then shown_unescaped j v else plain_integer j v))
          (push_at v key RStd)) a
     (case get_value j cont field of Inl _ \<Rightarrow> Inr []
      | Inr v \<Rightarrow> rbind (if key = KPactId then shown_unescaped j v else plain_integer j v)
          (\<lambda>_. Inr [tok_entry key RStd v]))"
    by (cases "get_value j cont field") (auto simp del: if_split intro: refines_thn_lifts)
  then show ?case unfolding store_cont_fields.simps cont_review.simps
    using 2 by (intro refines_thn)
qed simp

lemma refines_fields: "refines (store_meta_fields j meta fs) a (Inr (fields_review j meta fs))"
proof (induction j meta fs arbitrary: a rule: store_meta_fields.induct)
  case (2 j meta key field fs)
  have "refines (case get_value j meta field of Inl _ \<Rightarrow> ret () | Inr v \<Rightarrow> push_at v key RStd) a
     (Inr (case get_value j meta field of Inl _ \<Rightarrow> [] | Inr v \<Rightarrow> [tok_entry key RStd v]))"
    by (cases "get_value j meta field") simp_all
  from refines_thn [OF this, of "store_meta_fields j meta fs" "Inr (fields_review j meta fs)"]
  show ?case using 2 by simp
qed simp

lemma refines_payload: "refines (store_payload_kind j) a (payload_review j)"
  unfolding store_payload_kind_def payload_review_def
  by (cases "get_value j 0 ''payload''"; cases "get_value j (projr (get_value j 0 ''payload'')) ''cont''")
     (auto simp del: store_cont_fields.simps cont_review.simps intro!: refines_thn refines_cont)

lemma refines_expert_meta: "refines (store_expert_meta j) a (expert_meta_review j)"
  unfolding store_expert_meta_def expert_meta_review_def
  by (intro refines_thn refines_payload refines_if refines_ret refines_lifts refines_fields)

lemma refines_expert_items: "refines store_expert_items a (Inr expert_entries)"
  using refines_thn [OF refines_push_plain refines_push_plain]
  unfolding store_expert_items_def expert_entries_def by fastforce

lemma refines_hash_items: "refines store_hash_items a (Inr hash_entries)"
  using refines_thn [OF refines_push_plain refines_push_plain]
  unfolding store_hash_items_def hash_entries_def by fastforce

lemma review_shown_grows: "review_shown a es \<Longrightarrow> grows a fs b \<Longrightarrow> review_shown b (es @ fs)"
  by (auto simp: review_shown_def grows_def intro: list_all2_appendI)

lemma review_shown_init: "review_shown (items_init a) []"
  using items_init_ok [of a] by (simp add: review_shown_def)

section \<open>A review without a blind-signing warning\<close>

text \<open>
  The capabilities the review can show in full: \<open>coin.GAS\<close>, and the two transfers with their exact
  number of arguments and an amount whose text is the amount.
\<close>

definition names_cap :: "json \<Rightarrow> nat \<Rightarrow> bytes \<Rightarrow> bool" where
  "names_cap j cap name \<longleftrightarrow> tok_kind (json_tok j cap) = Object \<and>
     (\<exists>n. get_value j cap ''name'' = Inr n \<and> span j n = name)"

definition verified_transfer :: "json \<Rightarrow> nat \<Rightarrow> nat \<Rightarrow> bool" where
  "verified_transfer j cap n \<longleftrightarrow>
     (\<exists>args. get_value j cap ''args'' = Inr args \<and> get_count j args = Inr n \<and>
        is_ok (check_amount j args))"

definition verified_cap :: "json \<Rightarrow> nat \<Rightarrow> bool" where
  "verified_cap j cap \<longleftrightarrow> names_cap j cap ''coin.GAS'' \<or>
     names_cap j cap ''coin.TRANSFER'' \<and> verified_transfer j cap 3 \<or>
     names_cap j cap ''coin.TRANSFER_XCHAIN'' \<and> verified_transfer j cap 4"

lemma blind_plain [simp]: "blind_entry (plain_entry k r) = blind_render r"
  "blind_entry (tok_entry k r t) = blind_render r"
  by (simp_all add: blind_entry_def plain_entry_def tok_entry_def)

lemma blind_unverified: "list_ex blind_entry (unverified_review j cap nargs args True)"
  by (simp add: unverified_review_def blind_render_def)

lemma get_tx_name_iff:
  "get_tx_name j cap = NameGas \<Longrightarrow> names_cap j cap ''coin.GAS''"
  "get_tx_name j cap = NameTxTransfer \<Longrightarrow> names_cap j cap ''coin.TRANSFER''"
  "get_tx_name j cap = NameTxTransferXchain \<Longrightarrow> names_cap j cap ''coin.TRANSFER_XCHAIN''"
  "get_tx_name j cap = NameRotate \<Longrightarrow> names_cap j cap ''coin.ROTATE''"
  unfolding get_tx_name_def names_cap_def
  by (auto simp: Let_def split: if_splits sum.splits)

lemma cap_review_verified:
  assumes "cap_review j cap = Inr es" "\<not> list_ex blind_entry es"
  shows "verified_cap j cap"
proof (cases "get_tx_name j cap = NameGas")
  case True
  then show ?thesis by (simp add: verified_cap_def get_tx_name_iff)
next
  case False
  then obtain args n where a: "get_value j cap ''args'' = Inr args" "get_count j args = Inr n"
    using assms(1) by (auto simp: cap_review_def rbind_Inr_iff split: if_splits)
  have "get_tx_name j cap = NameTxTransfer \<and> n = 3 \<and> is_ok (check_amount j args) \<or>
      get_tx_name j cap = NameTxTransferXchain \<and> n = 4 \<and> is_ok (check_amount j args)"
    using assms False a blind_unverified [of j cap n args]
    by (auto simp: cap_review_def transfer_review_def cross_review_def rbind_Inr_iff blind_render_def
        split: parser_error.splits if_splits)
  then show ?thesis
    using a get_tx_name_iff [of j cap] by (auto simp: verified_cap_def verified_transfer_def)
qed

lemma caps_review_verified:
  "caps_review j clist is = Inr es \<Longrightarrow> \<not> list_ex blind_entry es \<Longrightarrow> i \<in> set is \<Longrightarrow>
   get_nth j clist i = Inr cap \<Longrightarrow> verified_cap j cap"
  by (induction j clist "is" arbitrary: es rule: caps_review.induct)
     (auto simp: cat_Inr_iff intro: cap_review_verified)

lemma tx_review_parts:
  assumes "tx_review j signer ns = Inr es"
  obtains ts ms where "transfers_review j signer = Inr ts" "meta_review j = Inr ms"
    "meta_has_sender j" "set ts \<subseteq> set es" "set ms \<subseteq> set es" "sublist ts es"
proof -
  from assms obtain bs where b: "body_review j signer ns = Inr bs" "\<exists>w. es = bs @ w"
    by (auto simp: tx_review_def rbind_Inr_iff)
  then obtain key where "cat (Inr [plain_entry KSigning RSigning])
       (cat (network_review j)
       (cat (Inr (if ns > 1 then [plain_entry KSigners RSigners] else []))
       (cat (Inr [plain_entry KRequiring RRequiring])
       (cat (Inr [tok_entry KOfKey RStd key])
       (cat (signer_review j signer key)
       (cat (transfers_review j signer)
       (if meta_has_sender j then meta_review j else Inl ItemInvalidMetaField))))))) = Inr bs"
    by (auto simp: body_review_def rbind_Inr_iff)
  then obtain pre ts ms where "transfers_review j signer = Inr ts" "meta_has_sender j"
    "meta_review j = Inr ms" "bs = pre @ ts @ ms"
    unfolding cat_Inr_iff by (auto split: if_splits)
  moreover obtain w where "es = bs @ w" using b(2) by blast
  ultimately show thesis
    using that [of ts ms] sublist_appendI [of ts pre "ms @ w"] by (simp add: le_supI1 le_supI2)
qed

text \<open>The elements of the capability list, by position.\<close>

lemma elements_nth:
  assumes "json_wf j" "get_count j arr = Inr n" "x \<in> set (array_elements j arr)"
  shows "\<exists>i \<in> set [0..<n]. get_nth j arr i = Inr x"
proof -
  have "map (get_nth j arr) [0..<n] = map Inr (array_elements j arr)"
    using doc.all_elems [OF assms(1,2)] by blast
  then have "Inr x \<in> set (map (get_nth j arr) [0..<n])" using assms(3) by simp
  then show ?thesis by auto
qed

lemma tx_review_verified:
  assumes wf: "json_wf j" and r: "tx_review j signer ns = Inr es" and nb: "\<not> list_ex blind_entry es"
  shows "\<exists>clist. get_value j signer ''clist'' = Inr clist \<and> array_elements j clist \<noteq> [] \<and>
    list_all (verified_cap j) (array_elements j clist) \<and> validate_meta_field j = Inr () \<and>
    meta_has_sender j \<and> \<not> list_ex hidden_entry es"
proof -
  obtain ts ms where p: "transfers_review j signer = Inr ts" "meta_review j = Inr ms"
    "meta_has_sender j" "set ts \<subseteq> set es" "set ms \<subseteq> set es" "sublist ts es"
    using r by (rule tx_review_parts)
  have nbt: "\<not> list_ex blind_entry ts" "\<not> list_ex blind_entry ms"
    using nb p by (auto simp: list_ex_iff)
  from p(1) nbt(1) obtain clist n where c: "get_valid_clist j signer = Inr (clist, n)"
    "caps_review j clist [0..<n] = Inr ts"
    by (auto simp: transfers_review_def blind_render_def split: sum.splits)
  then have cn: "get_count j clist = Inr n" "0 < n" "get_value j signer ''clist'' = Inr clist"
    using get_valid_clist_count by blast+
  have "length (array_elements j clist) = n" using doc.all_elems [OF wf cn(1)] by simp
  moreover have "list_all (verified_cap j) (array_elements j clist)"
    unfolding list_all_iff
    using elements_nth [OF wf cn(1)] caps_review_verified [OF c(2) nbt(1)] by blast
  moreover have "validate_meta_field j = Inr ()"
    using p(2) nbt(2) by (auto simp: meta_review_def blind_render_def is_ok_iff split: if_splits)
  moreover have "\<not> list_ex hidden_entry es"
    using r nb by (auto simp: tx_review_def rbind_Inr_iff blind_render_def split: if_splits)
  ultimately show ?thesis using cn p(3) by auto
qed

text \<open>The capability list of the signer entry, by its elements.\<close>

lemma valid_clist_elements:
  assumes "json_wf j" "get_value j signer ''clist'' = Inr clist" "\<not> is_null j clist" "array_elements j clist \<noteq> []"
  shows "get_valid_clist j signer = Inr (clist, length (array_elements j clist))"
proof -
  have "clist < json_n j" using doc.lookup_InrD [OF assms(1) _ assms(2)] by auto
  then have cn: "get_count j clist = Inr (length (array_elements j clist))"
    using doc.n_elems_length [OF assms(1)] by simp
  obtain u where "object_get_value j signer ''clist'' 0 = (Inr u, clist)"
    using assms(2) unfolding get_value_def
    by (cases "object_get_value j signer ''clist'' 0"; cases "fst (object_get_value j signer ''clist'' 0)") auto
  then show ?thesis using assms(3,4) cn by (simp add: get_valid_clist_def get_valid_clist_out_def)
qed

end
