(* ===== verification/Parser.thy ===== *)
theory Parser
  imports Fee Render Structured_Transfer Items_Props
begin

text \<open>
  The parsed transaction (\<open>parser.rs\<close>): reading the JSON, storing the review items and the
  display hash, rendering one item and validating all of them. The crypto the parser calls, the
  device's address and BLAKE2b, are arguments.
\<close>

section \<open>The display hash\<close>

definition B64_STD :: bytes where
  "B64_STD = ''ABCDEFGHIJKLMNOPQRSTUVWXYZabcdefghijklmnopqrstuvwxyz0123456789+/''"

text \<open>\<open>base64_32\<close>: ten groups of three bytes, then the last two and one \<open>=\<close>.\<close>

fun base64_groups :: "bytes \<Rightarrow> bytes" where
  "base64_groups (a # b # c # r) =
     (let v = byte_val a * 65536 + byte_val b * 256 + byte_val c in
      [B64_STD ! (v div 262144 mod 64), B64_STD ! (v div 4096 mod 64),
       B64_STD ! (v div 64 mod 64), B64_STD ! (v mod 64)] @ base64_groups r)"
| "base64_groups [a, b] =
     (let v = byte_val a * 65536 + byte_val b * 256 in
      [B64_STD ! (v div 262144 mod 64), B64_STD ! (v div 4096 mod 64),
       B64_STD ! (v div 64 mod 64), CHR ''='']) "
| "base64_groups _ = []"

definition base64_32 :: "bytes \<Rightarrow> bytes" where
  "base64_32 d = base64_groups d"

text \<open>The URL-safe alphabet.\<close>

definition url_safe :: "byte \<Rightarrow> byte" where
  "url_safe c = (if c = CHR ''+'' then CHR ''-'' else if c = CHR ''/'' then CHR ''_'' else c)"

section \<open>The parsed transaction\<close>

text \<open>The token capacity, by device: Nano X, or any other.\<close>

definition MAX_TOKENS :: "bool \<Rightarrow> nat" where
  "MAX_TOKENS nanox = (if nanox then 110 else 768)"

text \<open>On every device it is what the theorems ask of \<open>cap\<close>: below the marker of an open token, and enough for a template.\<close>

lemma max_tokens_enough: "57 \<le> MAX_TOKENS nanox \<and> MAX_TOKENS nanox < UNSET"
  by (simp add: MAX_TOKENS_def UNSET_def)

definition HASH_LEN :: nat where "HASH_LEN = 32"

record parsed =
  p_tokens :: "token list"
  json_len :: nat
  p_items :: item_array
  b64 :: bytes
  p_tx_type :: tx_type

definition parsed_new :: parsed where
  "parsed_new = \<lparr> p_tokens = [], json_len = 0, p_items = items_new, b64 = replicate 44 NUL,
     p_tx_type = TxJson \<rparr>"

type_synonym 'a parse = "(parsed, parser_error, 'a) prog"

text \<open>\<open>Parsed::json\<close>: the tokens over \<open>&buf[..json_len.min(buf.len())]\<close>.\<close>

definition parsed_json :: "parsed \<Rightarrow> bytes \<Rightarrow> json" where
  "parsed_json ps bs = \<lparr> buf = take (json_len ps) bs, tokens = p_tokens ps \<rparr>"

definition is_json_space :: "byte \<Rightarrow> bool" where
  "is_json_space b \<longleftrightarrow> b = CHR '' '' \<or> b = CHR 0x09 \<or> b = CHR 0x0A \<or> b = CHR 0x0D"

text \<open>\<open>read_json\<close>: \<open>cap\<close> is the number of tokens the build has room for.\<close>

definition read_json :: "nat \<Rightarrow> bytes \<Rightarrow> unit parse" where
  "read_json cap bs ps =
     (let ps1 = ps \<lparr> p_tokens := [], json_len := length bs \<rparr> in
      if NUL \<in> set bs then (Inl UnexpectedCharacters, ps1)
      else (case parse_strict cap bs of
              Inl NoMem \<Rightarrow> (Inl JsonTooManyTokens, ps1)
            | Inl Inval \<Rightarrow> (Inl UnexpectedCharacters, ps1)
            | Inl Part \<Rightarrow> (Inl JsonIncompleteJson, ps1)
            | Inr (ts, n) \<Rightarrow>
                if n = 0 then (Inl JsonZeroTokens, ps1)
                else (let ps2 = ps1 \<lparr> p_tokens := take n ts \<rparr>;
                          root = (if ts = [] then EMPTY_TOKEN else hd ts);
                          root_end = tok_end root + (if tok_kind root = StringTok then 1 else 0)
                      in if \<not> list_all is_json_space (drop root_end bs)
                         then (Inl UnexpectedUnparsedBytes, ps2)
                         else (check_key_integrity (parsed_json ps2 bs), ps2))))"

text \<open>A store operation on the items of the parsed transaction, its error mapped.\<close>

definition on_items :: "unit store \<Rightarrow> unit parse" where
  "on_items m ps = (let (r, a) = m (p_items ps) in (items_to_parser r, ps \<lparr> p_items := a \<rparr>))"

text \<open>\<open>store_items\<close>: \<open>json_bs\<close> is the JSON that was tokenized, \<open>hash_input\<close> the raw hash.\<close>

definition store_json_items :: "bytes option \<Rightarrow> bytes \<Rightarrow> unit parse" where
  "store_json_items address json_bs ps =
     (let j = parsed_json ps json_bs in
      if is_ok (get_value j 0 ''verifiers'') then (Inl UnexpectedValue, ps)
      else (case address of
              None \<Rightarrow> (Inl UnexpectedError, ps)
            | Some pk \<Rightarrow>
                (case find_device_signer j (hex_lower pk) of
                   Inl e \<Rightarrow> (Inl e, ps)
                 | Inr (signer, nsigners) \<Rightarrow> on_items (store_tx_items j signer nsigners) ps)))"

definition compute_hash :: "(bytes \<Rightarrow> bytes option) \<Rightarrow> tx_type \<Rightarrow> bytes \<Rightarrow> bytes option \<Rightarrow> unit parse" where
  "compute_hash blake2b ty json_bs hash_input ps =
     (case (if ty = TxHash then ok_or UnexpectedError hash_input
            else ok_or UnexpectedError (blake2b (take (json_len ps) json_bs))) of
        Inl e \<Rightarrow> (Inl e, ps)
      | Inr digest \<Rightarrow> (Inr (), ps \<lparr> b64 := map url_safe (base64_32 digest) \<rparr>))"

definition store_expert :: "tx_type \<Rightarrow> bytes \<Rightarrow> unit parse" where
  "store_expert ty json_bs =
     thn (\<lambda>ps. if ty \<noteq> TxHash then on_items (store_expert_meta (parsed_json ps json_bs)) ps
               else (Inr (), ps))
         (on_items store_expert_items)"

definition store_items ::
  "bytes option \<Rightarrow> (bytes \<Rightarrow> bytes option) \<Rightarrow> tx_type \<Rightarrow> bytes \<Rightarrow> bytes option \<Rightarrow> bool \<Rightarrow> unit parse" where
  "store_items address blake2b ty json_bs hash_input expert =
     thn (modifies (\<lambda>ps. ps \<lparr> p_tx_type := ty, p_items := items_init (p_items ps) \<rparr>))
     (thn (if ty \<noteq> TxHash then store_json_items address json_bs else on_items store_hash_items)
     (thn (compute_hash blake2b ty json_bs hash_input)
     (if expert then store_expert ty json_bs else ret ())))"

definition num_items :: "parsed \<Rightarrow> nat" where
  "num_items ps = arr_num (p_items ps)"

text \<open>\<open>Parsed::item\<close>: title and value of one item.\<close>

definition parsed_item :: "parsed \<Rightarrow> bytes option \<Rightarrow> bytes \<Rightarrow> nat \<Rightarrow> items_error + (bytes \<times> bytes)" where
  "parsed_item ps address json_bs idx =
     (if idx \<ge> num_items ps then Inl ItemError
      else rbind (render (p_items ps) (parsed_json ps json_bs) (b64 ps) address idx)
        (\<lambda>v. Inr (title (p_items ps) idx, v)))"

fun validate_from :: "parsed \<Rightarrow> bytes option \<Rightarrow> bytes \<Rightarrow> nat list \<Rightarrow> parser_error + unit" where
  "validate_from ps address json_bs [] = Inr ()"
| "validate_from ps address json_bs (i # is) =
     rbind (map_err (\<lambda>_. UnexpectedError) (parsed_item ps address json_bs i))
       (\<lambda>_. validate_from ps address json_bs is)"

definition validate :: "parsed \<Rightarrow> bytes option \<Rightarrow> bytes \<Rightarrow> parser_error + unit" where
  "validate ps address json_bs = validate_from ps address json_bs [0..<num_items ps]"

section \<open>Reading covers the whole buffer\<close>

lemma read_json_InrD:
  assumes "read_json cap bs ps = (Inr (), ps')" "length bs < UNSET" "cap < UNSET"
  shows "parsed_json ps' bs = \<lparr> buf = bs, tokens = p_tokens ps' \<rparr> \<and> json_len ps' = length bs \<and>
    parse_strict cap bs = Inr (p_tokens ps', length (p_tokens ps')) \<and> p_tokens ps' \<noteq> [] \<and>
    json_wf (parsed_json ps' bs) \<and> check_key_integrity (parsed_json ps' bs) = Inr () \<and>
    NUL \<notin> set bs \<and> length (p_tokens ps') \<le> cap \<and>
    list_all is_json_space (drop (tok_end (hd (p_tokens ps')) +
      (if tok_kind (hd (p_tokens ps')) = StringTok then 1 else 0)) bs)"
proof -
  obtain ts n where p: "parse_strict cap bs = Inr (ts, n)" "NUL \<notin> set bs" "n \<noteq> 0"
    using assms(1) by (auto simp: read_json_def Let_def split: if_splits sum.splits jsmn_error.splits)
  then have wf: "tokens_wf (length bs) ts" "n = length ts" "length ts \<le> cap"
    using parse_impl_wf [of True cap bs ts n] assms(2) by (simp_all add: parse_strict_def)
  have ts: "ts \<noteq> []" using p(3) wf(2) by auto
  have ps': "ps' = ps \<lparr> json_len := length bs, p_tokens := ts \<rparr>"
    and i: "check_key_integrity \<lparr> buf = bs, tokens = ts \<rparr> = Inr ()"
    and sp: "list_all is_json_space (drop (tok_end (hd ts) + (if tok_kind (hd ts) = StringTok then 1 else 0)) bs)"
    using assms(1) p wf(2) ts
    by (auto simp: read_json_def Let_def parsed_json_def split: if_splits)
  have "length ts < UNSET" using wf(3) assms(3) by simp
  then show ?thesis using p wf ts i sp assms(2)
    by (simp add: ps' parsed_json_def json_wf_def)
qed

end
