(* ===== verification/Checks_Props.thy ===== *)
theory Checks_Props
  imports Review_Checks
begin

text \<open>
  What the checks of \<open>Review_Checks\<close> establish: the amount grammar, the one signer entry that names
  the device key, and the keys of a recognised \<open>meta\<close>.
\<close>

section \<open>Amounts\<close>

definition amount_text :: "bytes \<Rightarrow> bool" where
  "amount_text v \<longleftrightarrow> (\<exists>i. all_digits i \<and> (i = ''0'' \<or> hd i \<noteq> CHR ''0'') \<and>
     (v = i \<or> (\<exists>f. v = i @ CHR ''.'' # f \<and> all_digits f \<and> length f \<le> AMOUNT_PRECISION)))"

lemma all_digits_no_dot: "all_digits i \<Longrightarrow> CHR ''.'' \<notin> set i"
  by (auto simp: all_digits_def list_all_iff)

lemma is_amount_whole: "all_digits i \<Longrightarrow> is_amount i \<longleftrightarrow> i = ''0'' \<or> hd i \<noteq> CHR ''0''"
proof -
  assume i: "all_digits i"
  then have "takeWhile (\<lambda>b. b \<noteq> CHR ''.'') i = i"
    using all_digits_no_dot by (auto simp: takeWhile_eq_all_conv)
  then show ?thesis using i all_digits_no_dot [OF i] by (simp add: is_amount_def Let_def del: takeWhile_eq_all_conv)
qed

lemma is_amount_dot:
  assumes "CHR ''.'' \<notin> set i"
  shows "is_amount (i @ CHR ''.'' # f) \<longleftrightarrow> all_digits i \<and> (i = ''0'' \<or> hd i \<noteq> CHR ''0'') \<and>
    all_digits f \<and> length f \<le> AMOUNT_PRECISION"
proof -
  have "takeWhile (\<lambda>b. b \<noteq> CHR ''.'') (i @ CHR ''.'' # f) = i"
    using assms by (simp add: takeWhile_append)
  moreover have "drop (Suc (length i)) (i @ CHR ''.'' # f) = f" by simp
  ultimately show ?thesis unfolding is_amount_def Let_def by simp
qed

lemma is_amount_iff: "is_amount v \<longleftrightarrow> amount_text v"
proof (cases "CHR ''.'' \<in> set v")
  case True
  then obtain i f where v: "v = i @ CHR ''.'' # f" "CHR ''.'' \<notin> set i"
    by (metis split_list_first)
  have "amount_text v \<longleftrightarrow> all_digits i \<and> (i = ''0'' \<or> hd i \<noteq> CHR ''0'') \<and>
      all_digits f \<and> length f \<le> AMOUNT_PRECISION"
  proof
    assume "amount_text v"
    then obtain k where k: "all_digits k" "k = ''0'' \<or> hd k \<noteq> CHR ''0''"
      "v = k \<or> (\<exists>f. v = k @ CHR ''.'' # f \<and> all_digits f \<and> length f \<le> AMOUNT_PRECISION)"
      by (auto simp: amount_text_def)
    then obtain g where g: "v = k @ CHR ''.'' # g" "all_digits g" "length g \<le> AMOUNT_PRECISION"
      using True all_digits_no_dot by blast
    then have "k = i \<and> g = f"
      using v all_digits_no_dot [OF k(1)] first_split_unique [of i "CHR ''.''" f k g] by simp
    then show "all_digits i \<and> (i = ''0'' \<or> hd i \<noteq> CHR ''0'') \<and> all_digits f \<and> length f \<le> AMOUNT_PRECISION"
      using k g by simp
  qed (use v in \<open>auto simp: amount_text_def\<close>)
  then show ?thesis using is_amount_dot [OF v(2)] v(1) by simp
next
  case False
  then have "takeWhile (\<lambda>b. b \<noteq> CHR ''.'') v = v" by (auto simp: takeWhile_eq_all_conv)
  then have "is_amount v \<Longrightarrow> all_digits v" using False by (simp add: is_amount_def Let_def)
  then show ?thesis using False is_amount_whole [of v] by (auto simp: amount_text_def)
qed

lemma check_amount_InrD:
  assumes "check_amount j args = Inr t"
  shows "amount_text (span j t) \<and>
     (\<exists>a. get_nth j args 2 = Inr a \<and>
        (tok_kind (json_tok j a) = Primitive \<and> t = a \<or>
         tok_kind (json_tok j a) = Object \<and> tok_kind (json_tok j t) = StringTok \<and>
         found (object_get_element_count j a) = Inr 1 \<and>
         found (object_get_nth_value j a 0 0) = Inr t))"
proof -
  from assms obtain a where a: "get_nth j args 2 = Inr a"
    by (auto simp: check_amount_def rbind_Inr_iff)
  show ?thesis using assms a
    by (cases "tok_kind (json_tok j a)")
       (auto simp: check_amount_def rbind_Inr_iff is_amount_iff split: if_splits)
qed

section \<open>The signer entry of the device\<close>

definition names_key :: "json \<Rightarrow> bytes \<Rightarrow> nat \<Rightarrow> bool" where
  "names_key j hex ent \<longleftrightarrow> tok_kind (json_tok j ent) = Object \<and>
     (\<exists>field \<in> {''pubKey'', ''addr''}. \<exists>v. get_value j ent field = Inr v \<and>
        eq_ignore_ascii_case (span j v) hex)"

text \<open>No escape hides a key in an entry.\<close>

definition key_fields_plain :: "json \<Rightarrow> nat \<Rightarrow> bool" where
  "key_fields_plain j ent \<longleftrightarrow> (\<forall>field \<in> {''pubKey'', ''addr''}. \<forall>v.
     get_value j ent field = Inr v \<longrightarrow> CHR 0x5C \<notin> set (span j v))"

lemma names_field_InrD:
  "names_field j hex ent field = Inr b \<Longrightarrow>
   (b \<longleftrightarrow> (\<exists>v. get_value j ent field = Inr v \<and> eq_ignore_ascii_case (span j v) hex)) \<and>
   (\<forall>v. get_value j ent field = Inr v \<longrightarrow> CHR 0x5C \<notin> set (span j v))"
  by (auto simp: names_field_def split: sum.splits if_splits)

lemma names_device_InrD:
  assumes "names_device j hex ent = Inr b" "tok_kind (json_tok j ent) = Object"
  shows "b = names_key j hex ent \<and> key_fields_plain j ent"
proof -
  obtain x y where "names_field j hex ent ''pubKey'' = Inr x" "names_field j hex ent ''addr'' = Inr y"
    "b = (x \<or> y)"
    using assms(1) by (auto simp: names_device_def rbind_Inr_iff)
  then show ?thesis
    using names_field_InrD [of j hex ent "''pubKey''" x] names_field_InrD [of j hex ent "''addr''" y] assms(2)
    unfolding names_key_def key_fields_plain_def by blast
qed

lemma scan_signers_InrD:
  "scan_signers j hex sg is acc = Inr r \<Longrightarrow> map (get_nth j sg) is = map Inr ents \<Longrightarrow>
   r = (let fs = filter (names_key j hex) ents in
     (if fs = [] then fst acc else Some (last fs), snd acc + length fs)) \<and>
   list_all (\<lambda>e. tok_kind (json_tok j e) = Object \<longrightarrow> key_fields_plain j e) ents"
proof (induction j hex sg "is" acc arbitrary: ents rule: scan_signers.induct)
  case (1 j hex sg acc)
  then show ?case by simp
next
  case (2 j hex sg i "is" acc)
  then obtain e es where ents: "ents = e # es" "get_nth j sg i = Inr e" "map (get_nth j sg) is = map Inr es"
    by (cases ents) auto
  show ?case
  proof (cases "tok_kind (json_tok j e) = Object")
    case False
    then show ?thesis using 2(1) [OF _ _ ents(3)] 2(3) ents by (simp add: names_key_def)
  next
    case True
    then obtain b where b: "names_device j hex e = Inr b"
      "scan_signers j hex sg is (if b then (Some e, Suc (snd acc)) else acc) = Inr r"
      using 2(3) ents(2) by (auto simp: rbind_Inr_iff)
    then have nk: "b = names_key j hex e" "key_fields_plain j e"
      using names_device_InrD True by blast+
    show ?thesis using 2(2) [OF _ b(2) ents(3)] True ents nk by (auto simp: Let_def)
  qed
qed

lemma find_device_signer_InrD:
  assumes wf: "json_wf j" and f: "find_device_signer j hex = Inr (e, n)"
  shows "\<exists>sg. get_value j 0 ''signers'' = Inr sg \<and> tok_kind (json_tok j sg) = Array \<and>
    n = length (array_elements j sg) \<and> filter (names_key j hex) (array_elements j sg) = [e] \<and>
    list_all (\<lambda>x. tok_kind (json_tok j x) = Object \<longrightarrow> key_fields_plain j x) (array_elements j sg) \<and>
    (\<exists>pk. get_value j e ''pubKey'' = Inr pk \<and> tok_kind (json_tok j pk) = StringTok \<and> span j pk = hex)"
proof -
  from f obtain sg m r where sg: "get_value j 0 ''signers'' = Inr sg" "tok_kind (json_tok j sg) = Array"
    "get_count j sg = Inr n" "scan_signers j hex sg [0..<n] (None, 0) = Inr (r, m)"
    and r: "(if m = 1 then ok_or SignerRepeated r
              else if m = 0 then Inl SignerNotFound else Inl SignerRepeated) = Inr e"
    and pk: "\<exists>pk. get_value j e ''pubKey'' = Inr pk \<and> tok_kind (json_tok j pk) = StringTok \<and> span j pk = hex"
    unfolding find_device_signer_def by (auto simp: rbind_Inr_iff split: if_splits)
  let ?es = "array_elements j sg"
  have es: "map (get_nth j sg) [0..<n] = map Inr ?es" "n = length ?es"
    using doc.all_elems [OF wf sg(3)] by blast+
  note s = scan_signers_InrD [OF sg(4) es(1)]
  have "m = 1" "r = Some e" using r by (auto split: if_splits)
  then have "length (filter (names_key j hex) ?es) = 1" "last (filter (names_key j hex) ?es) = e"
    using s by (auto simp: Let_def split: if_splits)
  then have "filter (names_key j hex) ?es = [e]"
    by (cases "filter (names_key j hex) ?es") auto
  then show ?thesis using sg es pk s by blast
qed

section \<open>A recognised \<open>meta\<close>\<close>

text \<open>The bit set after the positions \<open>ps\<close>.\<close>

definition bits_of :: "nat list \<Rightarrow> 8 word" where
  "bits_of ps = foldl (\<lambda>w p. or w (push_bit p 1)) 0 ps"

lemma bits_of_snoc: "bits_of (ps @ [p]) = or (bits_of ps) (push_bit p 1)"
  by (simp add: bits_of_def)

lemma bit_bits_of: "i < 8 \<Longrightarrow> bit (bits_of ps) i \<longleftrightarrow> i \<in> set ps"
  by (induction ps rule: rev_induct)
     (auto simp: bits_of_snoc bit_simps bits_of_def)

lemma and_push_bit_zero:
  "p < 8 \<Longrightarrow> and (w :: 8 word) (push_bit p 1) = 0 \<longleftrightarrow> \<not> bit w p"
  by (subst bit_eq_iff) (auto simp: bit_simps)

lemma position_from_SomeD:
  "position_from i ks name = Some p \<Longrightarrow> i \<le> p \<and> p < i + length ks \<and> ks ! (p - i) = name"
  by (induction i ks name rule: position_from.induct) (auto split: if_splits simp: nth_Cons')

lemma keyword_position:
  "position_from 0 META_KEYWORDS name = Some p \<Longrightarrow> p < 6 \<and> META_KEYWORDS ! p = name"
  using position_from_SomeD [of 0 META_KEYWORDS name p] by (simp add: META_KEYWORDS_def)

lemma meta_keys_InrD:
  assumes "meta_keys j meta is (bits_of ps) = Inr w" "list_all (\<lambda>p. p < 6) ps" "distinct ps"
  shows "\<exists>qs. w = bits_of (ps @ qs) \<and> distinct (ps @ qs) \<and> list_all (\<lambda>p. p < 6) qs \<and>
    map (\<lambda>i. span j (snd (object_get_nth_key j meta i))) is = map (\<lambda>p. META_KEYWORDS ! p) qs"
  using assms
proof (induction "is" arbitrary: ps)
  case Nil
  then show ?case by (intro exI [of _ "[]"]) simp
next
  case (Cons i "is")
  then obtain p where p: "position_from 0 META_KEYWORDS (span j (snd (object_get_nth_key j meta i))) = Some p"
    "and (bits_of ps) (push_bit p 1) = 0" "meta_keys j meta is (bits_of (ps @ [p])) = Inr w"
    by (auto simp: Let_def bits_of_snoc split: if_splits option.splits)
  note kp = keyword_position [OF p(1)]
  then have "p \<notin> set ps" using p(2) and_push_bit_zero [of p] bit_bits_of [of p] by simp
  then obtain qs where "w = bits_of ((ps @ [p]) @ qs)" "distinct ((ps @ [p]) @ qs)" "list_all (\<lambda>p. p < 6) qs"
    "map (\<lambda>i. span j (snd (object_get_nth_key j meta i))) is = map (\<lambda>p. META_KEYWORDS ! p) qs"
    using Cons.IH [OF p(3)] Cons.prems kp by auto
  then show ?case using kp by (intro exI [of _ "p # qs"]) simp
qed

lemma prefix_words: "list_all (\<lambda>n. and (word_of_nat n :: 8 word) (word_of_nat n + 1) = 0 \<longrightarrow>
    list_ex (\<lambda>k. list_all (\<lambda>i. bit (word_of_nat n :: 8 word) i = (i < k)) [0..<8]) [0..<7]) [0..<64]"
  by code_simp

lemma small_word:
  assumes "\<And>i. i < 8 \<Longrightarrow> bit (w :: 8 word) i \<Longrightarrow> i < 6"
  shows "unat w < 64"
proof -
  have "take_bit 6 w = w"
    by (subst bit_eq_iff) (use assms in \<open>auto simp: bit_simps\<close>)
  then have "unat w = unat (take_bit 6 w)" by simp
  also have "\<dots> < 2 ^ 6" using take_bit_nat_less_exp [of 6 "unat w"] by (simp add: unsigned_take_bit_eq)
  finally show ?thesis by simp
qed

lemma prefix_set:
  assumes "and (bits_of qs) (bits_of qs + 1) = 0" "list_all (\<lambda>p. p < 6) qs"
  shows "\<exists>k \<le> 6. set qs = {..<k}"
proof -
  let ?w = "bits_of qs"
  have small: "unat ?w < 64"
    by (rule small_word) (use assms(2) bit_bits_of [of _ qs] in \<open>auto simp: list_all_iff\<close>)
  then have "list_ex (\<lambda>k. list_all (\<lambda>i. bit ?w i = (i < k)) [0..<8]) [0..<7]"
    using prefix_words [unfolded list_all_iff [where xs = "[0..<64]"], rule_format, of "unat ?w"]
      assms(1) by simp
  then obtain k where k: "k < 7" "\<And>i. i < 8 \<Longrightarrow> i \<in> set qs \<longleftrightarrow> i < k"
    unfolding list_ex_iff list_all_iff using bit_bits_of [of _ qs] by auto
  have "i \<in> set qs \<longleftrightarrow> i < k" for i
    using k assms(2) by (cases "i < 8") (auto simp: list_all_iff)
  then show ?thesis using k(1) by (intro exI [of _ k]) auto
qed

text \<open>
  The keys of a recognised \<open>meta\<close> are the first \<open>k\<close> keywords in some order, each once.
\<close>

definition meta_key_spans :: "json \<Rightarrow> nat \<Rightarrow> bytes list" where
  "meta_key_spans j meta = map (span j) (object_keys j meta)"

lemma validate_meta_InrD:
  assumes wf: "json_wf j" and v: "validate_meta_field j = Inr ()"
  shows "\<exists>meta. get_value j 0 ''meta'' = Inr meta \<and> tok_kind (json_tok j meta) = Object \<and>
    distinct (meta_key_spans j meta) \<and>
    (\<exists>k \<le> 6. set (meta_key_spans j meta) = set (take k META_KEYWORDS))"
proof -
  from v obtain meta n w where m: "get_value j 0 ''meta'' = Inr meta"
    "tok_kind (json_tok j meta) = Object" "found (object_get_element_count j meta) = Inr n"
    "meta_keys j meta [0..<n] (bits_of []) = Inr w" "and w (w + 1) = 0"
    by (auto simp: validate_meta_field_def rbind_Inr_iff bits_of_def split: if_splits)
  from meta_keys_InrD [OF m(4)] obtain qs where q: "w = bits_of qs" "distinct qs"
    "list_all (\<lambda>p. p < 6) qs"
    "map (\<lambda>i. span j (snd (object_get_nth_key j meta i))) [0..<n] = map (\<lambda>p. META_KEYWORDS ! p) qs"
    by auto
  obtain k where k: "k \<le> 6" "set qs = {..<k}" using prefix_set m(5) q(1,3) by blast
  have n: "n = length (object_keys j meta)" "meta < json_n j"
    using get_member_count_eq [OF wf, of meta] m(3) by (auto split: if_splits)
  have "snd (object_get_nth_key j meta i) = object_keys j meta ! i" if "i < n" for i
    using get_nth_key_eq [OF wf, of meta i] that n by (cases "object_get_nth_key j meta i") (auto simp: found_def rbind_Inr_iff)
  then have spans: "meta_key_spans j meta = map (\<lambda>p. META_KEYWORDS ! p) qs"
    unfolding q(4) [symmetric] meta_key_spans_def using n by (intro nth_equalityI) auto
  have "inj_on ((!) META_KEYWORDS) {..<6}"
    by (rule inj_on_nth) (simp_all add: META_KEYWORDS_def)
  then have "distinct (meta_key_spans j meta)"
    unfolding spans distinct_map using q(2,3) by (auto simp: list_all_iff intro: inj_on_subset)
  moreover have "set (meta_key_spans j meta) = set (take k META_KEYWORDS)"
    unfolding spans set_map k(2) lessThan_atLeast0
    by (rule nth_image) (use k(1) in \<open>simp add: META_KEYWORDS_def\<close>)
  ultimately show ?thesis using m k(1) by blast
qed

end
