(* ===== verification/Parser_Props.thy ===== *)
theory Parser_Props
  imports Parser Checks_Props
begin

text \<open>
  What a parse establishes: the stored review is the specification's, the display hash determines
  the digest, and a validated review renders whole.
\<close>

section \<open>The display hash determines the digest\<close>

lemma base64_groups_length: "length d mod 3 = 2 \<Longrightarrow> length (base64_groups d) = 4 * (length d div 3 + 1)"
  by (induction d rule: base64_groups.induct) (auto simp: Let_def)

lemma base64_32_length: "length d = 32 \<Longrightarrow> length (base64_32 d) = 44"
  by (simp add: base64_32_def base64_groups_length)

lemma b64_std: "length B64_STD = 64" "distinct B64_STD" "distinct (map url_safe B64_STD)"
  by code_simp+

definition b64_char :: "nat \<Rightarrow> byte" where
  "b64_char i = url_safe (B64_STD ! i)"

lemma b64_char_inj: "i < 64 \<Longrightarrow> k < 64 \<Longrightarrow> b64_char i = b64_char k \<longleftrightarrow> i = k"
  using nth_eq_iff_index_eq [OF b64_std(3), of i k] by (simp add: b64_char_def b64_std(1))

lemma sextets: "v div 262144 mod 64 * 262144 + v div 4096 mod 64 * 4096 + v div 64 mod 64 * 64 + v mod 64 = (v::nat)"
  if "v < 16777216"
proof -
  have "v div 262144 < 64" using that by (simp add: div_less_iff_less_mult)
  then have a: "v div 262144 mod 64 = v div 262144" by simp
  have "v div 4096 = v div 262144 * 64 + v div 4096 mod 64"
    using div_mult_mod_eq [of "v div 4096" 64] by (simp add: div_mult2_eq [symmetric])
  moreover have "v div 64 = v div 4096 * 64 + v div 64 mod 64"
    using div_mult_mod_eq [of "v div 64" 64] by (simp add: div_mult2_eq [symmetric])
  moreover have "v = v div 64 * 64 + v mod 64" by simp
  ultimately show ?thesis using a by linarith
qed

text \<open>The 24 bits of three bytes, and their four characters.\<close>

definition bits24 :: "byte \<Rightarrow> byte \<Rightarrow> nat \<Rightarrow> nat" where
  "bits24 a b c = byte_val a * 65536 + byte_val b * 256 + c"

definition quad :: "nat \<Rightarrow> bytes" where
  "quad v = [B64_STD ! (v div 262144 mod 64), B64_STD ! (v div 4096 mod 64),
     B64_STD ! (v div 64 mod 64), B64_STD ! (v mod 64)]"

lemma bits24_less: "c < 256 \<Longrightarrow> bits24 a b c < 16777216"
  using byte_val_less [of a] byte_val_less [of b] unfolding bits24_def by linarith

lemma bytes_of_word:
  assumes "x * 256 + y = x' * 256 + (y'::nat)" "y < 256" "y' < 256"
  shows "x = x' \<and> y = y'"
proof -
  have "(x * 256 + y) div 256 = x" "(x' * 256 + y') div 256 = x'"
    "(x * 256 + y) mod 256 = y" "(x' * 256 + y') mod 256 = y'"
    using assms(2,3) by simp_all
  then show ?thesis using assms(1) by metis
qed

lemma bits24_inj: "bits24 a b c = bits24 a' b' c' \<Longrightarrow> c < 256 \<Longrightarrow> c' < 256 \<Longrightarrow> a = a' \<and> b = b' \<and> c = c'"
  using bytes_of_word [of "byte_val a * 256 + byte_val b" c "byte_val a' * 256 + byte_val b'" c']
    bytes_of_word [of "byte_val a" "byte_val b" "byte_val a'" "byte_val b'"]
  by (simp add: bits24_def byte_val_inj)

lemma quad_inj:
  assumes "map url_safe (quad v) = map url_safe (quad w)" "v < 16777216" "w < 16777216"
  shows "v = w"
proof -
  have "v div 262144 mod 64 = w div 262144 mod 64" "v div 4096 mod 64 = w div 4096 mod 64"
    "v div 64 mod 64 = w div 64 mod 64" "v mod 64 = w mod 64"
    using assms(1) unfolding quad_def list.map list.inject b64_char_def [symmetric]
    by (simp_all only: b64_char_inj mod_less_divisor zero_less_numeral)
  then show ?thesis using sextets [OF assms(2)] sextets [OF assms(3)] by metis
qed

lemma base64_groups_quad:
  "base64_groups (a # b # c # r) = quad (bits24 a b (byte_val c)) @ base64_groups r"
  "base64_groups [a, b] = butlast (quad (bits24 a b 0)) @ [CHR ''='']"
  by (simp_all add: quad_def bits24_def Let_def)

lemma quad_last: "bits24 a b 0 mod 64 = 0"
  unfolding bits24_def by presburger

lemma quad_butlast_inj:
  assumes "map url_safe (butlast (quad (bits24 a b 0))) = map url_safe (butlast (quad (bits24 a' b' 0)))"
  shows "a = a' \<and> b = b'"
proof -
  have "quad v = butlast (quad v) @ [B64_STD ! (v mod 64)]" for v by (simp add: quad_def)
  then have "map url_safe (quad (bits24 a b 0)) = map url_safe (quad (bits24 a' b' 0))"
    using assms quad_last by (metis map_append)
  then show ?thesis using quad_inj bits24_less bits24_inj by (metis zero_less_numeral)
qed

lemma length_quad [simp]: "length (quad v) = 4" "length (butlast (quad v)) = 3"
  by (simp_all add: quad_def)

lemma base64_groups_inj:
  "length d = length d' \<Longrightarrow> map url_safe (base64_groups d) = map url_safe (base64_groups d') \<Longrightarrow>
   length d mod 3 = 2 \<Longrightarrow> d = d'"
proof (induction d arbitrary: d' rule: base64_groups.induct)
  case (1 a b c r)
  obtain a' b' c' r' where d': "d' = a' # b' # c' # r'"
    using 1(2) by (auto simp: length_Suc_conv Suc_length_conv)
  have "map url_safe (quad (bits24 a b (byte_val c))) = map url_safe (quad (bits24 a' b' (byte_val c')))"
    and r: "map url_safe (base64_groups r) = map url_safe (base64_groups r')"
    using 1(3) unfolding d' base64_groups_quad(1) map_append by (simp_all add: append_eq_append_conv)
  then have "bits24 a b (byte_val c) = bits24 a' b' (byte_val c')"
    by (intro quad_inj bits24_less byte_val_less)
  then have "a = a' \<and> b = b' \<and> c = c'"
    using bits24_inj byte_val_less byte_val_inj by metis
  moreover have "length r mod 3 = 2" using 1(4) by (simp add: mod_Suc split: if_splits)
  ultimately show ?case using 1(1) [of _ r'] 1(2) r by (simp add: d')
next
  case (2 a b)
  obtain a' b' where d': "d' = [a', b']" using 2(1) by (auto simp: length_Suc_conv Suc_length_conv)
  have "map url_safe (butlast (quad (bits24 a b 0))) = map url_safe (butlast (quad (bits24 a' b' 0)))"
    using 2(2) unfolding d' base64_groups_quad(2) map_append by (simp add: append_eq_append_conv)
  then show ?case using quad_butlast_inj d' by blast
qed simp_all

text \<open>The 43 characters shown.\<close>

definition shown_hash :: "bytes \<Rightarrow> bytes" where
  "shown_hash digest = take 43 (map url_safe (base64_32 digest))"

lemma base64_groups_last: "length d mod 3 = 2 \<Longrightarrow> base64_groups d = butlast (base64_groups d) @ [CHR ''='']"
proof (induction d rule: base64_groups.induct)
  case (1 a b c r)
  then have m: "length r mod 3 = 2" by (simp add: mod_Suc split: if_splits)
  then have "base64_groups r \<noteq> []" using base64_groups_length [OF m] by auto
  then show ?case using 1(1) [OF _ m] unfolding base64_groups_quad(1) butlast_append by simp
qed (simp_all add: Let_def)

text \<open>No two digests show the same text.\<close>

lemma shown_hash_inj:
  assumes "length d = 32" "length d' = 32" "shown_hash d = shown_hash d'"
  shows "d = d'"
proof -
  have take43: "map url_safe (base64_32 x) = shown_hash x @ [url_safe (CHR ''='')]" if x: "length x = 32" for x
  proof -
    obtain b where b: "base64_32 x = b @ [CHR ''='']"
      using base64_groups_last [of x] x by (auto simp: base64_32_def)
    then have "length b = 43" using base64_32_length [OF x] by simp
    then show ?thesis by (simp add: shown_hash_def b)
  qed
  then have "map url_safe (base64_groups d) = map url_safe (base64_groups d')"
    using assms by (metis base64_32_def)
  then show ?thesis using base64_groups_inj [of d d'] assms(1,2) by simp
qed

section \<open>The stored review\<close>

lemma blind_expert: "\<not> list_ex blind_entry expert_entries"
  by (simp add: expert_entries_def blind_render_def)

lemma blind_fields: "\<not> list_ex blind_entry (fields_review j meta fs)"
  by (induction j meta fs rule: fields_review.induct) (auto simp: blind_render_def split: sum.splits)

lemma blind_cont: "cont_review j cont fs = Inr es \<Longrightarrow> \<not> list_ex blind_entry es"
  by (induction j cont fs arbitrary: es rule: cont_review.induct)
     (auto simp: cat_Inr_iff rbind_Inr_iff blind_render_def split: sum.splits)

lemma blind_payload: "payload_review j = Inr es \<Longrightarrow> \<not> list_ex blind_entry es"
  by (auto simp: payload_review_def cat_Inr_iff blind_render_def dest: blind_cont
      simp del: cont_review.simps split: sum.splits if_splits)

lemma blind_expert_meta: "expert_meta_review j = Inr es \<Longrightarrow> \<not> list_ex blind_entry es"
  unfolding expert_meta_review_def cat_Inr_iff
  by (auto simp: rbind_Inr_iff blind_fields dest: blind_payload simp del: fields_review.simps split: if_splits)

text \<open>The entries of a review, with what expert mode adds.\<close>

definition full_review :: "tx_type \<Rightarrow> json \<Rightarrow> nat \<Rightarrow> nat \<Rightarrow> bool \<Rightarrow> review" where
  "full_review ty j signer nsigners expert =
     cat (if ty = TxHash then Inr hash_entries else tx_review j signer nsigners)
     (if expert then cat (if ty = TxHash then Inr [] else expert_meta_review j) (Inr expert_entries)
      else Inr [])"

lemma on_items_InrD:
  "on_items m ps = (Inr (), ps') \<Longrightarrow> \<exists>a. m (p_items ps) = (Inr (), a) \<and> ps' = ps \<lparr> p_items := a \<rparr>"
  by (auto simp: on_items_def Let_def split: prod.splits)

lemma thn_InrD: "thn m n s = (Inr x, s') \<Longrightarrow> \<exists>s1. m s = (Inr (), s1) \<and> n s1 = (Inr x, s')"
  by (auto simp: thn_eq split: prod.splits sum.splits)

lemma refines_InrD:
  "refines m a (Inr es) \<Longrightarrow> array_ok a \<Longrightarrow> m a = (Inr (), a') \<Longrightarrow> grows a es a'"
  by (simp add: refines_def)

lemma refines_InrE:
  "refines m a s \<Longrightarrow> array_ok a \<Longrightarrow> m a = (Inr (), a') \<Longrightarrow> \<exists>es. s = Inr es \<and> grows a es a'"
  by (simp add: refines_def)

lemma store_expert_InrD:
  assumes "store_expert ty bs ps = (Inr (), ps')" "array_ok (p_items ps)"
  shows "\<exists>xs. (if ty = TxHash then Inr [] else expert_meta_review (parsed_json ps bs)) = Inr xs \<and>
    grows (p_items ps) (xs @ expert_entries) (p_items ps') \<and>
    p_tokens ps' = p_tokens ps \<and> json_len ps' = json_len ps \<and> b64 ps' = b64 ps \<and> p_tx_type ps' = p_tx_type ps"
proof -
  from thn_InrD [OF assms(1) [unfolded store_expert_def]] obtain ps1
    where p1: "(if ty \<noteq> TxHash then on_items (store_expert_meta (parsed_json ps bs)) ps else (Inr (), ps)) = (Inr (), ps1)"
    and p2: "on_items store_expert_items ps1 = (Inr (), ps')" by blast
  have "\<exists>xs. (if ty = TxHash then Inr [] else expert_meta_review (parsed_json ps bs)) = Inr xs \<and>
      grows (p_items ps) xs (p_items ps1) \<and> ps1 = ps \<lparr> p_items := p_items ps1 \<rparr>"
  proof (cases "ty = TxHash")
    case True
    then show ?thesis using p1 grows_refl [OF assms(2)] by simp
  next
    case False
    then obtain a where "store_expert_meta (parsed_json ps bs) (p_items ps) = (Inr (), a)"
      "ps1 = ps \<lparr> p_items := a \<rparr>" using p1 by (auto dest: on_items_InrD)
    then show ?thesis using refines_InrE [OF refines_expert_meta assms(2)] False by auto
  qed
  then obtain xs where xs: "(if ty = TxHash then Inr [] else expert_meta_review (parsed_json ps bs)) = Inr xs"
    "grows (p_items ps) xs (p_items ps1)" "ps1 = ps \<lparr> p_items := p_items ps1 \<rparr>" by blast
  then obtain a0 where a0: "ps1 = ps \<lparr> p_items := a0 \<rparr>" by blast
  obtain a where a: "store_expert_items (p_items ps1) = (Inr (), a)" "ps' = ps1 \<lparr> p_items := a \<rparr>"
    using on_items_InrD [OF p2] by blast
  have "grows (p_items ps1) expert_entries a"
    using refines_InrD [OF refines_expert_items grows_ok [OF xs(2)] a(1)] .
  then have "grows (p_items ps) (xs @ expert_entries) (p_items ps')"
    using grows_trans [OF xs(2)] a(2) by simp
  moreover have "p_tokens ps1 = p_tokens ps \<and> json_len ps1 = json_len ps \<and> b64 ps1 = b64 ps \<and> p_tx_type ps1 = p_tx_type ps"
    by (simp add: a0)
  ultimately show ?thesis using xs(1) a(2) by auto
qed

lemma store_json_InrD:
  assumes "store_json_items address bs ps = (Inr (), ps')" "p_items ps = items_init a0"
  shows "\<exists>pk signer n es a. address = Some pk \<and> \<not> is_ok (get_value (parsed_json ps bs) 0 ''verifiers'') \<and>
    find_device_signer (parsed_json ps bs) (hex_lower pk) = Inr (signer, n) \<and>
    tx_review (parsed_json ps bs) signer n = Inr es \<and> ps' = ps \<lparr> p_items := a \<rparr> \<and> review_shown a es \<and>
    arr_nsigners a = n"
proof -
  let ?j = "parsed_json ps bs"
  obtain pk signer n where p: "address = Some pk" "\<not> is_ok (get_value ?j 0 ''verifiers'')"
    "find_device_signer ?j (hex_lower pk) = Inr (signer, n)"
    "on_items (store_tx_items ?j signer n) ps = (Inr (), ps')"
    using assms(1) by (auto simp: store_json_items_def Let_def split: if_splits option.splits sum.splits)
  obtain a where a: "store_tx_items ?j signer n (p_items ps) = (Inr (), a)" "ps' = ps \<lparr> p_items := a \<rparr>"
    using on_items_InrD [OF p(4)] by blast
  then show ?thesis
    using store_tx_items_refines [of ?j signer n a0] p assms(2) by auto
qed

text \<open>
  A successful store for a JSON document: the items are the review of the device's signer entry,
  and the hash shown is that of exactly the document's bytes.
\<close>

lemma store_items_json:
  assumes "store_items address blake2b ty bs hin expert ps = (Inr (), ps')" "ty \<noteq> TxHash"
  shows "\<exists>pk signer n es digest. address = Some pk \<and>
    \<not> is_ok (get_value (parsed_json ps bs) 0 ''verifiers'') \<and>
    find_device_signer (parsed_json ps bs) (hex_lower pk) = Inr (signer, n) \<and>
    full_review ty (parsed_json ps bs) signer n expert = Inr es \<and> review_shown (p_items ps') es \<and>
    blake2b (take (json_len ps) bs) = Some digest \<and> b64 ps' = map url_safe (base64_32 digest) \<and>
    p_tx_type ps' = ty \<and> parsed_json ps' = parsed_json ps \<and> arr_nsigners (p_items ps') = n"
proof -
  let ?ps0 = "ps \<lparr> p_tx_type := ty, p_items := items_init (p_items ps) \<rparr>"
  have j: "parsed_json ?ps0 bs = parsed_json ps bs" by (simp add: parsed_json_def)
  from assms obtain ps1 ps2 where s1: "store_json_items address bs ?ps0 = (Inr (), ps1)"
    and s2: "compute_hash blake2b ty bs hin ps1 = (Inr (), ps2)"
    and s3: "(if expert then store_expert ty bs else ret ()) ps2 = (Inr (), ps')"
    by (auto simp: store_items_def modifies_def dest!: thn_InrD)
  obtain pk signer n es a where r: "address = Some pk" "\<not> is_ok (get_value (parsed_json ps bs) 0 ''verifiers'')"
    "find_device_signer (parsed_json ps bs) (hex_lower pk) = Inr (signer, n)"
    "tx_review (parsed_json ps bs) signer n = Inr es" "ps1 = ?ps0 \<lparr> p_items := a \<rparr>" "review_shown a es"
    "arr_nsigners a = n"
    using store_json_InrD [OF s1, of "p_items ps"] unfolding j by auto
  from s2 assms(2) r(5) obtain digest where h: "blake2b (take (json_len ps) bs) = Some digest"
    "ps2 = ps1 \<lparr> b64 := map url_safe (base64_32 digest) \<rparr>"
    by (auto simp: compute_hash_def split: sum.splits)
  have j2: "parsed_json ps2 = parsed_json ps" using h(2) r(5) by (simp add: parsed_json_def fun_eq_iff)
  have ok: "array_ok (p_items ps2)" "review_shown (p_items ps2) es"
    using h(2) r(5,6) by (simp_all add: review_shown_def)
  show ?thesis
  proof (cases expert)
    case True
    then obtain xs where x: "expert_meta_review (parsed_json ps bs) = Inr xs"
      "grows (p_items ps2) (xs @ expert_entries) (p_items ps')" "p_tokens ps' = p_tokens ps2"
      "json_len ps' = json_len ps2" "b64 ps' = b64 ps2" "p_tx_type ps' = p_tx_type ps2"
      using store_expert_InrD [OF _ ok(1), of ty bs ps'] s3 assms(2) j2 by auto
    have "full_review ty (parsed_json ps bs) signer n expert = Inr (es @ xs @ expert_entries)"
      using True r(4) x(1) assms(2) by (simp add: full_review_def)
    moreover have "review_shown (p_items ps') (es @ xs @ expert_entries)"
      using review_shown_grows [OF ok(2) x(2)] by simp
    moreover have "parsed_json ps' = parsed_json ps"
      using x(3,4) j2 by (simp add: parsed_json_def fun_eq_iff)
    moreover have "arr_nsigners (p_items ps') = n" "p_tx_type ps' = ty" "b64 ps' = map url_safe (base64_32 digest)"
      using x h(2) r(5,7) by (simp_all add: grows_def)
    ultimately show ?thesis using r(1-3) h(1) by blast
  next
    case False
    then have "ps' = ps2" using s3 by (simp add: ret_def)
    moreover have "full_review ty (parsed_json ps bs) signer n expert = Inr es"
      using False r(4) assms(2) by (simp add: full_review_def)
    ultimately show ?thesis using r h ok(2) j2 by auto
  qed
qed

lemma store_items_hash:
  assumes "store_items address blake2b TxHash bs (Some h) expert ps = (Inr (), ps')"
  shows "\<exists>es. full_review TxHash (parsed_json ps bs) 0 0 expert = Inr es \<and> review_shown (p_items ps') es \<and>
    b64 ps' = map url_safe (base64_32 h) \<and> p_tx_type ps' = TxHash"
proof -
  let ?ps0 = "ps \<lparr> p_tx_type := TxHash, p_items := items_init (p_items ps) \<rparr>"
  from assms obtain ps1 ps2 where s1: "on_items store_hash_items ?ps0 = (Inr (), ps1)"
    and s2: "compute_hash blake2b TxHash bs (Some h) ps1 = (Inr (), ps2)"
    and s3: "(if expert then store_expert TxHash bs else ret ()) ps2 = (Inr (), ps')"
    by (auto simp: store_items_def modifies_def dest!: thn_InrD)
  obtain a where a: "store_hash_items (items_init (p_items ps)) = (Inr (), a)" "ps1 = ?ps0 \<lparr> p_items := a \<rparr>"
    using on_items_InrD [OF s1] by auto
  have g: "review_shown a hash_entries"
    using review_shown_grows [OF review_shown_init refines_InrD [OF refines_hash_items items_init_ok(1) a(1)]]
    by simp
  have p2: "ps2 = ps1 \<lparr> b64 := map url_safe (base64_32 h) \<rparr>"
    using s2 by (simp add: compute_hash_def)
  have ok: "array_ok (p_items ps2)" "review_shown (p_items ps2) hash_entries"
    using g p2 a(2) by (simp_all add: review_shown_def)
  show ?thesis
  proof (cases expert)
    case True
    then have x: "grows (p_items ps2) expert_entries (p_items ps')" "b64 ps' = b64 ps2" "p_tx_type ps' = p_tx_type ps2"
      using store_expert_InrD [OF _ ok(1), of TxHash bs ps'] s3 by auto
    then show ?thesis using True review_shown_grows [OF ok(2) x(1)] p2 a(2)
      by (auto simp: full_review_def)
  next
    case False
    then have "ps' = ps2" using s3 by (simp add: ret_def)
    then show ?thesis using False ok(2) p2 a(2) by (simp add: full_review_def)
  qed
qed

section \<open>Validation\<close>

lemma validate_from_iff:
  "validate_from ps address bs is = Inr () \<longleftrightarrow> list_all (\<lambda>i. is_ok (parsed_item ps address bs i)) is"
  by (induction ps address bs "is" rule: validate_from.induct)
     (auto simp: rbind_Inr_iff is_ok_iff)

lemma validate_iff:
  "validate ps address bs = Inr () \<longleftrightarrow> list_all (\<lambda>i. is_ok (parsed_item ps address bs i)) [0..<num_items ps]"
  by (simp add: validate_def validate_from_iff)


section \<open>A review that fits is stored\<close>

lemma refines_run:
  assumes "refines m a (Inr es)" "array_ok a" "arr_num a + length es < MAX_ITEMS"
  shows "\<exists>a'. m a = (Inr (), a') \<and> grows a es a'"
proof (cases "m a")
  case (Pair r a')
  then show ?thesis using assms by (cases r) (auto simp: refines_def)
qed

lemma store_tx_items_run:
  assumes "tx_review j signer n = Inr es" "length es < MAX_ITEMS"
  shows "\<exists>a. store_tx_items j signer n (items_init a0) = (Inr (), a) \<and> review_shown a es"
  using store_tx_items_refines [of j signer n a0] assms by (auto split: prod.splits sum.splits)

lemma on_items_run: "m (p_items ps) = (Inr (), a) \<Longrightarrow> on_items m ps = (Inr (), ps \<lparr> p_items := a \<rparr>)"
  by (simp add: on_items_def items_to_parser_def)

lemma store_expert_run:
  assumes "ty \<noteq> TxHash" "expert_meta_review (parsed_json ps bs) = Inr xs" "array_ok (p_items ps)"
    "arr_num (p_items ps) + length (xs @ expert_entries) < MAX_ITEMS"
  shows "\<exists>ps'. store_expert ty bs ps = (Inr (), ps')"
proof -
  have r: "refines (store_expert_meta (parsed_json ps bs)) (p_items ps) (Inr xs)"
    using refines_expert_meta [of "parsed_json ps bs"] assms(2) by simp
  obtain a where a: "store_expert_meta (parsed_json ps bs) (p_items ps) = (Inr (), a)" "grows (p_items ps) xs a"
    using refines_run [OF r assms(3)] assms(4) by auto
  obtain b where "store_expert_items a = (Inr (), b)"
    using refines_run [OF refines_expert_items grows_ok [OF a(2)]] grows_num [OF a(2) assms(3)] assms(4)
    by auto
  then show ?thesis using assms(1) on_items_run [of "store_expert_meta (parsed_json ps bs)" ps a] a(1)
      on_items_run [of store_expert_items "ps \<lparr> p_items := a \<rparr>" b]
    by (simp add: store_expert_def thn_eq)
qed

lemma store_items_run:
  assumes "ty \<noteq> TxHash" "\<not> is_ok (get_value (parsed_json ps bs) 0 ''verifiers'')"
    "find_device_signer (parsed_json ps bs) (hex_lower pk) = Inr (signer, n)"
    "full_review ty (parsed_json ps bs) signer n expert = Inr es" "length es < MAX_ITEMS"
    "bl (take (json_len ps) bs) = Some digest"
  shows "\<exists>ps'. store_items (Some pk) bl ty bs hin expert ps = (Inr (), ps')"
proof -
  let ?j = "parsed_json ps bs"
  let ?ps0 = "ps \<lparr> p_tx_type := ty, p_items := items_init (p_items ps) \<rparr>"
  obtain ts where ts: "tx_review ?j signer n = Inr ts" "length ts \<le> length es"
    using assms(1,4) by (auto simp: full_review_def cat_Inr_iff)
  then obtain a where a: "store_tx_items ?j signer n (items_init (p_items ps)) = (Inr (), a)" "review_shown a ts"
    using store_tx_items_run [of ?j signer n ts] assms(5) by fastforce
  let ?ps2 = "?ps0 \<lparr> p_items := a, b64 := map url_safe (base64_32 digest) \<rparr>"
  have j: "parsed_json ?ps0 bs = ?j" "parsed_json ?ps2 bs = ?j" by (simp_all add: parsed_json_def)
  have s1: "store_json_items (Some pk) bs ?ps0 = (Inr (), ?ps0 \<lparr> p_items := a \<rparr>)"
    using assms(2,3) on_items_run [of "store_tx_items ?j signer n" ?ps0 a] a(1) j
    by (simp add: store_json_items_def)
  have s2: "compute_hash bl ty bs hin (?ps0 \<lparr> p_items := a \<rparr>) = (Inr (), ?ps2)"
    using assms(1,6) by (simp add: compute_hash_def)
  have "\<exists>ps'. (if expert then store_expert ty bs else ret ()) ?ps2 = (Inr (), ps')"
  proof (cases expert)
    case True
    then obtain xs where xs: "expert_meta_review ?j = Inr xs" "length ts + length (xs @ expert_entries) = length es"
      using assms(1,4) ts(1) by (auto simp: full_review_def cat_Inr_iff)
    have "arr_num (p_items ?ps2) = length ts" "array_ok (p_items ?ps2)"
      using review_shown_length [OF a(2)] a(2) by (simp_all add: review_shown_def)
    then have "\<exists>ps'. store_expert ty bs ?ps2 = (Inr (), ps')"
      by (intro store_expert_run [OF assms(1)]) (use xs assms(5) j(2) in auto)
    then show ?thesis using True by simp
  qed (simp add: ret_def)
  then show ?thesis using assms(1) s1 s2 by (simp add: store_items_def thn_eq modifies_def)
qed

end
