(* ===== verification/Memory.thy ===== *)
theory Memory
  imports Kadena_Prelude
begin

text \<open>
  Fixed byte buffers that the code writes by offset (the RAM transaction buffer and the flash
  buffer): a memory is a function from offsets to bytes, written and read in blocks.
\<close>

type_synonym mem = "nat \<Rightarrow> byte"

text \<open>\<open>buf[off..off + data.len()].copy_from_slice(data)\<close>\<close>

definition mem_write :: "mem \<Rightarrow> nat \<Rightarrow> bytes \<Rightarrow> mem" where
  "mem_write m off data =
     (\<lambda>i. if off \<le> i \<and> i < off + length data then data ! (i - off) else m i)"

text \<open>\<open>&buf[off..off + n]\<close>\<close>

definition mem_read :: "mem \<Rightarrow> nat \<Rightarrow> nat \<Rightarrow> bytes" where
  "mem_read m off n = map m [off..<off + n]"

text \<open>The initial, zeroed buffer.\<close>

definition mem_zero :: mem where
  "mem_zero = (\<lambda>_. NUL)"

lemma length_mem_read [simp]: "length (mem_read m off n) = n"
  by (simp add: mem_read_def)

lemma mem_read_0 [simp]: "mem_read m off 0 = []"
  by (simp add: mem_read_def)

lemma mem_write_Nil [simp]: "mem_write m off [] = m"
  by (auto simp: mem_write_def fun_eq_iff)

lemma mem_read_write_same [simp]: "mem_read (mem_write m off d) off (length d) = d"
  by (rule nth_equalityI) (simp_all add: mem_read_def mem_write_def)

lemma mem_read_write_disjoint:
  "off + n \<le> w \<or> w + length d \<le> off \<Longrightarrow> mem_read (mem_write m w d) off n = mem_read m off n"
  by (auto simp: mem_read_def mem_write_def)

lemma mem_read_append: "mem_read m off (a + b) = mem_read m off a @ mem_read m (off + a) b"
  by (simp only: mem_read_def add.assoc [symmetric] upt_add_eq_append [OF le_add1] map_append)

lemma mem_read_Nil_iff [simp]: "mem_read m off n = [] \<longleftrightarrow> n = 0"
  by (auto simp: mem_read_def)

lemma mem_read_copy [simp]: "mem_read (mem_write m w (mem_read r off n)) w n = mem_read r off n"
  using mem_read_write_same [of m w "mem_read r off n"] by simp

text \<open>Appending at the end of what is already there.\<close>

lemma mem_read_write_end:
  "mem_read (mem_write m (off + a) d) off (a + length d) = mem_read m off a @ d"
  by (simp add: mem_read_append mem_read_write_disjoint)

lemma mem_read_write_end0:
  "mem_read (mem_write m a d) 0 (a + length d) = mem_read m 0 a @ d"
  using mem_read_write_end [of m 0 a d] by simp

lemma mem_read_take: "k \<le> n \<Longrightarrow> take k (mem_read m off n) = mem_read m off k"
  by (simp add: mem_read_def take_map)

end
