(* ===== verification/Buffering.thy ===== *)
theory Buffering
  imports Memory
begin

text \<open>
  The transaction buffer (\<open>buffering.rs\<close>): an 8192-byte RAM buffer while the transaction fits,
  then the 15104-byte flash buffer. The abstract contract (an append-only byte string with a
  capacity) is the locale \<open>append_buffer\<close>, interpreted on the two-level buffer.
\<close>

section \<open>The contract: append all or nothing, up to a capacity\<close>

locale append_buffer =
  fixes invar :: "'s \<Rightarrow> bool"
    and reset :: "'s \<Rightarrow> 's"
    and append :: "'s \<Rightarrow> bytes \<Rightarrow> bool \<times> 's"
    and contents :: "'s \<Rightarrow> bytes"
    and cap :: nat
  assumes invar_reset: "invar s \<Longrightarrow> invar (reset s)"
    and contents_reset: "contents (reset s) = []"
    and invar_append: "invar s \<Longrightarrow> invar (snd (append s d))"
    and append_ok: "invar s \<Longrightarrow> fst (append s d) \<longleftrightarrow> length (contents s) + length d \<le> cap"
    and contents_append: "invar s \<Longrightarrow>
      contents (snd (append s d)) = (if fst (append s d) then contents s @ d else contents s)"
begin

text \<open>Appending a list of chunks, stopping at the first that does not fit.\<close>

fun append_all :: "'s \<Rightarrow> bytes list \<Rightarrow> bool \<times> 's" where
  "append_all s [] = (True, s)"
| "append_all s (d # ds) =
     (if fst (append s d) then append_all (snd (append s d)) ds else (False, snd (append s d)))"

lemma invar_append_all: "invar s \<Longrightarrow> invar (snd (append_all s ds))"
  by (induction ds arbitrary: s) (simp_all add: invar_append)

lemma append_all_ok:
  "invar s \<Longrightarrow> fst (append_all s ds) \<longleftrightarrow> length (contents s) + length (concat ds) \<le> cap \<or> ds = []"
proof (induction ds arbitrary: s)
  case (Cons d ds)
  then show ?case
    using Cons.IH [of "snd (append s d)"]
    by (cases "ds = []") (auto simp: invar_append contents_append append_ok)
qed simp

lemma contents_append_all:
  "invar s \<Longrightarrow> fst (append_all s ds) \<Longrightarrow>
   contents (snd (append_all s ds)) = contents s @ concat ds"
proof (induction ds arbitrary: s)
  case (Cons d ds)
  then show ?case
    by (cases "fst (append s d)") (simp_all add: invar_append contents_append)
qed simp

text \<open>A failed append leaves the bytes before it, however they are stored.\<close>

lemma failed_append: "invar s \<Longrightarrow> \<not> fst (append s d) \<Longrightarrow> contents (snd (append s d)) = contents s"
  by (simp add: contents_append)

lemma contents_bound: "invar s \<Longrightarrow> fst (append s d) \<Longrightarrow> length (contents (snd (append s d))) \<le> cap"
  by (simp add: contents_append append_ok)

end

section \<open>The two-level buffer\<close>

definition RAM_CAP :: nat where "RAM_CAP = 8192"
definition FLASH_CAP :: nat where "FLASH_CAP = 15104"

record buffering =
  ram_pos :: nat
  flash_pos :: nat
  in_ram :: bool

definition buffering_new :: buffering where
  "buffering_new = \<lparr>ram_pos = 0, flash_pos = 0, in_ram = True\<rparr>"

text \<open>
  Where the bytes live belongs to the caller: \<open>write\<close> is \<open>FlashWriter::write\<close>, on a flash of any type.
  \<open>flash_write\<close> is the device's, by its effect on the flash bytes.
\<close>

type_synonym 'f flash_writer = "nat \<Rightarrow> bytes \<Rightarrow> 'f \<Rightarrow> 'f"

definition flash_write :: "mem flash_writer" where
  "flash_write offset data flash = mem_write flash offset data"

definition append_flash :: "'f flash_writer \<Rightarrow> buffering \<Rightarrow> 'f \<Rightarrow> bytes \<Rightarrow> bool \<times> buffering \<times> 'f" where
  "append_flash write b flash data =
     (if FLASH_CAP - flash_pos b < length data then (False, b, flash)
      else (True,
            b\<lparr>flash_pos := flash_pos b + length data\<rparr>,
            if data \<noteq> [] then write (flash_pos b) data flash else flash))"

definition buffering_append ::
  "'f flash_writer \<Rightarrow> buffering \<Rightarrow> mem \<Rightarrow> 'f \<Rightarrow> bytes \<Rightarrow> bool \<times> buffering \<times> mem \<times> 'f" where
  "buffering_append write b ram flash data =
     (if in_ram b then
        if length data \<le> RAM_CAP - ram_pos b then
          (True, b\<lparr>ram_pos := ram_pos b + length data\<rparr>, mem_write ram (ram_pos b) data, flash)
        else
          (let held = ram_pos b;
               b1 = b\<lparr>in_ram := False, ram_pos := 0\<rparr>;
               (_, b2, flash2) = (if held > 0 then append_flash write b1 flash (mem_read ram 0 held)
                                  else (True, b1, flash));
               (ok, b3, flash3) = append_flash write b2 flash2 data
           in (ok, b3, ram, flash3))
      else
        (let (ok, b1, flash1) = append_flash write b flash data in (ok, b1, ram, flash1)))"

definition buffering_get :: "buffering \<Rightarrow> mem \<Rightarrow> mem \<Rightarrow> bytes" where
  "buffering_get b ram flash =
     (if in_ram b then mem_read ram 0 (ram_pos b) else mem_read flash 0 (flash_pos b))"

text \<open>
  Well-formedness: positions inside the buffers, and no flash bytes while in RAM. It makes the
  \<open>usize\<close> subtractions exact and every slice in bounds.
\<close>

definition buffering_wf :: "buffering \<Rightarrow> bool" where
  "buffering_wf b \<longleftrightarrow> ram_pos b \<le> RAM_CAP \<and> flash_pos b \<le> FLASH_CAP \<and>
     (if in_ram b then flash_pos b = 0 else ram_pos b = 0)"

lemmas cap_defs = RAM_CAP_def FLASH_CAP_def

lemma buffering_wf_new: "buffering_wf buffering_new"
  by (simp add: buffering_wf_def buffering_new_def)

lemma buffering_get_new [simp]: "buffering_get buffering_new ram flash = []"
  by (simp add: buffering_get_def buffering_new_def)

lemma length_buffering_get: "buffering_wf b \<Longrightarrow> length (buffering_get b ram flash) \<le> FLASH_CAP"
  by (auto simp: buffering_wf_def buffering_get_def cap_defs split: if_splits)

lemma buffering_append_wf:
  "buffering_wf b \<Longrightarrow> buffering_append write b ram flash d = (ok, b', ram', flash') \<Longrightarrow> buffering_wf b'"
  by (auto simp: buffering_append_def append_flash_def buffering_wf_def cap_defs Let_def
      split: if_splits)

lemma append_flash_eq:
  "append_flash flash_write b flash d =
     (if FLASH_CAP - flash_pos b < length d then (False, b, flash)
      else (True, b\<lparr>flash_pos := flash_pos b + length d\<rparr>, mem_write flash (flash_pos b) d))"
  by (simp add: append_flash_def flash_write_def)

lemma append_flash_spec:
  assumes "flash_pos b \<le> FLASH_CAP" "append_flash flash_write b flash d = (ok, b', flash')"
  shows "ok \<longleftrightarrow> flash_pos b + length d \<le> FLASH_CAP"
    and "mem_read flash' 0 (flash_pos b') =
           mem_read flash 0 (flash_pos b) @ (if ok then d else [])"
    and "in_ram b' = in_ram b"
  using assms by (auto simp: append_flash_eq mem_read_write_end0 split: if_splits)

lemma buffering_append_spec:
  assumes wf: "buffering_wf b" and a: "buffering_append flash_write b ram flash d = (ok, b', ram', flash')"
  shows "(ok \<longleftrightarrow> length (buffering_get b ram flash) + length d \<le> FLASH_CAP) \<and>
    buffering_get b' ram' flash' = buffering_get b ram flash @ (if ok then d else [])"
proof (cases "in_ram b \<and> length d \<le> RAM_CAP - ram_pos b")
  case True
  with wf a show ?thesis
    by (auto simp: buffering_append_def buffering_wf_def buffering_get_def cap_defs
        mem_read_write_end0)
next
  case F: False
  show ?thesis
  proof (cases "in_ram b")
    case True
    let ?held = "ram_pos b"
    define b2 where "b2 = b\<lparr>in_ram := False, ram_pos := 0, flash_pos := ?held\<rparr>"
    define fl2 where "fl2 = mem_write flash 0 (mem_read ram 0 ?held)"
    have moved: "(if ?held > 0
        then append_flash flash_write (b\<lparr>in_ram := False, ram_pos := 0\<rparr>) flash (mem_read ram 0 ?held)
        else (True, b\<lparr>in_ram := False, ram_pos := 0\<rparr>, flash)) = (True, b2, fl2)"
      using wf True by (auto simp: append_flash_eq buffering_wf_def cap_defs b2_def fl2_def)
    from a F True moved have "append_flash flash_write b2 fl2 d = (ok, b', flash')"
      by (auto simp: buffering_append_def Let_def simp del: mem_read_Nil_iff split: prod.splits)
    moreover have "flash_pos b2 \<le> FLASH_CAP" "flash_pos b2 = ?held" "\<not> in_ram b2"
      using wf True by (auto simp: b2_def buffering_wf_def cap_defs)
    ultimately show ?thesis
      using True append_flash_spec [of b2 fl2 d ok b' flash']
      by (auto simp: buffering_get_def fl2_def)
  next
    case False
    with a have "append_flash flash_write b flash d = (ok, b', flash')"
      by (auto simp: buffering_append_def split: prod.splits)
    with False wf append_flash_spec [of b flash d ok b' flash'] show ?thesis
      by (auto simp: buffering_get_def buffering_wf_def)
  qed
qed

text \<open>A transaction that fits RAM never touches flash.\<close>

lemma buffering_append_ram:
  assumes "in_ram b" "length (buffering_get b ram flash) + length d \<le> RAM_CAP"
    "buffering_append flash_write b ram flash d = (ok, b', ram', flash')"
  shows "ok \<and> in_ram b' \<and> flash' = flash"
  using assms by (auto simp: buffering_append_def buffering_get_def split: if_splits)

section \<open>The two-level buffer implements the contract\<close>

type_synonym buffer_state = "buffering \<times> mem \<times> mem"

definition bs_invar :: "buffer_state \<Rightarrow> bool" where
  "bs_invar s = (case s of (b, ram, flash) \<Rightarrow> buffering_wf b)"

definition bs_reset :: "buffer_state \<Rightarrow> buffer_state" where
  "bs_reset s = (case s of (b, ram, flash) \<Rightarrow> (buffering_new, ram, flash))"

definition bs_append :: "buffer_state \<Rightarrow> bytes \<Rightarrow> bool \<times> buffer_state" where
  "bs_append s d = (case s of (b, ram, flash) \<Rightarrow> buffering_append flash_write b ram flash d)"

definition bs_contents :: "buffer_state \<Rightarrow> bytes" where
  "bs_contents s = (case s of (b, ram, flash) \<Rightarrow> buffering_get b ram flash)"

lemmas bs_defs = bs_invar_def bs_reset_def bs_append_def bs_contents_def

interpretation bs: append_buffer bs_invar bs_reset bs_append bs_contents FLASH_CAP
proof
  fix s :: buffer_state and d :: bytes
  obtain b ram flash where s: "s = (b, ram, flash)" by (cases s)
  obtain ok b' ram' flash' where a: "buffering_append flash_write b ram flash d = (ok, b', ram', flash')"
    by (metis prod_cases4)
  show "bs_invar (bs_reset s)" "bs_contents (bs_reset s) = []"
    by (simp_all add: s bs_defs buffering_wf_new)
  assume "bs_invar s"
  then have wf: "buffering_wf b" by (simp add: s bs_defs)
  show "bs_invar (snd (bs_append s d))"
    using buffering_append_wf [OF wf a] by (simp add: s a bs_defs)
  show "fst (bs_append s d) \<longleftrightarrow> length (bs_contents s) + length d \<le> FLASH_CAP"
    using buffering_append_spec [OF wf a] by (simp add: s a bs_defs)
  show "bs_contents (snd (bs_append s d)) =
      (if fst (bs_append s d) then bs_contents s @ d else bs_contents s)"
    using buffering_append_spec [OF wf a] by (simp add: s a bs_defs)
qed

end
