(* ===== verification/Device.thy ===== *)
theory Device
  imports Buffering Structured_Transfer
begin

text \<open>
  The device side of the platform interface (\<open>platform.rs\<close>, \<open>storage.rs\<close>, \<open>settings.rs\<close>): the
  transaction buffer and the transfer template share the RAM buffer, keys are compressed from the
  OS encoding, two settings switches. What the OS and its SDK compute is the environment \<open>os_env\<close>.
\<close>

section \<open>The environment\<close>

text \<open>
  Derivation paths are five 32-bit words. \<open>os_public_key\<close> is the 65-byte uncompressed key the SDK
  derives, \<open>os_sign\<close> its signature bytes and their length, \<open>os_version\<close> and \<open>os_seph_version\<close> the
  returned length and the 64-byte buffer after the syscall.
\<close>

type_synonym path = "32 word list"

record os_env =
  app_version :: "nat \<times> nat \<times> nat"
  os_pin_validated :: bool
  os_target_id :: "32 word"
  os_version :: "nat \<times> bytes"
  os_seph_version :: "nat \<times> bytes"
  os_settings :: bytes
  os_public_key :: "path \<Rightarrow> bytes option"
  os_sign :: "path \<Rightarrow> bytes \<Rightarrow> (bytes \<times> nat) option"
  os_blake2b :: "bytes \<Rightarrow> bytes option"

section \<open>Settings\<close>

definition BLIND_SIGNING :: nat where "BLIND_SIGNING = 0"
definition EXPERT_MODE :: nat where "EXPERT_MODE = 1"

definition settings_get :: "os_env \<Rightarrow> nat \<Rightarrow> bool" where
  "settings_get env i \<longleftrightarrow> byte_val (os_settings env ! i) = 1"

definition dev_expert :: "os_env \<Rightarrow> bool" where
  "dev_expert env = settings_get env EXPERT_MODE"

definition dev_blind_signing :: "os_env \<Rightarrow> bool" where
  "dev_blind_signing env = settings_get env BLIND_SIGNING"

section \<open>Keys, signatures, identification\<close>

definition ux_locked :: "os_env \<Rightarrow> bool" where
  "ux_locked env \<longleftrightarrow> \<not> os_pin_validated env"

text \<open>\<open>compress\<close>: Y little endian, the parity of X in the top bit.\<close>

definition compress :: "bytes \<Rightarrow> bytes" where
  "compress w =
     (let out = map (\<lambda>i. w ! (64 - i)) [0..<32] in
      if byte_val (w ! 32) mod 2 \<noteq> 0
      then out[31 := byte_of (or (byte_val (out ! 31)) 128)] else out)"

definition public_key :: "os_env \<Rightarrow> path \<Rightarrow> bytes option" where
  "public_key env p = map_option compress (os_public_key env p)"

definition dev_sign :: "os_env \<Rightarrow> path \<Rightarrow> bytes \<Rightarrow> bytes option" where
  "dev_sign env p msg =
     (case os_sign env p msg of
        None \<Rightarrow> None
      | Some (sig, len) \<Rightarrow> if len \<noteq> 64 then None else Some sig)"

text \<open>Big-endian bytes of a 32-bit and a 16-bit number.\<close>

definition be32 :: "32 word \<Rightarrow> bytes" where
  "be32 w = map (\<lambda>s. byte_of (unat (drop_bit s w) mod 256)) [24, 16, 8, 0]"

definition be16 :: "nat \<Rightarrow> bytes" where
  "be16 n = [byte_of (n div 256 mod 256), byte_of (n mod 256)]"

text \<open>A version string: its length byte (the syscall's result as \<open>u8\<close>, at most 64), its bytes.\<close>

definition version_field :: "nat \<times> bytes \<Rightarrow> bytes" where
  "version_field v = (let len = min (u8 (fst v)) 64 in byte_of len # take len (snd v))"

definition device_info :: "os_env \<Rightarrow> bytes" where
  "device_info env =
     be32 (os_target_id env) @ version_field (os_version env) @ [NUL] @
     version_field (os_seph_version env)"

section \<open>The transaction buffer and the template\<close>

definition TEMPLATE_AT :: nat where "TEMPLATE_AT = RAM_CAP - TEMPLATE_BUF"
definition MAX_TRANSFER_BODY :: nat where "MAX_TRANSFER_BODY = 1 + 12 * (1 + 255)"

record device =
  dev_buffer :: buffering
  dev_ram :: mem
  dev_flash :: mem
  template_len :: nat

definition device_new :: device where
  "device_new = \<lparr> dev_buffer = buffering_new, dev_ram = mem_zero, dev_flash = mem_zero,
     template_len = 0 \<rparr>"

definition tx_reset :: "device \<Rightarrow> device" where
  "tx_reset d = d \<lparr> dev_buffer := buffering_new \<rparr>"

definition tx_append :: "device \<Rightarrow> bytes \<Rightarrow> bool \<times> device" where
  "tx_append d data =
     (case buffering_append flash_write (dev_buffer d) (dev_ram d) (dev_flash d) data of
        (ok, b, ram, flash) \<Rightarrow>
          (ok, d \<lparr> dev_buffer := b, dev_ram := ram, dev_flash := flash \<rparr>))"

definition tx :: "device \<Rightarrow> bytes" where
  "tx d = buffering_get (dev_buffer d) (dev_ram d) (dev_flash d)"

definition template_store :: "device \<Rightarrow> bytes \<Rightarrow> device" where
  "template_store d data =
     (let len = min (length data) TEMPLATE_BUF in
      d \<lparr> dev_ram := mem_write (dev_ram d) TEMPLATE_AT (take len data), template_len := len \<rparr>)"

definition template :: "device \<Rightarrow> bytes" where
  "template d = mem_read (dev_ram d) TEMPLATE_AT (template_len d)"

text \<open>
  \<open>FlashBuf::write\<close> (\<open>storage.rs\<close>) with its range assertion: \<open>None\<close> is a panic, and stays one.
\<close>

definition flash_buf_write :: "mem option flash_writer" where
  "flash_buf_write offset data flash =
     (case flash of
        None \<Rightarrow> None
      | Some m \<Rightarrow>
          if \<not> (offset \<le> FLASH_CAP \<and> length data \<le> FLASH_CAP - offset) then None
          else if data = [] then Some m
          else Some (flash_write offset data m))"

section \<open>The contract of the platform's storage\<close>

text \<open>
  What the state machine relies on: an append buffer, and a template that reads back as stored and
  leaves the transaction alone as long as that is no longer than a transfer body.
\<close>

locale tx_platform = append_buffer invar reset append contents cap
  for invar :: "'s \<Rightarrow> bool"
    and reset :: "'s \<Rightarrow> 's"
    and append :: "'s \<Rightarrow> bytes \<Rightarrow> bool \<times> 's"
    and contents :: "'s \<Rightarrow> bytes"
    and cap :: nat +
  fixes store_template :: "'s \<Rightarrow> bytes \<Rightarrow> 's"
    and read_template :: "'s \<Rightarrow> bytes"
    and template_cap :: nat
    and body_cap :: nat
  assumes invar_template: "invar s \<Longrightarrow> invar (store_template s t)"
    and template_read: "length t \<le> template_cap \<Longrightarrow> read_template (store_template s t) = t"
    and template_keeps: "invar s \<Longrightarrow> length (contents s) \<le> body_cap \<Longrightarrow>
      contents (store_template s t) = contents s"
    and template_reset: "read_template (reset s) = read_template s"
begin

text \<open>A template built from the buffered body: both are there afterwards.\<close>

lemma template_of_body:
  "invar s \<Longrightarrow> length (contents s) \<le> body_cap \<Longrightarrow> length (f (contents s)) \<le> template_cap \<Longrightarrow>
   read_template (store_template s (f (contents s))) =
     f (contents (store_template s (f (contents s))))"
  by (simp add: template_read template_keeps)

text \<open>The buffer after a stream of chunks: reset, append all, store the template.\<close>

lemma streamed_template:
  assumes "invar s" "fst (append_all (reset s) ds)" "length (concat ds) \<le> body_cap"
    "length t \<le> template_cap"
  shows "contents (store_template (snd (append_all (reset s) ds)) t) = concat ds \<and>
    read_template (store_template (snd (append_all (reset s) ds)) t) = t"
proof -
  have i: "invar (snd (append_all (reset s) ds))" using assms(1) by (simp add: invar_reset invar_append_all)
  have c: "contents (snd (append_all (reset s) ds)) = concat ds"
    using contents_append_all [OF invar_reset [OF assms(1)] assms(2)] by (simp add: contents_reset)
  then show ?thesis using i assms(3,4) by (simp add: template_keeps template_read)
qed

end

definition device_wf :: "device \<Rightarrow> bool" where
  "device_wf d \<longleftrightarrow> buffering_wf (dev_buffer d) \<and> template_len d \<le> TEMPLATE_BUF"

lemma device_wf_new: "device_wf device_new"
  by (simp add: device_wf_def device_new_def buffering_wf_new)

lemma tx_append_spec:
  assumes "device_wf d"
  shows "device_wf (snd (tx_append d data))"
    and "fst (tx_append d data) \<longleftrightarrow> length (tx d) + length data \<le> FLASH_CAP"
    and "tx (snd (tx_append d data)) = (if fst (tx_append d data) then tx d @ data else tx d)"
proof -
  obtain ok b r f where a: "buffering_append flash_write (dev_buffer d) (dev_ram d) (dev_flash d) data = (ok, b, r, f)"
    by (metis prod_cases4)
  have wf: "buffering_wf (dev_buffer d)" using assms by (simp add: device_wf_def)
  note sp = buffering_append_spec [OF wf a] buffering_append_wf [OF wf a]
  show "device_wf (snd (tx_append d data))"
    "fst (tx_append d data) \<longleftrightarrow> length (tx d) + length data \<le> FLASH_CAP"
    "tx (snd (tx_append d data)) = (if fst (tx_append d data) then tx d @ data else tx d)"
    using sp assms by (auto simp: tx_append_def a tx_def device_wf_def)
qed

lemma template_keeps_tx:
  assumes "device_wf d" "length (tx d) \<le> TEMPLATE_AT"
  shows "tx (template_store d t) = tx d"
  using assms
  by (auto simp: tx_def template_store_def Let_def buffering_get_def intro!: mem_read_write_disjoint)

lemma template_store_read: "length t \<le> TEMPLATE_BUF \<Longrightarrow> template (template_store d t) = t"
  by (simp add: template_def template_store_def Let_def)

interpretation dev: tx_platform device_wf tx_reset tx_append tx FLASH_CAP
  template_store template TEMPLATE_BUF TEMPLATE_AT
proof
  fix d :: device and t :: bytes
  show "device_wf (tx_reset d)" if "device_wf d"
    using that by (simp add: device_wf_def tx_reset_def buffering_wf_new)
  show "tx (tx_reset d) = []" by (simp add: tx_def tx_reset_def)
  show "device_wf (template_store d t)" if "device_wf d"
    using that by (simp add: device_wf_def template_store_def Let_def)
  show "template (tx_reset d) = template d" by (simp add: template_def tx_reset_def)
qed (simp_all add: tx_append_spec template_keeps_tx template_store_read)

text \<open>
  An append never trips the assertion: over the asserting writer it runs as over the plain one. It
  writes nothing behind the RAM buffer either.
\<close>

lemma append_flash_checked:
  assumes "flash_pos b \<le> FLASH_CAP" "append_flash flash_write b flash data = (ok, b', flash')"
  shows "append_flash flash_buf_write b (Some flash) data = (ok, b', Some flash')" "flash_pos b' \<le> FLASH_CAP"
  using assms by (auto simp: append_flash_def flash_buf_write_def split: if_splits)

lemma buffering_append_checked:
  assumes "buffering_wf b" "buffering_append flash_write b ram flash data = (ok, b', ram', flash')"
  shows "buffering_append flash_buf_write b ram (Some flash) data = (ok, b', ram', Some flash')"
proof (cases "in_ram b \<and> \<not> length data \<le> RAM_CAP - ram_pos b")
  case True
  let ?move = "\<lambda>w f. if ram_pos b > 0 then append_flash w (b\<lparr>in_ram := False, ram_pos := 0\<rparr>) f (mem_read ram 0 (ram_pos b))
    else (True, b\<lparr>in_ram := False, ram_pos := 0\<rparr>, f)"
  obtain u b2 f2 where m: "?move flash_write flash = (u, b2, f2)" by (metis prod_cases3)
  have p: "flash_pos b \<le> FLASH_CAP" using assms(1) by (simp add: buffering_wf_def)
  have c: "?move flash_buf_write (Some flash) = (u, b2, Some f2)" "flash_pos b2 \<le> FLASH_CAP"
    using m p append_flash_checked [of "b\<lparr>in_ram := False, ram_pos := 0\<rparr>" flash "mem_read ram 0 (ram_pos b)" u b2 f2]
    by (auto split: if_splits)
  have "append_flash flash_write b2 f2 data = (ok, b', flash') \<and> ram' = ram"
    using assms(2) True unfolding buffering_append_def Let_def m by (auto split: prod.splits)
  then show ?thesis
    using True append_flash_checked(1) [OF c(2)] unfolding buffering_append_def Let_def c(1) by simp
next
  case False
  then show ?thesis using assms append_flash_checked(1) [of b flash data]
    by (auto simp: buffering_append_def buffering_wf_def split: prod.splits)
qed

lemma buffering_append_ram_frame:
  assumes "buffering_wf b" "buffering_append write b ram flash data = (ok, b', ram', flash')" "RAM_CAP \<le> i"
  shows "ram' i = ram i"
  using assms by (auto simp: buffering_append_def buffering_wf_def mem_write_def Let_def split: if_splits prod.splits)

lemma body_fits: "MAX_TRANSFER_BODY \<le> TEMPLATE_AT"
  by (simp add: MAX_TRANSFER_BODY_def TEMPLATE_AT_def RAM_CAP_def TEMPLATE_BUF_def)

lemma device_info_length: "length (device_info env) \<le> 135"
  by (simp add: device_info_def be32_def version_field_def Let_def)

lemma compress_length [simp]: "length (compress w) = 32"
  by (simp add: compress_def Let_def)

lemma public_key_length: "public_key env p = Some pk \<Longrightarrow> length pk = 32"
  by (auto simp: public_key_def)

text \<open>A body that \<open>build\<close> accepts is shorter than the space before its template, which fits its own.\<close>

lemma template_built:
  assumes "device_wf d" "transfer_build (tx d) (public_key env p) = Inr t"
  shows "tx (template_store d t) = tx d \<and> template (template_store d t) = t"
proof -
  have pk: "length pk = 32" if "public_key env p = Some pk" for pk
    using that by (rule public_key_length)
  obtain ty f pk where f: "transfer_fields_ok ty f" "tx d = byte_of ty # encode_fields f"
    "t = concat (format_pieces f ty (hex_lower pk))" "public_key env p = Some pk"
    using iffD1 [OF transfer_build_iff [OF pk] assms(2)] by blast
  have l: "length f = FIELDS" "lengths_ok f" using f(1) by (simp_all add: transfer_fields_ok_def)
  have "length (encode_fields f) \<le> 65 * FIELDS"
    using encode_fields_length [OF lengths_ok_short [OF l]] l(1) by simp
  then have "length (tx d) \<le> TEMPLATE_AT"
    by (simp add: f(2) FIELDS_def TEMPLATE_AT_def RAM_CAP_def TEMPLATE_BUF_def)
  moreover have "length t \<le> TEMPLATE_BUF"
    using template_length [OF l(2) hex_lower_64 [OF public_key_length [OF f(4)]], of ty]
    by (simp add: f(3) TEMPLATE_BUF_def)
  ultimately show ?thesis using assms(1) by (simp add: dev.template_keeps dev.template_read)
qed

end
