(* ===== verification/App.thy ===== *)
theory App
  imports Device Parser
begin

text \<open>
  The APDU dispatcher and the command state machine (\<open>app.rs\<close>). The state is the \<open>App\<close> record and
  the device; a handler is a state-passing program whose error is the status word it replies with,
  and the state it has changed before the error stays changed.
\<close>

section \<open>Constants\<close>

definition INS_GET_VERSION :: nat where "INS_GET_VERSION = 0x20"
definition INS_GET_ADDR :: nat where "INS_GET_ADDR = 0x21"
definition INS_SIGN :: nat where "INS_SIGN = 0x22"
definition INS_SIGN_HASH :: nat where "INS_SIGN_HASH = 0x23"
definition INS_SIGN_TRANSFER :: nat where "INS_SIGN_TRANSFER = 0x24"
definition INS_LEGACY_GET_VERSION :: nat where "INS_LEGACY_GET_VERSION = 0x00"
definition INS_LEGACY_VERIFY_ADDRESS :: nat where "INS_LEGACY_VERIFY_ADDRESS = 0x01"
definition INS_LEGACY_GET_PUBKEY :: nat where "INS_LEGACY_GET_PUBKEY = 0x02"
definition INS_LEGACY_SIGN_JSON :: nat where "INS_LEGACY_SIGN_JSON = 0x03"
definition INS_LEGACY_SIGN_HASH :: nat where "INS_LEGACY_SIGN_HASH = 0x04"
definition INS_LEGACY_TRANSFER :: nat where "INS_LEGACY_TRANSFER = 0x10"

lemmas ins_defs = INS_GET_VERSION_def INS_GET_ADDR_def INS_SIGN_def INS_SIGN_HASH_def
  INS_SIGN_TRANSFER_def INS_LEGACY_GET_VERSION_def INS_LEGACY_VERIFY_ADDRESS_def
  INS_LEGACY_GET_PUBKEY_def INS_LEGACY_SIGN_JSON_def INS_LEGACY_SIGN_HASH_def
  INS_LEGACY_TRANSFER_def

definition P1_INIT :: nat where "P1_INIT = 0"
definition P1_ADD :: nat where "P1_ADD = 1"
definition P1_LAST :: nat where "P1_LAST = 2"

lemmas p1_defs = P1_INIT_def P1_ADD_def P1_LAST_def

definition HDPATH_0 :: "32 word" where "HDPATH_0 = 0x8000002C"
definition HDPATH_1 :: "32 word" where "HDPATH_1 = 0x80000272"

definition LEGACY_HEADER_LENGTH :: nat where "LEGACY_HEADER_LENGTH = 5"
definition LEGACY_CHUNK_SIZE :: nat where "LEGACY_CHUNK_SIZE = 230"
definition LEGACY_FULL_CHUNK_SIZE :: nat where
  "LEGACY_FULL_CHUNK_SIZE = LEGACY_CHUNK_SIZE + LEGACY_HEADER_LENGTH"
definition LEGACY_TRANSFER_NUM_ITEMS :: nat where "LEGACY_TRANSFER_NUM_ITEMS = 12"
definition LEGACY_LOCAL_BUFFER_SIZE :: nat where "LEGACY_LOCAL_BUFFER_SIZE = 33"

lemmas legacy_defs = LEGACY_HEADER_LENGTH_def LEGACY_CHUNK_SIZE_def LEGACY_FULL_CHUNK_SIZE_def
  LEGACY_TRANSFER_NUM_ITEMS_def LEGACY_LOCAL_BUFFER_SIZE_def

definition REPLY_MAX :: nat where "REPLY_MAX = 160"

section \<open>Replies, actions and the state\<close>

record reply =
  payload :: bytes
  reply_sw :: status

definition reply_only :: "status \<Rightarrow> reply" where
  "reply_only w = \<lparr> payload = [], reply_sw = w \<rparr>"

text \<open>\<open>Reply::with\<close>: the parts one after the other, cut at \<open>REPLY_MAX\<close>.\<close>

definition reply_with :: "bytes list \<Rightarrow> status \<Rightarrow> reply" where
  "reply_with ps w = \<lparr> payload = w_puts REPLY_MAX ps, reply_sw = w \<rparr>"

datatype action =
    Reply reply
  | ReviewAddress
  | ReviewTx bool
  | BlindSignRequired reply

datatype stream = StreamNone | Modern nat | Legacy nat

datatype sign_kind = SignModern tx_type | SignLegacy tx_type nat | SignLegacyTransfer

datatype pending = PendingNone | PendingAddress bytes bool | PendingSign sign_kind

record app =
  hd_path :: path
  sign_path :: path
  app_stream :: stream
  app_pending :: pending
  payload_length :: nat
  hdpath_length :: nat
  local_data :: bytes
  local_data_len :: nat
  legacy_items :: nat
  item_len :: nat
  check_item_len :: bool
  app_parsed :: parsed

text \<open>The app and the device it drives.\<close>

record machine = app +
  dev :: device

definition app_new :: app where
  "app_new = \<lparr> hd_path = replicate 5 0, sign_path = replicate 5 0, app_stream = StreamNone,
     app_pending = PendingNone, payload_length = 0, hdpath_length = 0,
     local_data = replicate LEGACY_LOCAL_BUFFER_SIZE NUL, local_data_len = 0, legacy_items = 0,
     item_len = 0, check_item_len = False, app_parsed = parsed_new \<rparr>"

definition machine_new :: machine where
  "machine_new = app.extend app_new \<lparr> dev = device_new \<rparr>"

type_synonym 'a handler = "(machine, status, 'a) prog"

text \<open>Conditions that reply with a status word.\<close>

definition require :: "status \<Rightarrow> bool \<Rightarrow> unit handler" where
  "require w c = (if c then ret () else fails w)"

section \<open>Paths, hashes and signatures\<close>

definition prefix_ok :: "path \<Rightarrow> bool" where
  "prefix_ok p \<longleftrightarrow> p ! 0 = HDPATH_0 \<and> p ! 1 = HDPATH_1"

text \<open>\<open>le32\<close>: the first four bytes, little endian.\<close>

definition le32 :: "bytes \<Rightarrow> 32 word" where
  "le32 b = of_nat (byte_val (b ! 0) + 256 * byte_val (b ! 1) + 65536 * byte_val (b ! 2) +
     16777216 * byte_val (b ! 3))"

definition crypto_sign :: "os_env \<Rightarrow> path \<Rightarrow> bytes \<Rightarrow> tx_type \<Rightarrow> bytes option" where
  "crypto_sign env p msg ty =
     (if msg = [] then None
      else (case (if ty = TxHash then if length msg < HASH_LEN then None else Some (take 32 msg)
                  else os_blake2b env msg) of
              None \<Rightarrow> None
            | Some h \<Rightarrow> dev_sign env p h))"

text \<open>\<open>path_to_str\<close>, without the 64-byte buffer it is written to.\<close>

definition path_component :: "nat \<Rightarrow> 32 word \<Rightarrow> bytes" where
  "path_component i c =
     u32_digits (unat (and c 0x7FFFFFFF)) @ (if and c 0x80000000 \<noteq> 0 then [CHR 0x27] else []) @
     (if i \<noteq> 4 then ''/'' else [])"

definition path_to_str :: "path \<Rightarrow> bytes" where
  "path_to_str p = concat (map (\<lambda>(i, c). path_component i c) (zip [0..<length p] p))"

text \<open>The APDU as the C handlers index it, \<open>raw[..rx]\<close>.\<close>

definition raw_apdu :: "nat \<Rightarrow> nat \<Rightarrow> nat \<Rightarrow> bytes \<Rightarrow> bytes" where
  "raw_apdu ins p1 p2 data =
     (let n = min (length data) 300
      in [NUL, byte_of ins, byte_of p1, byte_of p2, byte_of (u8 n)] @ take n data)"

definition error_with_message :: "parser_error \<Rightarrow> action" where
  "error_with_message e =
     (let r = reply_with [description e] DATA_INVALID
      in if e = BlindsignModeRequired then BlindSignRequired r else Reply r)"

definition bool_byte :: "bool \<Rightarrow> byte" where
  "bool_byte b = (if b then byte_of 1 else NUL)"

definition get_version :: "os_env \<Rightarrow> action" where
  "get_version env = (case app_version env of (major, minor, patch) \<Rightarrow>
     Reply (reply_with [[NUL], be16 major, be16 minor, be16 patch, [bool_byte (ux_locked env)],
       be32 (os_target_id env)] SW_OK))"

section \<open>Addresses\<close>

text \<open>\<open>extract_hd_path\<close>: closes a modern stream; the path is overwritten before its check.\<close>

definition extract_hd_path :: "bytes \<Rightarrow> unit handler" where
  "extract_hd_path data =
     thn (modifies (\<lambda>m. case app_stream m of Modern _ \<Rightarrow> m \<lparr> app_stream := StreamNone \<rparr> | _ \<Rightarrow> m))
     (thn (require WRONG_LENGTH (length data \<ge> 20))
     (thn (modifies (\<lambda>m. m \<lparr> hd_path := map (\<lambda>i. le32 (drop (4 * i) data)) [0..<5] \<rparr>))
     (bnd (reads hd_path) (\<lambda>p. require DATA_INVALID (prefix_ok p)))))"

definition fill_address :: "os_env \<Rightarrow> bytes handler" where
  "fill_address env = bnd (reads hd_path) (\<lambda>p. lifts (ok_or EXECUTION_ERROR (public_key env p)))"

definition get_addr :: "os_env \<Rightarrow> nat \<Rightarrow> bytes \<Rightarrow> action handler" where
  "get_addr env p1 data =
     thn (extract_hd_path data)
     (bnd (fill_address env) (\<lambda>pk.
       if p1 \<noteq> 0
       then thn (modifies (\<lambda>m. m \<lparr> app_pending := PendingAddress pk False \<rparr>)) (ret ReviewAddress)
       else ret (Reply (reply_with [pk] SW_OK))))"

section \<open>The modern stream\<close>

definition close_stream :: "unit handler" where
  "close_stream = modifies (\<lambda>m. m \<lparr> app_stream := StreamNone \<rparr>)"

definition continue_modern :: "nat \<Rightarrow> unit handler" where
  "continue_modern ins = bnd (reads app_stream) (\<lambda>s.
     if s = Modern ins then ret () else thn close_stream (fails TX_NOT_INITIALIZED))"

definition legacy_first_chunk :: "nat \<Rightarrow> bool handler" where
  "legacy_first_chunk ins = bnd (reads app_stream) (\<lambda>s.
     if s = StreamNone then ret True
     else if s = Legacy ins then ret False
     else bnd close_stream (\<lambda>_. fails TX_NOT_INITIALIZED))"

definition dev_append :: "bytes \<Rightarrow> bool handler" where
  "dev_append data m = (let (ok, d) = tx_append (dev m) data in (Inr ok, m \<lparr> dev := d \<rparr>))"

definition dev_reset :: "unit handler" where
  "dev_reset = modifies (\<lambda>m. m \<lparr> dev := tx_reset (dev m) \<rparr>)"

subsection \<open>\<open>tx_parse\<close>\<close>

type_synonym 'a parser = "(machine, parser_error, 'a) prog"

text \<open>A parser operation on the parsed transaction of the app.\<close>

definition on_parsed :: "'a parse \<Rightarrow> 'a parser" where
  "on_parsed f m = (let (r, ps) = f (app_parsed m) in (r, m \<lparr> app_parsed := ps \<rparr>))"

text \<open>Tokenizing: the transaction itself, nothing, or the template built from the body.\<close>

definition tx_tokenize :: "os_env \<Rightarrow> nat \<Rightarrow> tx_type \<Rightarrow> nat \<Rightarrow> unit parser" where
  "tx_tokenize env cap ty len =
     (case ty of
        TxJson \<Rightarrow> bnd (reads (\<lambda>m. tx (dev m))) (\<lambda>b. on_parsed (read_json cap (take len b)))
      | TxHash \<Rightarrow> if len \<noteq> HASH_LEN then fails UnexpectedBufferEnd else ret ()
      | TxTransfer \<Rightarrow>
          bnd (reads (\<lambda>m. (tx (dev m), sign_path m))) (\<lambda>(b, path).
          bnd (lifts (transfer_build (take len b) (public_key env path))) (\<lambda>t.
          thn (modifies (\<lambda>m. m \<lparr> dev := template_store (dev m) t \<rparr>))
          (bnd (reads (\<lambda>m. template (dev m))) (\<lambda>t'. on_parsed (read_json cap t'))))))"

definition json_source :: "tx_type \<Rightarrow> nat \<Rightarrow> device \<Rightarrow> bytes" where
  "json_source ty len d =
     (case ty of TxJson \<Rightarrow> take len (tx d) | TxTransfer \<Rightarrow> template d | TxHash \<Rightarrow> [])"

text \<open>V11, V14, V20, V23: is the review a blind-signing one, and is that allowed?\<close>

definition blind_gate :: "os_env \<Rightarrow> tx_type \<Rightarrow> bool \<Rightarrow> parser_error + bool" where
  "blind_gate env ty needs =
     (if ty = TxHash then Inr True
      else if needs then if dev_blind_signing env then Inr True else Inl BlindsignModeRequired
      else Inr False)"

definition tx_parse :: "os_env \<Rightarrow> nat \<Rightarrow> tx_type \<Rightarrow> nat \<Rightarrow> bool parser" where
  "tx_parse env cap ty len =
     (if ty = TxHash \<and> \<not> dev_blind_signing env then fails BlindsignModeRequired
      else if len = 0 then fails InitContextEmpty
      else
        bnd (reads sign_path) (\<lambda>path.
        thn (tx_tokenize env cap ty len)
        (bnd (reads dev) (\<lambda>d.
          let js = json_source ty len d;
              hin = (if ty = TxHash then Some (take HASH_LEN (tx d)) else None)
          in thn (on_parsed (store_items (public_key env path) (os_blake2b env) ty js hin (dev_expert env)))
             (bnd (reads app_parsed) (\<lambda>ps.
               thn (lifts (validate ps (public_key env path) js))
               (lifts (blind_gate env ty (needs_blind (p_items ps))))))))))"

text \<open>The outcome of a parse as a value, the state as the parse left it.\<close>

definition try_parse :: "'a parser \<Rightarrow> (parser_error + 'a) handler" where
  "try_parse f m = (let (r, m') = f m in (Inr r, m'))"

text \<open>The end of every signing handler: parse; then reply \<open>on_error\<close>, or leave the signature pending and ask for the review.\<close>

definition review_parsed :: "os_env \<Rightarrow> nat \<Rightarrow> tx_type \<Rightarrow> nat \<Rightarrow> sign_kind \<Rightarrow> (parser_error \<Rightarrow> action handler) \<Rightarrow> action handler" where
  "review_parsed env cap ty len kind on_error =
     bnd (try_parse (tx_parse env cap ty len)) (\<lambda>r.
       case r of
         Inl e \<Rightarrow> on_error e
       | Inr blind \<Rightarrow>
           thn (modifies (\<lambda>m. m \<lparr> app_pending := PendingSign kind \<rparr>)) (ret (ReviewTx blind)))"

definition sign_chunk :: "os_env \<Rightarrow> nat \<Rightarrow> nat \<Rightarrow> tx_type \<Rightarrow> nat \<Rightarrow> bytes \<Rightarrow> action handler" where
  "sign_chunk env cap ins ty p1 data =
     (if p1 = P1_INIT then
        thn dev_reset
        (thn close_stream
        (thn (extract_hd_path data)
        (thn (modifies (\<lambda>m. m \<lparr> sign_path := hd_path m, app_stream := Modern ins \<rparr>))
             (ret (Reply (reply_only SW_OK))))))
      else if p1 = P1_ADD then
        thn (continue_modern ins)
        (bnd (dev_append data) (\<lambda>ok.
          if \<not> ok then thn close_stream (fails OUTPUT_BUFFER_TOO_SMALL)
          else ret (Reply (reply_only SW_OK))))
      else if p1 = P1_LAST then
        thn (continue_modern ins)
        (bnd (dev_append data) (\<lambda>ok.
         thn close_stream
         (if \<not> ok then fails OUTPUT_BUFFER_TOO_SMALL
          else bnd (reads (\<lambda>m. length (tx (dev m)))) (\<lambda>len.
               review_parsed env cap ty len (SignModern ty) (\<lambda>e. ret (error_with_message e))))))
      else fails INVALID_P1P2)"

section \<open>The legacy family\<close>

text \<open>\<open>legacy_extract_hd_path\<close> over \<open>buf[..rx]\<close>.\<close>

definition legacy_extract_hd_path :: "bytes \<Rightarrow> nat \<Rightarrow> bool \<Rightarrow> unit handler" where
  "legacy_extract_hd_path b offset check_len =
     (let rx = length b in
      if rx \<le> offset then fails WRONG_LENGTH
      else (let qty = byte_val (b ! offset); len = qty * 4; start = offset + 1 in
        if \<not> (2 \<le> qty \<and> qty \<le> 5) then fails DATA_INVALID
        else if start + len > rx then fails WRONG_LENGTH
        else if check_len \<and> rx - start \<noteq> len then fails WRONG_LENGTH
        else
          thn (modifies (\<lambda>m. m \<lparr> hd_path :=
                 map (\<lambda>i. if i < qty then le32 (drop (start + 4 * i) b) else 0) [0..<5] \<rparr>))
          (bnd (reads hd_path) (\<lambda>p.
           thn (require DATA_INVALID (prefix_ok p))
               (modifies (\<lambda>m. m \<lparr> hdpath_length := len + 1 \<rparr>))))))"

definition legacy_get_addr :: "os_env \<Rightarrow> bool \<Rightarrow> nat \<Rightarrow> nat \<Rightarrow> nat \<Rightarrow> bytes \<Rightarrow> action handler" where
  "legacy_get_addr env show_it ins p1 p2 data =
     thn (legacy_extract_hd_path (raw_apdu ins p1 p2 data) LEGACY_HEADER_LENGTH True)
     (bnd (fill_address env) (\<lambda>pk.
       if show_it
       then thn (modifies (\<lambda>m. m \<lparr> app_pending := PendingAddress pk True \<rparr>)) (ret ReviewAddress)
       else ret (Reply (reply_with [[byte_of 32], pk] SW_OK))))"

definition legacy_append :: "bytes \<Rightarrow> unit handler" where
  "legacy_append data =
     bnd (dev_append data) (\<lambda>ok.
       if \<not> ok then thn dev_reset (thn close_stream (fails OUTPUT_BUFFER_TOO_SMALL)) else ret ())"

definition legacy_check_end_of_chunk :: "machine \<Rightarrow> bool" where
  "legacy_check_end_of_chunk m =
     (let b = tx (dev m); n = length b; pl = payload_length m in
      pl < n \<and>
      (let qty = byte_val (b ! pl) in 2 \<le> qty \<and> qty \<le> 5 \<and> pl + qty * 4 + 1 = n))"

text \<open>The first chunk of INS 0x03 / 0x04: how many bytes it skips.\<close>

definition legacy_open :: "nat \<Rightarrow> bool \<Rightarrow> bytes \<Rightarrow> nat handler" where
  "legacy_open ins json data =
     bnd (legacy_first_chunk ins) (\<lambda>first.
       if \<not> first then ret 0
       else if json \<and> length data < 4 then fails WRONG_LENGTH
       else thn (modifies (\<lambda>m. m \<lparr> payload_length := (if json then unat (le32 data) else HASH_LEN) \<rparr>))
            (thn dev_reset
            (thn (modifies (\<lambda>m. m \<lparr> app_stream := Legacy ins \<rparr>))
                 (ret (if json then 4 else 0)))))"

definition legacy_check_request :: "bool \<Rightarrow> nat handler" where
  "legacy_check_request json =
     bnd (reads (\<lambda>m. (tx (dev m), payload_length m))) (\<lambda>(b, pl).
       if length b < pl then bnd dev_reset (\<lambda>_. fails DATA_INVALID)
       else thn (legacy_extract_hd_path b pl True)
         (bnd (reads hdpath_length) (\<lambda>hl.
           if length b \<noteq> hl + pl then bnd dev_reset (\<lambda>_. fails DATA_INVALID)
           else ret (length b - hl))))"

text \<open>Anything but a missing blind-signing setting clears a refused transaction.\<close>

definition legacy_error :: "bool \<Rightarrow> parser_error \<Rightarrow> action handler" where
  "legacy_error json e =
     (if json \<and> e \<noteq> BlindsignModeRequired then bnd dev_reset (\<lambda>_. fails DATA_INVALID)
      else ret (error_with_message e))"

text \<open>All chunks are there: the path behind the message, then the review.\<close>

definition legacy_complete :: "os_env \<Rightarrow> nat \<Rightarrow> bool \<Rightarrow> action handler" where
  "legacy_complete env cap json =
     bnd (legacy_check_request json) (\<lambda>msg_len.
     thn (modifies (\<lambda>m. m \<lparr> sign_path := hd_path m \<rparr>))
     (let ty = (if json then TxJson else TxHash) in
      review_parsed env cap ty msg_len (SignLegacy ty msg_len) (legacy_error json)))"

definition legacy_sign :: "os_env \<Rightarrow> nat \<Rightarrow> nat \<Rightarrow> bool \<Rightarrow> bytes \<Rightarrow> action handler" where
  "legacy_sign env cap ins json data =
     bnd (legacy_open ins json data) (\<lambda>off.
     thn (legacy_append (drop off data))
     (bnd (reads legacy_check_end_of_chunk) (\<lambda>ended.
       if \<not> (LEGACY_HEADER_LENGTH + length data < LEGACY_FULL_CHUNK_SIZE \<or> ended)
       then ret (Reply (reply_only SW_OK))
       else thn close_stream (legacy_complete env cap json))))"

subsection \<open>INS 0x10\<close>

definition legacy_initialize_transfer :: "bytes \<Rightarrow> nat handler" where
  "legacy_initialize_transfer b =
     thn (modifies (\<lambda>m. m \<lparr> local_data_len := 0, check_item_len := False, item_len := 0, legacy_items := 0 \<rparr>))
     (thn (legacy_extract_hd_path b LEGACY_HEADER_LENGTH False)
     (thn (modifies (\<lambda>m. m \<lparr> sign_path := hd_path m \<rparr>))
     (thn dev_reset
     (thn (modifies (\<lambda>m. m \<lparr> app_stream := Legacy INS_LEGACY_TRANSFER \<rparr>))
     (bnd (reads (\<lambda>m. hdpath_length m + LEGACY_HEADER_LENGTH)) (\<lambda>offset.
       thn (require WRONG_LENGTH (offset + 1 \<le> length b))
       (thn (legacy_append (take 1 (drop offset b)))
       (thn (modifies (\<lambda>m. m \<lparr> legacy_items := 0 \<rparr>))
            (ret offset)))))))))"

text \<open>A later chunk: first what was split off the last one; the offset and the item psize.\<close>

definition legacy_existing_transfer :: "bytes \<Rightarrow> (nat \<times> nat) handler" where
  "legacy_existing_transfer b =
     bnd (reads (\<lambda>m. take (local_data_len m) (local_data m))) (\<lambda>saved.
     thn (legacy_append saved)
     (bnd (reads (\<lambda>m. (check_item_len m, item_len m, local_data_len m))) (\<lambda>(chk, il, ll).
      bnd (if chk then
             (if length b \<le> LEGACY_HEADER_LENGTH then fails WRONG_LENGTH
              else (let psize = byte_val (b ! LEGACY_HEADER_LENGTH) in
                bnd (require WRONG_LENGTH (LEGACY_HEADER_LENGTH + psize + 1 \<le> length b)) (\<lambda>_.
                bnd (legacy_append (take (psize + 1) (drop LEGACY_HEADER_LENGTH b))) (\<lambda>_.
                  ret (LEGACY_HEADER_LENGTH, psize)))))
           else
             (if il \<le> ll then fails DATA_INVALID
              else (let psize = il - ll in
                bnd (require WRONG_LENGTH (LEGACY_HEADER_LENGTH + psize \<le> length b)) (\<lambda>_.
                bnd (legacy_append (take psize (drop LEGACY_HEADER_LENGTH b))) (\<lambda>_.
                  ret (LEGACY_HEADER_LENGTH - 1, psize))))))
        (\<lambda>p. bnd (modifies (\<lambda>m. m \<lparr> legacy_items := u8 (legacy_items m + 1), local_data_len := 0 \<rparr>))
          (\<lambda>_. ret p)))))"

definition legacy_handle_overflow :: "bytes \<Rightarrow> nat \<Rightarrow> nat \<Rightarrow> unit handler" where
  "legacy_handle_overflow b offset psize =
     thn (modifies (\<lambda>m. m \<lparr> check_item_len := False, item_len := u8 (psize + 1) \<rparr>))
     (if offset > LEGACY_FULL_CHUNK_SIZE then fails DATA_INVALID
      else (let n = LEGACY_FULL_CHUNK_SIZE - offset in
        if n \<ge> LEGACY_LOCAL_BUFFER_SIZE then fails OUTPUT_BUFFER_TOO_SMALL
        else modifies (\<lambda>m. m \<lparr> local_data_len := u8 n,
               local_data := take n (drop offset b) @ drop n (local_data m) \<rparr>)))"

text \<open>
  The item loop of \<open>legacy_transfer_chunk\<close>, \<open>while offset < rx\<close>. Each turn moves the offset past
  the item before, so it ends.
\<close>

function transfer_loop :: "bytes \<Rightarrow> nat \<Rightarrow> nat \<Rightarrow> bool handler" where
  "transfer_loop b offset psize m =
     (if \<not> offset < length b then fails DATA_INVALID m
      else (let pos = offset + (psize + 1) in
        if pos > length b then fails DATA_INVALID m
        else if pos = LEGACY_FULL_CHUNK_SIZE then (Inr False, m \<lparr> check_item_len := True \<rparr>)
        else if pos \<ge> length b then fails DATA_INVALID m
        else (let psize' = byte_val (b ! pos); nxt = pos + psize' + 1 in
          if nxt > LEGACY_FULL_CHUNK_SIZE then
            (if length b \<noteq> LEGACY_FULL_CHUNK_SIZE then fails WRONG_LENGTH m
             else bnd (legacy_handle_overflow b pos psize') (\<lambda>_. ret False) m)
          else if nxt > length b then fails WRONG_LENGTH m
          else (case legacy_append (take (psize' + 1) (drop pos b)) m of
                  (Inl e, m1) \<Rightarrow> (Inl e, m1)
                | (Inr _, m1) \<Rightarrow>
                    (let m2 = m1 \<lparr> legacy_items := u8 (legacy_items m1 + 1) \<rparr> in
                     if legacy_items m2 > LEGACY_TRANSFER_NUM_ITEMS then fails DATA_INVALID m2
                     else if nxt \<ge> length b \<and> nxt \<noteq> LEGACY_FULL_CHUNK_SIZE then
                       (if legacy_items m2 \<noteq> LEGACY_TRANSFER_NUM_ITEMS then fails DATA_INVALID m2
                        else (Inr True, m2 \<lparr> app_stream := StreamNone \<rparr>))
                     else transfer_loop b pos psize' m2)))))"
  by pat_completeness auto
termination
  by (relation "measure (\<lambda>(b, offset, psize, m). length b - offset)") auto

declare transfer_loop.simps [simp del]

definition legacy_transfer_chunk :: "bytes \<Rightarrow> bool handler" where
  "legacy_transfer_chunk b =
     bnd (legacy_first_chunk INS_LEGACY_TRANSFER) (\<lambda>first.
     bnd (if first then bnd (legacy_initialize_transfer b) (\<lambda>offset. ret (offset, 0))
          else legacy_existing_transfer b) (\<lambda>(offset, psize).
       transfer_loop b offset psize))"

definition transfer_error :: "parser_error \<Rightarrow> action handler" where
  "transfer_error e =
     (if e = BlindsignModeRequired then ret (error_with_message BlindsignModeRequired)
      else bnd dev_reset (\<lambda>_. fails DATA_INVALID))"

definition legacy_transfer :: "os_env \<Rightarrow> nat \<Rightarrow> nat \<Rightarrow> nat \<Rightarrow> nat \<Rightarrow> bytes \<Rightarrow> action handler" where
  "legacy_transfer env cap ins p1 p2 data m =
     (case legacy_transfer_chunk (raw_apdu ins p1 p2 data) m of
        (Inl code, m1) \<Rightarrow> (Inl code, m1 \<lparr> app_stream := StreamNone \<rparr>)
      | (Inr False, m1) \<Rightarrow> (Inr (Reply (reply_only SW_OK)), m1)
      | (Inr True, m1) \<Rightarrow>
          review_parsed env cap TxTransfer (length (tx (dev m1))) SignLegacyTransfer transfer_error m1)"

section \<open>Dispatch\<close>

definition dispatch :: "os_env \<Rightarrow> nat \<Rightarrow> nat \<Rightarrow> nat \<Rightarrow> nat \<Rightarrow> bytes \<Rightarrow> action handler" where
  "dispatch env cap ins p1 p2 data =
     (if ins = INS_GET_ADDR then get_addr env p1 data
      else if ins = INS_SIGN then sign_chunk env cap ins TxJson p1 data
      else if ins = INS_SIGN_HASH then sign_chunk env cap ins TxHash p1 data
      else if ins = INS_SIGN_TRANSFER then sign_chunk env cap ins TxTransfer p1 data
      else if ins = INS_LEGACY_GET_VERSION then
        (case app_version env of (major, minor, patch) \<Rightarrow>
          ret (Reply (reply_with [[byte_of (u8 major), byte_of (u8 minor), byte_of (u8 patch)]] SW_OK)))
      else if ins = INS_LEGACY_VERIFY_ADDRESS then legacy_get_addr env True ins p1 p2 data
      else if ins = INS_LEGACY_GET_PUBKEY then legacy_get_addr env False ins p1 p2 data
      else if ins = INS_LEGACY_SIGN_JSON then legacy_sign env cap ins True data
      else if ins = INS_LEGACY_SIGN_HASH then legacy_sign env cap ins False data
      else legacy_transfer env cap ins p1 p2 data)"

definition dispatched :: "nat list" where
  "dispatched = [INS_GET_ADDR, INS_SIGN, INS_SIGN_HASH, INS_SIGN_TRANSFER, INS_LEGACY_GET_VERSION,
     INS_LEGACY_VERIFY_ADDRESS, INS_LEGACY_GET_PUBKEY, INS_LEGACY_SIGN_JSON, INS_LEGACY_SIGN_HASH,
     INS_LEGACY_TRANSFER]"

text \<open>\<open>handle\<close>: one APDU. Whatever was pending is dropped first.\<close>

definition handle :: "os_env \<Rightarrow> nat \<Rightarrow> nat \<Rightarrow> nat \<Rightarrow> nat \<Rightarrow> nat \<Rightarrow> bytes \<Rightarrow> machine \<Rightarrow> action \<times> machine" where
  "handle env cap cla ins p1 p2 data m =
     (let m0 = m \<lparr> app_pending := PendingNone \<rparr> in
      if cla = 0xE0 \<and> ins = 0x01 \<and> p1 = 0 \<and> p2 = 0
      then (Reply \<lparr> payload = device_info env, reply_sw = SW_OK \<rparr>, m0)
      else if cla \<noteq> 0 then (Reply (reply_only CLA_NOT_SUPPORTED), m0)
      else (let (r, m1) =
              (if ins = INS_GET_VERSION then ret (get_version env)
               else if ins \<in> set dispatched then
                 (if \<not> os_pin_validated env then fails COMMAND_NOT_ALLOWED
                  else dispatch env cap ins p1 p2 data)
               else fails INS_NOT_SUPPORTED) m0
            in (case r of Inr a \<Rightarrow> a | Inl code \<Rightarrow> Reply (reply_only code), m1)))"

section \<open>After the user's decision\<close>

definition address_review :: "machine \<Rightarrow> bytes option" where
  "address_review m = (case app_pending m of PendingAddress pk _ \<Rightarrow> Some pk | _ \<Rightarrow> None)"

definition address_done :: "bool \<Rightarrow> machine \<Rightarrow> reply \<times> machine" where
  "address_done approved m =
     ((case (app_pending m, approved) of
         (PendingAddress pk legacy, True) \<Rightarrow>
           if legacy then reply_with [[byte_of 32], pk] SW_OK else reply_with [pk] SW_OK
       | _ \<Rightarrow> reply_only COMMAND_NOT_ALLOWED),
      m \<lparr> app_pending := PendingNone \<rparr>)"

definition review_json :: "machine \<Rightarrow> bytes" where
  "review_json m =
     (case p_tx_type (app_parsed m) of
        TxTransfer \<Rightarrow> template (dev m) | TxJson \<Rightarrow> tx (dev m) | TxHash \<Rightarrow> [])"

definition review_len :: "machine \<Rightarrow> nat" where
  "review_len m = num_items (app_parsed m)"

definition review_item :: "os_env \<Rightarrow> machine \<Rightarrow> nat \<Rightarrow> items_error + (bytes \<times> bytes)" where
  "review_item env m idx =
     parsed_item (app_parsed m) (public_key env (sign_path m)) (review_json m) idx"

definition sig_reply :: "bytes option \<Rightarrow> bytes list \<Rightarrow> reply" where
  "sig_reply s extra =
     (case s of None \<Rightarrow> reply_only SIGN_VERIFY_ERROR | Some sig \<Rightarrow> reply_with (sig # extra) SW_OK)"

definition sign_done :: "os_env \<Rightarrow> bool \<Rightarrow> machine \<Rightarrow> reply \<times> machine" where
  "sign_done env approved m =
     ((case app_pending m of
         PendingSign kind \<Rightarrow>
           if \<not> approved then reply_only COMMAND_NOT_ALLOWED
           else (case kind of
                   SignModern ty \<Rightarrow>
                     sig_reply (crypto_sign env (sign_path m)
                       (if ty = TxTransfer then template (dev m) else tx (dev m)) ty) []
                 | SignLegacy ty msg_len \<Rightarrow>
                     sig_reply (crypto_sign env (sign_path m) (take msg_len (tx (dev m))) ty) []
                 | SignLegacyTransfer \<Rightarrow>
                     (case public_key env (sign_path m) of
                        None \<Rightarrow> reply_only EXECUTION_ERROR
                      | Some pk \<Rightarrow>
                          sig_reply (crypto_sign env (sign_path m) (template (dev m)) TxTransfer) [pk]))
       | _ \<Rightarrow> reply_only COMMAND_NOT_ALLOWED),
      m \<lparr> app_pending := PendingNone \<rparr>)"

end
