(* ===== verification/App_Parse.thy ===== *)
theory App_Parse
  imports Parser_Props App
begin

text \<open>
  What \<open>tx_parse\<close> establishes: which fields of the machine it touches, and the relation between the
  bytes that will be signed, the review and the hash shown.
\<close>

section \<open>A reviewed document\<close>

text \<open>
  \<open>ps\<close> is the review of the document \<open>js\<close> for the key at \<open>path\<close>: all of \<open>js\<close> was tokenized, the
  items are those of the device's signer entry, every item renders, the hash shown is that of \<open>js\<close>.
\<close>

definition reviewed_json :: "os_env \<Rightarrow> nat \<Rightarrow> tx_type \<Rightarrow> bytes \<Rightarrow> path \<Rightarrow> parsed \<Rightarrow> entry list \<Rightarrow> bool" where
  "reviewed_json env cap ty js p ps es \<longleftrightarrow>
     parsed_json ps js = \<lparr> buf = js, tokens = p_tokens ps \<rparr> \<and>
     parse_strict cap js = Inr (p_tokens ps, length (p_tokens ps)) \<and> p_tokens ps \<noteq> [] \<and>
     json_wf (parsed_json ps js) \<and> check_key_integrity (parsed_json ps js) = Inr () \<and>
     p_tx_type ps = ty \<and> json_len ps = length js \<and> review_shown (p_items ps) es \<and>
     validate ps (public_key env p) js = Inr () \<and>
     \<not> is_ok (get_value (parsed_json ps js) 0 ''verifiers'') \<and>
     (\<exists>pk signer n digest. public_key env p = Some pk \<and>
        find_device_signer (parsed_json ps js) (hex_lower pk) = Inr (signer, n) \<and>
        full_review ty (parsed_json ps js) signer n (dev_expert env) = Inr es \<and>
        arr_nsigners (p_items ps) = n \<and>
        os_blake2b env js = Some digest \<and> b64 ps = map url_safe (base64_32 digest))"

definition reviewed_hash :: "os_env \<Rightarrow> bytes \<Rightarrow> path \<Rightarrow> parsed \<Rightarrow> entry list \<Rightarrow> bool" where
  "reviewed_hash env h p ps es \<longleftrightarrow> length h = HASH_LEN \<and> p_tx_type ps = TxHash \<and>
     review_shown (p_items ps) es \<and> validate ps (public_key env p) [] = Inr () \<and>
     hash_entries @ (if dev_expert env then expert_entries else []) = es \<and>
     b64 ps = map url_safe (base64_32 h)"

definition reviewed :: "os_env \<Rightarrow> nat \<Rightarrow> tx_type \<Rightarrow> bytes \<Rightarrow> path \<Rightarrow> parsed \<Rightarrow> entry list \<Rightarrow> bool" where
  "reviewed env cap ty msg p ps es \<longleftrightarrow>
     (if ty = TxHash then reviewed_hash env msg p ps es else reviewed_json env cap ty msg p ps es)"

text \<open>The bytes the signature of a pending review is over.\<close>

definition signed_bytes :: "tx_type \<Rightarrow> nat \<Rightarrow> device \<Rightarrow> bytes" where
  "signed_bytes ty len d = (if ty = TxTransfer then template d else take len (tx d))"

section \<open>What a parse establishes\<close>

lemma wp_on_parsed [wp_simps]:
  "wp (on_parsed f) Q E m \<longleftrightarrow>
     (case f (app_parsed m) of (Inr x, ps) \<Rightarrow> Q x (m \<lparr> app_parsed := ps \<rparr>)
      | (Inl e, ps) \<Rightarrow> E e (m \<lparr> app_parsed := ps \<rparr>))"
  by (simp add: wp_def on_parsed_def Let_def split: prod.splits sum.splits)

text \<open>The machine after a parse: only the parsed transaction and the device have changed.\<close>

definition parse_frame :: "machine \<Rightarrow> machine \<Rightarrow> bool" where
  "parse_frame m m' \<longleftrightarrow> (\<exists>ps d. m' = m \<lparr> app_parsed := ps, dev := d \<rparr> \<and> device_wf d)"

lemma parse_frameI: "device_wf d \<Longrightarrow> parse_frame m (m \<lparr> app_parsed := ps, dev := d \<rparr>)"
  unfolding parse_frame_def by blast

lemma parse_frame_refl: "device_wf (dev m) \<Longrightarrow> parse_frame m m"
  using parse_frameI [of "dev m" m "app_parsed m"] by simp

lemma parse_frame_parsed: "device_wf (dev m) \<Longrightarrow> parse_frame m (m \<lparr> app_parsed := ps \<rparr>)"
  using parse_frameI [of "dev m" m ps] by simp

lemma parse_frame_trans: "parse_frame m m1 \<Longrightarrow> parse_frame m1 m2 \<Longrightarrow> parse_frame m m2"
  unfolding parse_frame_def by force

lemma parse_frame_fields:
  assumes "parse_frame m m'"
  shows "device_wf (dev m')" "hd_path m' = hd_path m" "sign_path m' = sign_path m"
    "app_stream m' = app_stream m" "app_pending m' = app_pending m" "local_data m' = local_data m"
    "local_data_len m' = local_data_len m"
  using assms by (auto simp: parse_frame_def)

text \<open>The template is the one built from the buffered body.\<close>

definition built :: "os_env \<Rightarrow> tx_type \<Rightarrow> machine \<Rightarrow> bool" where
  "built env ty m \<longleftrightarrow> (ty = TxTransfer \<longrightarrow>
     transfer_build (tx (dev m)) (public_key env (sign_path m)) = Inr (template (dev m)))"

lemma built_parsed [simp]: "built env ty (m \<lparr> app_parsed := ps \<rparr>) = built env ty m"
  "built env ty (m \<lparr> app_pending := q \<rparr>) = built env ty m"
  by (simp_all add: built_def)

text \<open>Tokenizing: the JSON that is reviewed has been read whole.\<close>

definition tokenized :: "nat \<Rightarrow> tx_type \<Rightarrow> nat \<Rightarrow> machine \<Rightarrow> bool" where
  "tokenized cap ty len m \<longleftrightarrow>
     (if ty = TxHash then len = HASH_LEN
      else \<exists>ps. read_json cap (json_source ty len (dev m)) ps = (Inr (), app_parsed m))"

lemma read_json_wp:
  "(\<And>ps'. read_json cap bs (app_parsed m) = (Inr (), ps') \<Longrightarrow> Q () (m \<lparr> app_parsed := ps' \<rparr>)) \<Longrightarrow>
   (\<And>e ps'. E e (m \<lparr> app_parsed := ps' \<rparr>)) \<Longrightarrow> wp (on_parsed (read_json cap bs)) Q E m"
  by (auto simp: wp_on_parsed split: prod.splits sum.splits)

text \<open>The buffered transaction stays; the device changes at all only by the template.\<close>

definition kept :: "tx_type \<Rightarrow> machine \<Rightarrow> machine \<Rightarrow> bool" where
  "kept ty m m' \<longleftrightarrow> tx (dev m') = tx (dev m) \<and> (ty \<noteq> TxTransfer \<longrightarrow> dev m' = dev m)"

lemma tx_tokenize_wp:
  assumes wf: "device_wf (dev m)" and len: "ty = TxTransfer \<Longrightarrow> len = length (tx (dev m))"
  shows "wp (tx_tokenize env cap ty len)
     (\<lambda>_ m'. parse_frame m m' \<and> tokenized cap ty len m' \<and> built env ty m' \<and> kept ty m m')
     (\<lambda>_ m'. parse_frame m m' \<and> (ty \<noteq> TxTransfer \<longrightarrow> dev m' = dev m)) m"
proof (cases ty)
  case TxJson
  then show ?thesis unfolding tx_tokenize_def using parse_frame_parsed [OF wf]
    by (auto simp: wp_simps tokenized_def built_def kept_def json_source_def simp del: wp_on_parsed intro!: read_json_wp)
next
  case TxHash
  then show ?thesis unfolding tx_tokenize_def using parse_frame_refl [OF wf]
    by (simp add: wp_simps tokenized_def built_def kept_def)
next
  case TxTransfer
  have d: "device_wf (template_store (dev m) t)" for t using wf by (rule dev.invar_template)
  have swap: "x \<lparr> dev := d, app_parsed := ps \<rparr> = x \<lparr> app_parsed := ps, dev := d \<rparr>" for x :: machine and d ps
    by (rule machine.equality) simp_all
  have f: "parse_frame m (m \<lparr> dev := template_store (dev m) t, app_parsed := ps \<rparr>)" for t ps
    using parse_frameI [OF d [of t], of m ps] by (simp add: swap)
  have b: "built env TxTransfer (m \<lparr> dev := template_store (dev m) t \<rparr>)"
    "tx (template_store (dev m) t) = tx (dev m)"
    if "transfer_build (take len (tx (dev m))) (public_key env (sign_path m)) = Inr t" for t
    using template_built [OF wf, of env "sign_path m" t] that len [OF TxTransfer] by (simp_all add: built_def)
  show ?thesis unfolding tx_tokenize_def TxTransfer tx_type.case wp_bnd wp_reads wp_lifts split_beta
    by (auto simp: wp_thn wp_modifies wp_bnd wp_reads parse_frame_refl [OF wf] f b tokenized_def json_source_def kept_def
        split: sum.splits intro!: read_json_wp)
qed

lemma json_source_short: "device_wf d \<Longrightarrow> length (json_source ty len d) < UNSET"
  using length_buffering_get [of "dev_buffer d" "dev_ram d" "dev_flash d"]
  by (cases ty) (auto simp: json_source_def tx_def template_def device_wf_def UNSET_def FLASH_CAP_def
      TEMPLATE_BUF_def)

lemma json_source_signed: "ty \<noteq> TxHash \<Longrightarrow> json_source ty len d = signed_bytes ty len d"
  by (cases ty) (simp_all add: json_source_def signed_bytes_def)

lemma parsed_json_len:
  assumes "parsed_json ps = parsed_json ps1"
  shows "json_len ps = json_len ps1"
proof -
  let ?bs = "replicate (json_len ps + json_len ps1) NUL"
  have "length (buf (parsed_json ps ?bs)) = length (buf (parsed_json ps1 ?bs))" using assms by simp
  then show ?thesis by (simp add: parsed_json_def)
qed

lemma reviewed_jsonI:
  assumes wf: "device_wf d" and cap: "cap < UNSET" and ty: "ty \<noteq> TxHash"
    and rd: "read_json cap (json_source ty len d) ps0 = (Inr (), ps1)"
    and st: "store_items (public_key env p) (os_blake2b env) ty (json_source ty len d) hin
      (dev_expert env) ps1 = (Inr (), ps)"
    and v: "validate ps (public_key env p) (json_source ty len d) = Inr ()"
  shows "\<exists>es. reviewed env cap ty (signed_bytes ty len d) p ps es"
proof -
  let ?js = "json_source ty len d"
  note r = read_json_InrD [OF rd json_source_short [OF wf] cap]
  from store_items_json [OF st ty] obtain pk signer n es digest where s: "public_key env p = Some pk"
    "\<not> is_ok (get_value (parsed_json ps1 ?js) 0 ''verifiers'')"
    "find_device_signer (parsed_json ps1 ?js) (hex_lower pk) = Inr (signer, n)"
    "full_review ty (parsed_json ps1 ?js) signer n (dev_expert env) = Inr es"
    "review_shown (p_items ps) es" "os_blake2b env (take (json_len ps1) ?js) = Some digest"
    "b64 ps = map url_safe (base64_32 digest)" "p_tx_type ps = ty" "parsed_json ps = parsed_json ps1"
    "arr_nsigners (p_items ps) = n" by blast
  have "parsed_json ps ?js = \<lparr> buf = ?js, tokens = p_tokens ps \<rparr>" "p_tokens ps = p_tokens ps1"
    "json_len ps = length ?js"
    using r s(9) parsed_json_len [OF s(9)] by (simp_all add: parsed_json_def fun_eq_iff)
  then have "reviewed_json env cap ty ?js p ps es"
    unfolding reviewed_json_def s(9) using r s v by auto
  then show ?thesis using ty by (auto simp: reviewed_def json_source_signed)
qed

lemma reviewed_hashI:
  assumes len: "len = HASH_LEN" "len \<le> length (tx d)"
    and st: "store_items (public_key env p) (os_blake2b env) TxHash [] (Some (take HASH_LEN (tx d)))
      (dev_expert env) ps1 = (Inr (), ps)"
    and v: "validate ps (public_key env p) [] = Inr ()"
  shows "\<exists>es. reviewed env cap TxHash (signed_bytes TxHash len d) p ps es"
proof -
  from store_items_hash [OF st] obtain es where
    "full_review TxHash (parsed_json ps1 []) 0 0 (dev_expert env) = Inr es" "review_shown (p_items ps) es"
    "b64 ps = map url_safe (base64_32 (take HASH_LEN (tx d)))" "p_tx_type ps = TxHash" by blast
  then have "reviewed_hash env (take HASH_LEN (tx d)) p ps es"
    using v len by (auto simp: reviewed_hash_def full_review_def split: if_splits)
  then show ?thesis using len by (auto simp: reviewed_def signed_bytes_def)
qed

lemma reviewed_shown: "reviewed env cap ty msg p ps es \<Longrightarrow> review_shown (p_items ps) es"
  by (auto simp: reviewed_def reviewed_json_def reviewed_hash_def split: if_splits)

text \<open>
  A successful \<open>tx_parse\<close> leaves a review of exactly the bytes that will be signed; it asks for blind
  signing when the transaction is a bare hash or the review has a blind-signing warning, and then the
  setting is on. A failure touches nothing but the parsed transaction and the device's buffers.
\<close>

definition parse_result :: "os_env \<Rightarrow> nat \<Rightarrow> tx_type \<Rightarrow> nat \<Rightarrow> machine \<Rightarrow> bool \<Rightarrow> bool" where
  "parse_result env cap ty len m blind \<longleftrightarrow>
     (\<exists>es. reviewed env cap ty (signed_bytes ty len (dev m)) (sign_path m) (app_parsed m) es \<and>
        (blind \<longleftrightarrow> ty = TxHash \<or> list_ex blind_entry es)) \<and> (blind \<longrightarrow> dev_blind_signing env) \<and>
     built env ty m"

lemma parse_resultI:
  assumes "device_wf (dev m)" "cap < UNSET" "len \<le> length (tx (dev m))" "tokenized cap ty len m"
    and "ty = TxHash \<longrightarrow> dev_blind_signing env" "built env ty m" "path = sign_path m"
    and st: "store_items (public_key env path) (os_blake2b env) ty (json_source ty len (dev m))
      (if ty = TxHash then Some (take HASH_LEN (tx (dev m))) else None) (dev_expert env) (app_parsed m) = (Inr (), ps)"
    and v: "validate ps (public_key env path) (json_source ty len (dev m)) = Inr ()"
    and g: "blind_gate env ty (needs_blind (p_items ps)) = Inr blind"
  shows "parse_result env cap ty len (m \<lparr> app_parsed := ps \<rparr>) blind"
proof -
  have "\<exists>es. reviewed env cap ty (signed_bytes ty len (dev m)) path ps es"
  proof (cases "ty = TxHash")
    case True
    then show ?thesis using assms(3,4) st v reviewed_hashI [of len "dev m" env path "app_parsed m" ps cap]
      by (simp add: tokenized_def json_source_def)
  next
    case False
    then obtain ps0 where "read_json cap (json_source ty len (dev m)) ps0 = (Inr (), app_parsed m)"
      using assms(4) by (auto simp: tokenized_def)
    from reviewed_jsonI [OF assms(1,2) False this] st v False show ?thesis by auto
  qed
  then obtain es where es: "reviewed env cap ty (signed_bytes ty len (dev m)) path ps es" by blast
  then have "needs_blind (p_items ps) \<longleftrightarrow> list_ex blind_entry es" by (rule needs_blind_iff [OF reviewed_shown])
  then show ?thesis using es g assms(5-7) by (auto simp: parse_result_def blind_gate_def split: if_splits)
qed

lemma tx_parse_wp:
  assumes wf: "device_wf (dev m)" and cap: "cap < UNSET" and len: "len \<le> length (tx (dev m))"
    and whole: "ty = TxTransfer \<Longrightarrow> len = length (tx (dev m))"
  shows "wp (tx_parse env cap ty len)
     (\<lambda>blind m'. parse_frame m m' \<and> kept ty m m' \<and>
        parse_result env cap ty len m' blind)
     (\<lambda>_ m'. parse_frame m m' \<and> (ty \<noteq> TxTransfer \<longrightarrow> dev m' = dev m)) m"
proof (cases "(ty = TxHash \<and> \<not> dev_blind_signing env) \<or> len = 0")
  case True
  then show ?thesis using parse_frame_refl [OF wf] by (auto simp: tx_parse_def wp_simps)
next
  case False
  then have guards: "(ty = TxHash \<and> \<not> dev_blind_signing env) = False" "(len = 0) = False" by auto
  show ?thesis unfolding tx_parse_def guards if_False wp_bnd [of "reads sign_path"] wp_reads wp_thn [of "tx_tokenize _ _ _ _"]
  proof (rule wp_mono [OF tx_tokenize_wp [OF wf whole]])
    fix m1
    assume m1: "parse_frame m m1 \<and> tokenized cap ty len m1 \<and> built env ty m1 \<and> kept ty m m1"
    then have d: "device_wf (dev m1)" "sign_path m = sign_path m1" "len \<le> length (tx (dev m1))"
      using parse_frame_fields len by (auto simp: kept_def)
    have "parse_frame m (m1 \<lparr> app_parsed := ps \<rparr>)" for ps
      using m1 parse_frame_trans [OF _ parse_frame_parsed] d(1) by blast
    then show "wp (bnd (reads dev) (\<lambda>d.
          let js = json_source ty len d;
              hin = (if ty = TxHash then Some (take HASH_LEN (tx d)) else None)
          in thn (on_parsed (store_items (public_key env (sign_path m)) (os_blake2b env) ty js hin (dev_expert env)))
             (bnd (reads app_parsed) (\<lambda>ps.
               thn (lifts (validate ps (public_key env (sign_path m)) js))
               (lifts (blind_gate env ty (needs_blind (p_items ps))))))))
        (\<lambda>blind m'. parse_frame m m' \<and> kept ty m m' \<and> parse_result env cap ty len m' blind)
        (\<lambda>_ m'. parse_frame m m' \<and> (ty \<noteq> TxTransfer \<longrightarrow> dev m' = dev m)) m1"
      using m1 parse_resultI [OF d(1) cap d(3) _ _ _ d(2), of ty env] guards
      by (auto simp: wp_simps Let_def kept_def split: prod.splits sum.splits)
  qed simp_all
qed

end
