(* ===== verification/App_Props.thy ===== *)
theory App_Props
  imports App_Parse
begin

text \<open>
  The invariant of the command state machine, handler by handler: the device's storage is well
  formed, an open stream that signs with \<open>sign_path\<close> has an accepted path, the split-item buffer of
  the legacy transfer is in range, and a review is pending exactly when the action asks for one.
\<close>

section \<open>The invariant\<close>

definition stream_ok :: "machine \<Rightarrow> bool" where
  "stream_ok m \<longleftrightarrow>
     (case app_stream m of
        StreamNone \<Rightarrow> True
      | Modern i \<Rightarrow> i \<in> {INS_SIGN, INS_SIGN_HASH, INS_SIGN_TRANSFER} \<and> prefix_ok (sign_path m)
      | Legacy i \<Rightarrow> i \<in> {INS_LEGACY_SIGN_JSON, INS_LEGACY_SIGN_HASH, INS_LEGACY_TRANSFER} \<and>
          (i = INS_LEGACY_TRANSFER \<longrightarrow> prefix_ok (sign_path m)))"

definition minv :: "machine \<Rightarrow> bool" where
  "minv m \<longleftrightarrow> device_wf (dev m) \<and> length (hd_path m) = 5 \<and> length (sign_path m) = 5 \<and>
     length (local_data m) = LEGACY_LOCAL_BUFFER_SIZE \<and> local_data_len m \<le> LEGACY_LOCAL_BUFFER_SIZE \<and>
     stream_ok m"

definition idle :: "machine \<Rightarrow> bool" where
  "idle m \<longleftrightarrow> minv m \<and> app_pending m = PendingNone"

lemmas inv_defs = idle_def minv_def stream_ok_def

text \<open>The type and the bytes of a pending signature.\<close>

fun kind_type :: "sign_kind \<Rightarrow> tx_type" where
  "kind_type (SignModern ty) = ty"
| "kind_type (SignLegacy ty n) = ty"
| "kind_type SignLegacyTransfer = TxTransfer"

fun kind_bytes :: "sign_kind \<Rightarrow> device \<Rightarrow> bytes" where
  "kind_bytes (SignModern ty) d = (if ty = TxTransfer then template d else tx d)"
| "kind_bytes (SignLegacy ty n) d = take n (tx d)"
| "kind_bytes SignLegacyTransfer d = template d"

fun kind_ok :: "sign_kind \<Rightarrow> bool" where
  "kind_ok (SignLegacy ty n) \<longleftrightarrow> ty \<noteq> TxTransfer"
| "kind_ok (SignModern ty) \<longleftrightarrow> True"
| "kind_ok SignLegacyTransfer \<longleftrightarrow> True"

text \<open>What is pending after an action: nothing after a reply, the matching review otherwise.\<close>

definition sign_pending :: "os_env \<Rightarrow> nat \<Rightarrow> bool \<Rightarrow> machine \<Rightarrow> bool" where
  "sign_pending env cap blind m \<longleftrightarrow> prefix_ok (sign_path m) \<and> (blind \<longrightarrow> dev_blind_signing env) \<and>
     (\<exists>kind es. app_pending m = PendingSign kind \<and> kind_ok kind \<and>
        reviewed env cap (kind_type kind) (kind_bytes kind (dev m)) (sign_path m) (app_parsed m) es \<and>
        (blind \<longleftrightarrow> kind_type kind = TxHash \<or> list_ex blind_entry es) \<and> built env (kind_type kind) m)"

definition address_pending :: "os_env \<Rightarrow> machine \<Rightarrow> bool" where
  "address_pending env m \<longleftrightarrow> prefix_ok (hd_path m) \<and>
     (\<exists>pk legacy. app_pending m = PendingAddress pk legacy \<and> public_key env (hd_path m) = Some pk)"

definition outcome :: "os_env \<Rightarrow> nat \<Rightarrow> action \<Rightarrow> machine \<Rightarrow> bool" where
  "outcome env cap a m \<longleftrightarrow> minv m \<and>
     (case a of
        Reply r \<Rightarrow> app_pending m = PendingNone
      | BlindSignRequired r \<Rightarrow> app_pending m = PendingNone
      | ReviewAddress \<Rightarrow> address_pending env m
      | ReviewTx blind \<Rightarrow> sign_pending env cap blind m)"

text \<open>The contract of a handler.\<close>

definition handler_ok :: "os_env \<Rightarrow> nat \<Rightarrow> action handler \<Rightarrow> machine \<Rightarrow> bool" where
  "handler_ok env cap h m \<longleftrightarrow> wp h (outcome env cap) (\<lambda>_. idle) m"

section \<open>Rules for the building blocks\<close>

lemma wp_require [wp_simps]: "wp (require w c) Q E m = (if c then Q () m else E w m)"
  by (simp add: require_def wp_simps)

lemma wp_dev_append [wp_simps]:
  "wp (dev_append d) Q E m = Q (fst (tx_append (dev m) d)) (m \<lparr> dev := snd (tx_append (dev m) d) \<rparr>)"
  by (simp add: wp_def dev_append_def split: prod.splits)

lemma wp_dev_reset [wp_simps]: "wp dev_reset Q E m = Q () (m \<lparr> dev := tx_reset (dev m) \<rparr>)"
  by (simp add: dev_reset_def wp_simps)

lemma wp_close_stream [wp_simps]: "wp close_stream Q E m = Q () (m \<lparr> app_stream := StreamNone \<rparr>)"
  by (simp add: close_stream_def wp_simps)

lemma wp_try_parse [wp_simps]: "wp (try_parse f) Q E m = wp f (\<lambda>x. Q (Inr x)) (\<lambda>e. Q (Inl e)) m"
  by (simp add: wp_def try_parse_def split: prod.splits sum.splits)

text \<open>Updates that keep the invariant.\<close>

lemma idle_dev: "idle m \<Longrightarrow> device_wf d \<Longrightarrow> idle (m \<lparr> dev := d \<rparr>)"
  by (simp add: inv_defs split: stream.splits)

lemma idle_close: "idle m \<Longrightarrow> idle (m \<lparr> app_stream := StreamNone \<rparr>)"
  by (simp add: inv_defs split: stream.splits)

lemma idle_hd_path: "idle m \<Longrightarrow> length p = 5 \<Longrightarrow> idle (m \<lparr> hd_path := p \<rparr>)"
  by (simp add: inv_defs split: stream.splits)

lemma idle_device: "idle m \<Longrightarrow> device_wf (dev m)"
  by (simp add: inv_defs)

lemma idle_reset: "idle m \<Longrightarrow> idle (m \<lparr> dev := tx_reset (dev m) \<rparr>)"
  by (intro idle_dev dev.invar_reset idle_device)

lemma idle_append: "idle m \<Longrightarrow> idle (m \<lparr> dev := snd (tx_append (dev m) d) \<rparr>)"
  by (intro idle_dev dev.invar_append idle_device)

lemmas idle_intros = idle_close idle_hd_path idle_reset idle_append

lemma idle_frame: "idle m \<Longrightarrow> parse_frame m m' \<Longrightarrow> idle m'"
  by (auto simp: parse_frame_def inv_defs split: stream.splits)

lemma outcome_reply: "idle m \<Longrightarrow> outcome env cap (Reply r) m"
  "idle m \<Longrightarrow> outcome env cap (BlindSignRequired r) m"
  by (simp_all add: outcome_def idle_def)

lemma outcome_message: "idle m \<Longrightarrow> outcome env cap (error_with_message e) m"
  by (simp add: error_with_message_def Let_def outcome_reply)

section \<open>Addresses\<close>

lemma idle_close_modern:
  "idle m \<Longrightarrow> idle (case app_stream m of Modern i \<Rightarrow> m \<lparr> app_stream := StreamNone \<rparr> | _ \<Rightarrow> m)"
  by (simp add: idle_close split: stream.splits)

lemma extract_hd_path_wp:
  assumes "idle m"
  shows "wp (extract_hd_path data) (\<lambda>_ m'. idle m' \<and> prefix_ok (hd_path m')) (\<lambda>_. idle) m"
  using idle_close_modern [OF assms] unfolding extract_hd_path_def
  by (auto simp: wp_simps idle_hd_path)

lemma minv_pending: "idle m \<Longrightarrow> minv (m \<lparr> app_pending := q \<rparr>)"
  by (simp add: inv_defs split: stream.splits)

lemma outcome_address:
  "idle m \<Longrightarrow> prefix_ok (hd_path m) \<Longrightarrow> public_key env (hd_path m) = Some pk \<Longrightarrow>
   outcome env cap ReviewAddress (m \<lparr> app_pending := PendingAddress pk legacy \<rparr>)"
  by (simp add: outcome_def minv_pending address_pending_def)

lemma get_addr_ok: "idle m \<Longrightarrow> handler_ok env cap (get_addr env p1 data) m"
  unfolding handler_ok_def get_addr_def fill_address_def wp_thn
  by (rule wp_mono [OF extract_hd_path_wp])
     (auto simp: wp_simps outcome_reply split: option.splits sum.splits intro: outcome_address
       simp flip: not_None_eq)

section \<open>The modern stream\<close>

lemma outcome_sign:
  assumes "parse_frame m m'" "idle m" "prefix_ok (sign_path m)" "parse_result env cap (kind_type kind) len m' blind"
    "kind_bytes kind (dev m') = signed_bytes (kind_type kind) len (dev m')" "kind_ok kind"
  shows "outcome env cap (ReviewTx blind) (m' \<lparr> app_pending := PendingSign kind \<rparr>)"
  using assms minv_pending [OF idle_frame [OF assms(2,1)]] parse_frame_fields(3) [OF assms(1)]
  by (auto simp: outcome_def sign_pending_def parse_result_def)

text \<open>The parse at the end of a stream: a review of the bytes that will be signed, or an error.\<close>

lemma parse_review_wp:
  assumes m: "idle m" "prefix_ok (sign_path m)" and cap: "cap < UNSET"
    and len: "len \<le> length (tx (dev m))" and whole: "ty = TxTransfer \<Longrightarrow> len = length (tx (dev m))"
    and ty: "kind_type kind = ty" "kind_ok kind"
    and b: "\<And>d. ty = TxTransfer \<or> d = dev m \<Longrightarrow> kind_bytes kind d = signed_bytes ty len d"
  shows "wp (tx_parse env cap ty len)
     (\<lambda>blind m'. outcome env cap (ReviewTx blind) (m' \<lparr> app_pending := PendingSign kind \<rparr>)) (\<lambda>_. idle) m"
proof (rule wp_mono [OF tx_parse_wp [OF idle_device [OF m(1)] cap len whole]])
  fix blind m'
  assume "parse_frame m m' \<and> kept ty m m' \<and> parse_result env cap ty len m' blind"
  then show "outcome env cap (ReviewTx blind) (m' \<lparr> app_pending := PendingSign kind \<rparr>)"
    using outcome_sign [OF _ m, of m' env cap kind len blind] b [of "dev m'"] ty
    by (auto simp: kept_def)
next
  show "parse_frame m m' \<and> (ty \<noteq> TxTransfer \<longrightarrow> dev m' = dev m) \<Longrightarrow> idle m'" for m'
    using idle_frame [OF m(1)] by blast
qed

lemma wp_review_parsed:
  "wp (review_parsed env cap ty len kind g) Q E m =
    wp (tx_parse env cap ty len) (\<lambda>blind x. Q (ReviewTx blind) (x \<lparr> app_pending := PendingSign kind \<rparr>)) (\<lambda>e. wp (g e) Q E) m"
  by (simp add: review_parsed_def wp_bnd wp_try_parse wp_thn [abs_def] wp_modifies [abs_def] wp_ret [abs_def])

lemma parse_reply_wp:
  assumes "idle m" "prefix_ok (sign_path m)" "cap < UNSET" "len \<le> length (tx (dev m))"
    "ty = TxTransfer \<Longrightarrow> len = length (tx (dev m))" "kind_type kind = ty" "kind_ok kind"
    and "\<And>d. ty = TxTransfer \<or> d = dev m \<Longrightarrow> kind_bytes kind d = signed_bytes ty len d"
    and g: "\<And>e x. idle x \<Longrightarrow> handler_ok env cap (g e) x"
  shows "handler_ok env cap (review_parsed env cap ty len kind g) m"
  unfolding handler_ok_def wp_review_parsed
  by (rule wp_mono [OF parse_review_wp [OF assms(1-8)]]) (use g in \<open>simp_all add: handler_ok_def\<close>)

lemma message_ok: "idle m \<Longrightarrow> handler_ok env cap (ret (error_with_message e)) m"
  by (simp add: handler_ok_def wp_simps outcome_message)

lemma refuse_ok: "idle m \<Longrightarrow> handler_ok env cap (bnd dev_reset (\<lambda>_. fails e)) m"
  by (simp add: handler_ok_def wp_simps idle_reset)

lemma continue_modern_wp:
  assumes "idle m"
  shows "wp (continue_modern ins) (\<lambda>_ m'. m' = m \<and> prefix_ok (sign_path m)) (\<lambda>_. idle) m"
  using assms unfolding continue_modern_def
  by (simp add: wp_simps idle_close) (auto simp: inv_defs)

text \<open>The parse at the end of a stream: a reply, or a review of the whole buffer.\<close>

lemma sign_chunk_ok:
  assumes m: "idle m" and cap: "cap < UNSET" and ins: "ins \<in> {INS_SIGN, INS_SIGN_HASH, INS_SIGN_TRANSFER}"
  shows "handler_ok env cap (sign_chunk env cap ins ty p1 data) m"
proof -
  consider (init) "p1 = P1_INIT" | (add) "p1 = P1_ADD" | (last) "p1 = P1_LAST"
    | (other) "p1 \<noteq> P1_INIT" "p1 \<noteq> P1_ADD" "p1 \<noteq> P1_LAST" by blast
  then show ?thesis
  proof cases
    case init
    have "idle (m \<lparr> dev := tx_reset (dev m), app_stream := StreamNone \<rparr>)"
      using idle_close [OF idle_reset [OF m]] by simp
    then show ?thesis unfolding handler_ok_def sign_chunk_def wp_if wp_thn wp_dev_reset wp_close_stream
      using init ins
      by (auto simp: wp_simps p1_defs intro!: wp_mono [OF extract_hd_path_wp])
         (auto simp: outcome_def inv_defs)
  next
    case add
    then show ?thesis unfolding handler_ok_def sign_chunk_def
      by (auto simp: wp_simps p1_defs intro!: wp_mono [OF continue_modern_wp [OF m]])
         (auto intro: idle_intros outcome_reply m)
  next
    case last
    let ?m = "m \<lparr> dev := snd (tx_append (dev m) data), app_stream := StreamNone \<rparr>"
    have a: "idle ?m" using idle_close [OF idle_append [OF m]] by simp
    have r: "handler_ok env cap (review_parsed env cap ty (length (tx (dev ?m))) (SignModern ty) (\<lambda>e. ret (error_with_message e))) ?m" if "prefix_ok (sign_path m)"
      using that by (intro parse_reply_wp [OF a _ cap] message_ok) (auto simp: signed_bytes_def)
    show ?thesis unfolding handler_ok_def sign_chunk_def
      using last a r [unfolded handler_ok_def]
      by (auto simp: wp_simps p1_defs intro!: wp_mono [OF continue_modern_wp [OF m]])
  next
    case other
    then show ?thesis using m unfolding handler_ok_def sign_chunk_def by (simp add: wp_simps)
  qed
qed

section \<open>The legacy family\<close>

lemma idle_sign_path: "idle m \<Longrightarrow> length p = 5 \<Longrightarrow> prefix_ok p \<Longrightarrow> idle (m \<lparr> sign_path := p \<rparr>)"
  by (auto simp: inv_defs split: stream.splits)

lemma idle_counters:
  "idle m \<Longrightarrow> idle (m \<lparr> payload_length := n \<rparr>)" "idle m \<Longrightarrow> idle (m \<lparr> hdpath_length := n \<rparr>)"
  "idle m \<Longrightarrow> idle (m \<lparr> legacy_items := n \<rparr>)" "idle m \<Longrightarrow> idle (m \<lparr> item_len := n \<rparr>)"
  "idle m \<Longrightarrow> idle (m \<lparr> check_item_len := c \<rparr>)"
  "idle m \<Longrightarrow> n \<le> LEGACY_LOCAL_BUFFER_SIZE \<Longrightarrow> idle (m \<lparr> local_data_len := n \<rparr>)"
  by (simp_all add: inv_defs split: stream.splits)

text \<open>A path read by a legacy command: five components, accepted, and its bytes inside the buffer.\<close>

lemma legacy_extract_hd_path_wp:
  assumes "idle m"
  shows "wp (legacy_extract_hd_path b offset chk)
     (\<lambda>_ m'. idle m' \<and> prefix_ok (hd_path m') \<and> dev m' = dev m \<and>
        offset + hdpath_length m' \<le> length b \<and> (chk \<longrightarrow> length b = offset + hdpath_length m')) (\<lambda>_. idle) m"
  using assms unfolding legacy_extract_hd_path_def Let_def
  by (auto simp: wp_simps intro!: idle_counters idle_hd_path)

lemma legacy_get_addr_ok: "idle m \<Longrightarrow> handler_ok env cap (legacy_get_addr env show_it ins p1 p2 data) m"
  unfolding handler_ok_def legacy_get_addr_def fill_address_def wp_thn
  by (rule wp_mono [OF legacy_extract_hd_path_wp])
     (auto simp: wp_simps outcome_reply split: option.splits sum.splits intro: outcome_address
       simp flip: not_None_eq)

lemma legacy_append_wp:
  assumes "idle m"
  shows "wp (legacy_append d) (\<lambda>_ m'. idle m' \<and> sign_path m' = sign_path m) (\<lambda>_. idle) m"
  using idle_append [OF assms, of d] idle_close [OF idle_reset [OF idle_append [OF assms, of d]]]
  unfolding legacy_append_def by (simp add: wp_simps)

lemma legacy_first_chunk_wp:
  assumes "idle m"
  shows "wp (legacy_first_chunk ins)
     (\<lambda>first m'. m' = m \<and> app_stream m = (if first then StreamNone else Legacy ins)) (\<lambda>_. idle) m"
  using assms unfolding legacy_first_chunk_def by (simp add: wp_simps idle_close)

lemma idle_legacy_stream:
  "idle m \<Longrightarrow> ins \<in> {INS_LEGACY_SIGN_JSON, INS_LEGACY_SIGN_HASH} \<Longrightarrow> idle (m \<lparr> app_stream := Legacy ins \<rparr>)"
  by (auto simp: inv_defs ins_defs)

lemma legacy_open_wp:
  assumes "idle m" "ins \<in> {INS_LEGACY_SIGN_JSON, INS_LEGACY_SIGN_HASH}"
  shows "wp (legacy_open ins json data) (\<lambda>_. idle) (\<lambda>_. idle) m"
proof -
  have "idle (m \<lparr> payload_length := n, dev := tx_reset (dev m), app_stream := Legacy ins \<rparr>)" for n
    using idle_legacy_stream [OF idle_reset [OF idle_counters(1) [OF assms(1)]] assms(2), of n] by simp
  then show ?thesis unfolding legacy_open_def wp_bnd using assms(1)
    by (auto simp: wp_simps intro!: wp_mono [OF legacy_first_chunk_wp])
qed

lemma legacy_check_request_wp:
  assumes "idle m"
  shows "wp (legacy_check_request json)
     (\<lambda>n m'. idle m' \<and> prefix_ok (hd_path m') \<and> n \<le> length (tx (dev m'))) (\<lambda>_. idle) m"
  using assms unfolding legacy_check_request_def wp_bnd wp_reads split_beta
  by (auto simp: wp_simps idle_reset intro!: wp_mono [OF legacy_extract_hd_path_wp])

lemma error_handlers_ok:
  "idle m \<Longrightarrow> handler_ok env cap (legacy_error json e) m" "idle m \<Longrightarrow> handler_ok env cap (transfer_error e) m"
  by (simp_all add: legacy_error_def transfer_error_def message_ok refuse_ok)

lemma legacy_complete_ok:
  assumes "idle m" "cap < UNSET"
  shows "handler_ok env cap (legacy_complete env cap json) m"
proof -
  let ?ty = "if json then TxJson else TxHash"
  have fin: "wp (review_parsed env cap ?ty n (SignLegacy ?ty n) (legacy_error json)) (outcome env cap) (\<lambda>_. idle) (y \<lparr> sign_path := hd_path y \<rparr>)"
    if "idle y \<and> prefix_ok (hd_path y) \<and> n \<le> length (tx (dev y))" for n y
  proof -
    have "idle (y \<lparr> sign_path := hd_path y \<rparr>)" using that idle_sign_path [of y "hd_path y"] by (simp add: inv_defs)
    then show ?thesis unfolding handler_ok_def [symmetric]
      by (rule parse_reply_wp [OF _ _ assms(2)]) (use that in \<open>auto simp: signed_bytes_def error_handlers_ok split: if_splits\<close>)
  qed
  show ?thesis unfolding handler_ok_def legacy_complete_def Let_def wp_bnd [of "legacy_check_request _"] wp_thn [of "modifies _"] wp_modifies
    by (rule wp_mono [OF legacy_check_request_wp [OF assms(1)]]) (simp_all add: fin)
qed

lemma legacy_sign_ok:
  assumes m: "idle m" and cap: "cap < UNSET" and ins: "ins \<in> {INS_LEGACY_SIGN_JSON, INS_LEGACY_SIGN_HASH}"
  shows "handler_ok env cap (legacy_sign env cap ins json data) m"
  unfolding handler_ok_def legacy_sign_def wp_bnd [of "legacy_open ins json data"] wp_thn [of "legacy_append _"]
proof (rule wp_mono [OF legacy_open_wp [OF m ins]], rule wp_mono [OF legacy_append_wp])
  fix off m1 m2
  assume "idle m1" and m2: "idle m2 \<and> sign_path m2 = sign_path m1"
  show "wp (bnd (reads legacy_check_end_of_chunk) (\<lambda>ended.
     if \<not> (LEGACY_HEADER_LENGTH + length data < LEGACY_FULL_CHUNK_SIZE \<or> ended)
     then ret (Reply (reply_only SW_OK))
     else thn close_stream (legacy_complete env cap json))) (outcome env cap) (\<lambda>_. idle) m2"
    unfolding wp_bnd [of "reads _"] wp_reads wp_if wp_ret wp_thn [of close_stream] wp_close_stream
    using m2 legacy_complete_ok [OF idle_close cap, unfolded handler_ok_def] by (auto intro: outcome_reply)
qed simp_all

subsection \<open>INS 0x10\<close>

text \<open>Between the chunks of a transfer: idle, and the path it will sign with is accepted.\<close>

definition armed :: "machine \<Rightarrow> bool" where
  "armed m \<longleftrightarrow> idle m \<and> prefix_ok (sign_path m)"

lemma armed_append_wp:
  assumes "armed m"
  shows "wp (legacy_append d) (\<lambda>_. armed) (\<lambda>_. idle) m"
  by (rule wp_mono [OF legacy_append_wp]) (use assms in \<open>simp_all add: armed_def\<close>)

lemma armed_counters:
  "armed m \<Longrightarrow> armed (m \<lparr> legacy_items := n \<rparr>)" "armed m \<Longrightarrow> armed (m \<lparr> item_len := n \<rparr>)"
  "armed m \<Longrightarrow> armed (m \<lparr> check_item_len := c \<rparr>)" "armed m \<Longrightarrow> armed (m \<lparr> app_stream := StreamNone \<rparr>)"
  "armed m \<Longrightarrow> armed (m \<lparr> local_data_len := 0 \<rparr>)"
  by (simp_all add: armed_def idle_counters idle_close)

lemma armed_idle: "armed m \<Longrightarrow> idle m"
  by (simp add: armed_def)

lemma armed_stream: "armed m \<Longrightarrow> armed (m \<lparr> app_stream := Legacy INS_LEGACY_TRANSFER \<rparr>)"
  by (simp add: armed_def inv_defs)

lemma legacy_initialize_transfer_wp:
  assumes "idle m"
  shows "wp (legacy_initialize_transfer b) (\<lambda>_. armed) (\<lambda>_. idle) m"
proof -
  have i: "idle (m \<lparr> local_data_len := 0, check_item_len := False, item_len := 0, legacy_items := 0 \<rparr>)"
    using assms by (intro idle_counters) simp_all
  have a: "armed (x \<lparr> sign_path := hd_path x, dev := tx_reset d, app_stream := Legacy INS_LEGACY_TRANSFER \<rparr>)"
    if "idle x" "prefix_ok (hd_path x)" "dev x = d" for x d
    using that by (auto simp: armed_def inv_defs tx_reset_def device_wf_def buffering_wf_new)
  show ?thesis unfolding legacy_initialize_transfer_def wp_thn [of "modifies _"] wp_modifies
      wp_thn [of "legacy_extract_hd_path _ _ _"]
    by (rule wp_mono [OF legacy_extract_hd_path_wp [OF i]])
       (auto simp: wp_thn wp_bnd wp_reads wp_modifies wp_dev_reset wp_require wp_ret
          intro!: wp_mono [OF armed_append_wp] armed_counters a armed_idle [OF a])
qed

lemma ifI: "(c \<Longrightarrow> P) \<Longrightarrow> (\<not> c \<Longrightarrow> Q) \<Longrightarrow> if c then P else Q"
  by simp

lemma legacy_existing_transfer_wp:
  assumes "armed m"
  shows "wp (legacy_existing_transfer b) (\<lambda>_. armed) (\<lambda>_. idle) m"
proof -
  let ?fin = "\<lambda>p. bnd (modifies (\<lambda>m. m \<lparr> legacy_items := u8 (legacy_items m + 1), local_data_len := 0 \<rparr>)) (\<lambda>_. ret p)"
  have fin: "wp (?fin p) (\<lambda>_. armed) (\<lambda>_. idle) x" if "armed x" for x and p :: "nat \<times> nat"
    using that by (simp add: wp_simps armed_counters)
  have step: "wp (bnd (require w c) (\<lambda>_. bnd (legacy_append d) (\<lambda>_. ret (u, v)))) (\<lambda>p. wp (?fin p) (\<lambda>_. armed) (\<lambda>_. idle))
      (\<lambda>_. idle) x" if "armed x" for w c d x and u v :: nat
    using that armed_idle [OF that] fin [of _ "(u, v)"]
    by (auto simp: wp_bnd wp_require wp_ret intro!: wp_mono [OF armed_append_wp])
  show ?thesis unfolding legacy_existing_transfer_def wp_bnd [of "reads _"] wp_reads wp_thn
  proof (rule wp_mono [OF armed_append_wp [OF assms]])
    fix x
    assume x: "armed x"
    show "wp (case (check_item_len x, item_len x, local_data_len x) of (chk, il, ll) \<Rightarrow>
      bnd (if chk then
             (if length b \<le> LEGACY_HEADER_LENGTH then fails WRONG_LENGTH
              else (let psize = byte_val (b ! LEGACY_HEADER_LENGTH) in
                bnd (require WRONG_LENGTH (LEGACY_HEADER_LENGTH + psize + 1 \<le> length b)) (\<lambda>_.
                bnd (legacy_append (take (psize + 1) (drop LEGACY_HEADER_LENGTH b))) (\<lambda>_.
                  ret (LEGACY_HEADER_LENGTH, psize)))))
           else
             (if il \<le> ll then fails DATA_INVALID
              else (let psize = il - ll in
                bnd (require WRONG_LENGTH (LEGACY_HEADER_LENGTH + psize \<le> length b)) (\<lambda>_.
                bnd (legacy_append (take psize (drop LEGACY_HEADER_LENGTH b))) (\<lambda>_.
                  ret (LEGACY_HEADER_LENGTH - 1, psize)))))) ?fin) (\<lambda>_. armed) (\<lambda>_. idle) x"
      unfolding prod.case Let_def wp_bnd [where f = ?fin] wp_if wp_fails
      by (intro ifI step [OF x] armed_idle [OF x])
  qed simp
qed

lemma legacy_handle_overflow_wp:
  assumes "armed m" "length b = LEGACY_FULL_CHUNK_SIZE"
  shows "wp (legacy_handle_overflow b offset psize) (\<lambda>_. armed) (\<lambda>_. idle) m"
  using assms unfolding legacy_handle_overflow_def Let_def
  by (auto simp: wp_simps armed_def idle_counters)
     (auto simp: inv_defs u8_def split: stream.splits)

text \<open>The item loop as a program, and the rule for it: a property of the position, kept from item to item.\<close>

lemma transfer_loop_prog:
  "transfer_loop b offset psize =
     (if \<not> offset < length b then fails DATA_INVALID
      else (let pos = offset + (psize + 1) in
        if pos > length b then fails DATA_INVALID
        else if pos = LEGACY_FULL_CHUNK_SIZE then bnd (modifies (\<lambda>m. m \<lparr> check_item_len := True \<rparr>)) (\<lambda>_. ret False)
        else if pos \<ge> length b then fails DATA_INVALID
        else (let psize' = byte_val (b ! pos); nxt = pos + psize' + 1 in
          if nxt > LEGACY_FULL_CHUNK_SIZE then
            (if length b \<noteq> LEGACY_FULL_CHUNK_SIZE then fails WRONG_LENGTH
             else bnd (legacy_handle_overflow b pos psize') (\<lambda>_. ret False))
          else if nxt > length b then fails WRONG_LENGTH
          else bnd (legacy_append (take (psize' + 1) (drop pos b))) (\<lambda>_.
               bnd (modifies (\<lambda>m. m \<lparr> legacy_items := u8 (legacy_items m + 1) \<rparr>)) (\<lambda>_.
               bnd (reads legacy_items) (\<lambda>n.
                 if n > LEGACY_TRANSFER_NUM_ITEMS then fails DATA_INVALID
                 else if nxt \<ge> length b \<and> nxt \<noteq> LEGACY_FULL_CHUNK_SIZE then
                   (if n \<noteq> LEGACY_TRANSFER_NUM_ITEMS then fails DATA_INVALID
                    else bnd close_stream (\<lambda>_. ret True))
                 else transfer_loop b pos psize'))))))"
  by (rule ext, subst transfer_loop.simps)
     (auto simp: Let_def bnd_def modifies_def reads_def ret_def close_stream_def split: prod.splits sum.splits)

lemma transfer_loop_rule:
  assumes append: "\<And>pos m. P pos m \<Longrightarrow> pos < length b \<Longrightarrow> pos + byte_val (b ! pos) + 1 \<le> length b \<Longrightarrow>
      pos + byte_val (b ! pos) + 1 \<le> LEGACY_FULL_CHUNK_SIZE \<Longrightarrow>
      wp (legacy_append (take (byte_val (b ! pos) + 1) (drop pos b)))
        (\<lambda>_ x. \<forall>n. P (pos + byte_val (b ! pos) + 1) (x \<lparr> legacy_items := n \<rparr>)) E m"
    and overflow: "\<And>pos m. P pos m \<Longrightarrow> length b = LEGACY_FULL_CHUNK_SIZE \<Longrightarrow> pos < length b \<Longrightarrow>
      wp (legacy_handle_overflow b pos (byte_val (b ! pos))) (\<lambda>_. R False) E m"
    and split: "\<And>m. P LEGACY_FULL_CHUNK_SIZE m \<Longrightarrow> R False (m \<lparr> check_item_len := True \<rparr>)"
    and whole: "\<And>m. P (length b) m \<Longrightarrow> length b \<le> LEGACY_FULL_CHUNK_SIZE \<Longrightarrow> R True (m \<lparr> app_stream := StreamNone \<rparr>)"
    and errors: "\<And>pos m. P pos m \<Longrightarrow> E DATA_INVALID m" "\<And>pos m. P pos m \<Longrightarrow> E WRONG_LENGTH m"
  shows "P (offset + psize + 1) m \<Longrightarrow> wp (transfer_loop b offset psize) R E m"
proof (induction "length b - offset" arbitrary: offset psize m rule: less_induct)
  case less
  let ?pos = "offset + (psize + 1)"
  let ?nxt = "?pos + byte_val (b ! ?pos) + 1"
  have p: "P ?pos m" using less.prems by (simp add: add.assoc)
  have rec: "wp (transfer_loop b ?pos (byte_val (b ! ?pos))) R E x" if "P ?nxt x" "?pos < length b" for x
    by (rule less.hyps) (use that in simp_all)
  have items: "wp (bnd (legacy_append (take (byte_val (b ! ?pos) + 1) (drop ?pos b))) (\<lambda>_.
      bnd (modifies (\<lambda>m. m \<lparr> legacy_items := u8 (legacy_items m + 1) \<rparr>)) (\<lambda>_. bnd (reads legacy_items) (\<lambda>n.
        if n > LEGACY_TRANSFER_NUM_ITEMS then fails DATA_INVALID
        else if ?nxt \<ge> length b \<and> ?nxt \<noteq> LEGACY_FULL_CHUNK_SIZE then
          (if n \<noteq> LEGACY_TRANSFER_NUM_ITEMS then fails DATA_INVALID else bnd close_stream (\<lambda>_. ret True))
        else transfer_loop b ?pos (byte_val (b ! ?pos)))))) R E m"
    if i: "?pos < length b" "?nxt \<le> length b" "?nxt \<le> LEGACY_FULL_CHUNK_SIZE"
    unfolding wp_bnd [of "legacy_append _"]
  proof (rule wp_mono [OF append [OF p i]])
    fix x
    assume "\<forall>n. P ?nxt (x \<lparr> legacy_items := n \<rparr>)"
    then have x: "P ?nxt (x \<lparr> legacy_items := n \<rparr>)" for n by blast
    have "R True (x \<lparr> legacy_items := n, app_stream := StreamNone \<rparr>)" if "?nxt \<ge> length b" for n
      using whole [of "x \<lparr> legacy_items := n \<rparr>"] x [of n] i that by (simp add: order_antisym)
    then show "wp (bnd (modifies (\<lambda>m. m \<lparr> legacy_items := u8 (legacy_items m + 1) \<rparr>)) (\<lambda>_. bnd (reads legacy_items) (\<lambda>n.
        if n > LEGACY_TRANSFER_NUM_ITEMS then fails DATA_INVALID
        else if ?nxt \<ge> length b \<and> ?nxt \<noteq> LEGACY_FULL_CHUNK_SIZE then
          (if n \<noteq> LEGACY_TRANSFER_NUM_ITEMS then fails DATA_INVALID else bnd close_stream (\<lambda>_. ret True))
        else transfer_loop b ?pos (byte_val (b ! ?pos))))) R E x"
      unfolding wp_bnd wp_modifies wp_reads wp_if wp_fails wp_close_stream wp_ret
      by (intro ifI errors(1) [OF x] rec x i(1)) simp
  qed simp
  have ovf: "wp (bnd (legacy_handle_overflow b ?pos (byte_val (b ! ?pos))) (\<lambda>_. ret False)) R E m"
    if "length b = LEGACY_FULL_CHUNK_SIZE" "?pos < length b"
    using overflow [OF p that] unfolding wp_bnd wp_ret [abs_def] .
  show ?case unfolding transfer_loop_prog [of b offset] Let_def wp_if [of "\<not> offset < length b"] wp_if [of "_ > length b"]
      wp_if [of "?pos = _"] wp_if [of "?pos \<ge> _"] wp_if [of "?nxt > _"] wp_fails
    using p split ovf items
    by (intro ifI) (auto simp: wp_bnd [of "modifies _"] wp_modifies wp_ret wp_fails intro: errors [OF p])
qed

lemma transfer_loop_wp:
  "armed m \<Longrightarrow> wp (transfer_loop b offset psize) (\<lambda>_. armed) (\<lambda>_. idle) m"
  by (rule transfer_loop_rule [where P = "\<lambda>_. armed"])
     (auto intro: armed_counters armed_idle legacy_handle_overflow_wp intro!: wp_mono [OF armed_append_wp])

lemma legacy_transfer_chunk_wp:
  assumes "idle m"
  shows "wp (legacy_transfer_chunk b) (\<lambda>_. armed) (\<lambda>_. idle) m"
proof -
  have a: "armed m" if "app_stream m = Legacy INS_LEGACY_TRANSFER"
    using assms that by (simp add: armed_def inv_defs)
  have loop: "wp (case p of (offset, psize) \<Rightarrow> transfer_loop b offset psize) (\<lambda>_. armed) (\<lambda>_. idle) x"
    if "armed x" for x p
    using transfer_loop_wp [OF that] by (cases p) simp
  show ?thesis unfolding legacy_transfer_chunk_def wp_bnd [of "legacy_first_chunk _"]
  proof (rule wp_mono [OF legacy_first_chunk_wp [OF assms]])
    fix first x
    assume x: "x = m \<and> app_stream m = (if first then StreamNone else Legacy INS_LEGACY_TRANSFER)"
    have "wp (if first then bnd (legacy_initialize_transfer b) (\<lambda>offset. ret (offset, 0))
        else legacy_existing_transfer b) (\<lambda>_. armed) (\<lambda>_. idle) x"
      unfolding wp_if wp_bnd
      by (intro ifI wp_mono [OF legacy_initialize_transfer_wp] legacy_existing_transfer_wp)
         (use x assms a in \<open>auto simp: wp_ret\<close>)
    from wp_mono [OF this loop] show "wp (bnd (if first then bnd (legacy_initialize_transfer b) (\<lambda>offset. ret (offset, 0))
          else legacy_existing_transfer b) (\<lambda>(offset, psize). transfer_loop b offset psize)) (\<lambda>_. armed) (\<lambda>_. idle) x"
      unfolding wp_bnd by simp
  qed simp
qed

lemma legacy_transfer_ok:
  assumes m: "idle m" and cap: "cap < UNSET"
  shows "handler_ok env cap (legacy_transfer env cap ins p1 p2 data) m"
proof -
  obtain r m1 where c: "legacy_transfer_chunk (raw_apdu ins p1 p2 data) m = (r, m1)" by fastforce
  note w = legacy_transfer_chunk_wp [OF m, of "raw_apdu ins p1 p2 data", unfolded wp_def c prod.case]
  show ?thesis
  proof (cases r)
    case (Inl e)
    then show ?thesis using w by (simp add: handler_ok_def wp_def legacy_transfer_def c idle_close)
  next
    case (Inr whole)
    show ?thesis
    proof (cases whole)
      case False
      then show ?thesis using w Inr
        by (simp add: handler_ok_def wp_def legacy_transfer_def c armed_idle outcome_reply)
    next
      case True
      have a: "idle m1" "prefix_ok (sign_path m1)" using w Inr by (simp_all add: armed_def)
      have "handler_ok env cap (review_parsed env cap TxTransfer (length (tx (dev m1))) SignLegacyTransfer transfer_error) m1"
        by (rule parse_reply_wp [OF a cap]) (auto simp: signed_bytes_def error_handlers_ok)
      then show ?thesis using Inr True by (simp add: handler_ok_def wp_def legacy_transfer_def c)
    qed
  qed
qed

section \<open>One command\<close>

lemma dispatch_ok:
  assumes "idle m" "cap < UNSET"
  shows "handler_ok env cap (dispatch env cap ins p1 p2 data) m"
proof -
  have v: "handler_ok env cap (ret (Reply r)) m" for r
    using assms(1) by (simp add: handler_ok_def wp_ret outcome_reply)
  show ?thesis unfolding dispatch_def
    by (auto intro!: get_addr_ok sign_chunk_ok legacy_get_addr_ok legacy_sign_ok legacy_transfer_ok v assms
        split: prod.splits simp: ins_defs)
qed

lemma idle_drop: "minv m \<Longrightarrow> idle (m \<lparr> app_pending := PendingNone \<rparr>)"
  by (simp add: inv_defs split: stream.splits)

text \<open>From any state of the invariant, a command leaves one, with the pending review its action asks for.\<close>

lemma handle_outcome:
  assumes "minv m" "cap < UNSET" "handle env cap cla ins p1 p2 data m = (a, m')"
  shows "outcome env cap a m'"
proof -
  let ?m = "m \<lparr> app_pending := PendingNone \<rparr>"
  have i: "idle ?m" using assms(1) by (rule idle_drop)
  have h: "handler_ok env cap
      (if ins = INS_GET_VERSION then ret (get_version env)
       else if ins \<in> set dispatched then
         (if \<not> os_pin_validated env then fails COMMAND_NOT_ALLOWED else dispatch env cap ins p1 p2 data)
       else fails INS_NOT_SUPPORTED) ?m"
    using i dispatch_ok [OF i assms(2)]
    by (auto simp: handler_ok_def wp_ret wp_fails get_version_def outcome_reply split: prod.splits)
  then show ?thesis using assms(3) i
    by (auto simp: handle_def Let_def handler_ok_def wp_def outcome_reply split: if_splits prod.splits sum.splits)
qed

lemma minv_new: "minv machine_new"
  by (simp add: inv_defs machine_new_def app_new_def app.defs device_wf_new LEGACY_LOCAL_BUFFER_SIZE_def)

lemma outcome_minv: "outcome env cap a m \<Longrightarrow> minv m"
  by (simp add: outcome_def)

lemma done_minv: "minv m \<Longrightarrow> minv (snd (sign_done env approved m))" "minv m \<Longrightarrow> minv (snd (address_done approved m))"
  by (simp_all add: sign_done_def address_done_def inv_defs split: stream.splits)

section \<open>What the address commands keep, and the size of replies\<close>

lemma wp_any: "(\<And>x t. Q x t) \<Longrightarrow> (\<And>e t. E e t) \<Longrightarrow> wp m Q E s"
  by (simp add: wp_def split: prod.splits sum.splits)

definition same_signing :: "machine \<Rightarrow> machine \<Rightarrow> bool" where
  "same_signing m m' \<longleftrightarrow> sign_path m' = sign_path m \<and> dev m' = dev m \<and> app_parsed m' = app_parsed m \<and>
     app_stream m' \<in> {app_stream m, StreamNone}"

lemma address_handlers_keep:
  "wp (get_addr env p1 data) (\<lambda>_. same_signing m) (\<lambda>_. same_signing m) m"
  "wp (legacy_get_addr env show_it ins p1 p2 data) (\<lambda>_. same_signing m) (\<lambda>_. same_signing m) m"
  unfolding get_addr_def legacy_get_addr_def extract_hd_path_def fill_address_def legacy_extract_hd_path_def Let_def
  by (auto simp: wp_simps same_signing_def split: stream.splits sum.splits option.splits)

definition legacy_ins :: "nat set" where
  "legacy_ins = {INS_LEGACY_SIGN_JSON, INS_LEGACY_SIGN_HASH, INS_LEGACY_TRANSFER}"

definition action_fits :: "action \<Rightarrow> bool" where
  "action_fits a \<longleftrightarrow> (case a of Reply r \<Rightarrow> length (payload r) \<le> REPLY_MAX
     | BlindSignRequired r \<Rightarrow> length (payload r) \<le> REPLY_MAX | _ \<Rightarrow> True)"

lemma reply_fits [simp]:
  "length (payload (reply_only w)) \<le> REPLY_MAX" "length (payload (reply_with ps w)) \<le> REPLY_MAX"
  using w_puts_length by (simp_all add: reply_only_def reply_with_def)

lemma action_fits_simps [simp]:
  "action_fits (Reply r) \<longleftrightarrow> length (payload r) \<le> REPLY_MAX"
  "action_fits (BlindSignRequired r) \<longleftrightarrow> length (payload r) \<le> REPLY_MAX"
  "action_fits ReviewAddress" "action_fits (ReviewTx b)" "action_fits (error_with_message e)"
  by (simp_all add: action_fits_def error_with_message_def Let_def)

definition fits :: "action handler \<Rightarrow> bool" where
  "fits h \<longleftrightarrow> (\<forall>m. wp h (\<lambda>a _. action_fits a) (\<lambda>_ _. True) m)"

lemma fits_ret: "action_fits a \<Longrightarrow> fits (ret a)" and fits_fails: "fits (fails e)"
  and fits_if: "fits h \<Longrightarrow> fits h' \<Longrightarrow> fits (if c then h else h')"
  and fits_thn: "fits h \<Longrightarrow> fits (thn f h)"
  by (simp_all add: fits_def wp_ret wp_fails wp_thn wp_any)

lemma fits_bnd: "(\<And>x. fits (g x)) \<Longrightarrow> fits (bnd f g)"
  by (simp add: fits_def wp_bnd wp_any)

lemma fits_case: "(\<And>e. fits (f e)) \<Longrightarrow> (\<And>x. fits (g x)) \<Longrightarrow> fits (case r of Inl e \<Rightarrow> f e | Inr x \<Rightarrow> g x)"
  by (cases r) simp_all

lemmas fits_intros = fits_ret fits_fails fits_if fits_thn fits_bnd fits_case

lemma fitsD: "fits h \<Longrightarrow> h m = (Inr a, m') \<Longrightarrow> action_fits a"
  by (drule spec [of _ m, OF iffD1 [OF fits_def]]) (simp add: wp_def)

lemma fits_transfer: "fits (legacy_transfer env cap ins p1 p2 data)"
proof -
  have k: "fits (review_parsed env cap TxTransfer n SignLegacyTransfer transfer_error)" for n
    unfolding review_parsed_def transfer_error_def by (intro fits_intros) simp_all
  have "action_fits a" if "legacy_transfer env cap ins p1 p2 data m = (Inr a, m')" for a m m'
    using that fitsD [OF k] by (auto simp: legacy_transfer_def split: prod.splits sum.splits bool.splits)
  then show ?thesis by (auto simp: fits_def wp_def split: prod.splits sum.splits)
qed

lemma fits_dispatch: "fits (dispatch env cap ins p1 p2 data)"
  unfolding dispatch_def get_addr_def sign_chunk_def legacy_get_addr_def legacy_sign_def legacy_complete_def
    review_parsed_def legacy_error_def Let_def
  by (intro fits_intros fits_transfer) (simp_all add: split_beta fits_ret)

end
