(* ===== verification/Protocol.thy ===== *)
theory Protocol
  imports App_Props
begin

text \<open>
  The protocol: every machine state that commands and user decisions can lead to, the invariant of
  these states, and what it says of a pending review (its items are shown whole, its bytes are those
  that will be signed).
\<close>

section \<open>Reachable states\<close>

text \<open>
  One step is an APDU, or the user's decision on a review. Each step may see another environment of
  \<open>E\<close>: the settings and the PIN state change between commands.
\<close>

inductive reachable :: "os_env set \<Rightarrow> nat \<Rightarrow> machine \<Rightarrow> bool" for E cap where
  start: "reachable E cap machine_new"
| command: "reachable E cap m \<Longrightarrow> env \<in> E \<Longrightarrow> handle env cap cla ins p1 p2 data m = (a, m') \<Longrightarrow>
    reachable E cap m'"
| address_decision: "reachable E cap m \<Longrightarrow> address_done approved m = (r, m') \<Longrightarrow> reachable E cap m'"
| sign_decision: "reachable E cap m \<Longrightarrow> env \<in> E \<Longrightarrow> sign_done env approved m = (r, m') \<Longrightarrow>
    reachable E cap m'"

definition pending_ok :: "os_env set \<Rightarrow> nat \<Rightarrow> machine \<Rightarrow> bool" where
  "pending_ok E cap m \<longleftrightarrow>
     (case app_pending m of
        PendingNone \<Rightarrow> True
      | PendingAddress pk legacy \<Rightarrow> (\<exists>env \<in> E. address_pending env m)
      | PendingSign kind \<Rightarrow> (\<exists>env \<in> E. \<exists>blind. sign_pending env cap blind m))"

lemma outcome_pending:
  assumes "outcome env cap a m" "env \<in> E"
  shows "pending_ok E cap m"
proof (cases a)
  case ReviewAddress
  then have p: "address_pending env m" using assms(1) by (simp add: outcome_def)
  then obtain pk legacy where "app_pending m = PendingAddress pk legacy" by (auto simp: address_pending_def)
  then show ?thesis using p assms(2) by (auto simp: pending_ok_def)
next
  case (ReviewTx blind)
  then have p: "sign_pending env cap blind m" using assms(1) by (simp add: outcome_def)
  then obtain kind where "app_pending m = PendingSign kind" by (auto simp: sign_pending_def)
  then show ?thesis using p assms(2) by (auto simp: pending_ok_def)
qed (use assms(1) in \<open>simp_all add: outcome_def pending_ok_def\<close>)

theorem reachable_invariant:
  assumes "cap < UNSET" "reachable E cap m"
  shows "minv m \<and> pending_ok E cap m"
  using assms(2)
proof induction
  case start
  then show ?case using minv_new by (simp add: pending_ok_def machine_new_def app_new_def app.defs)
next
  case (command m env cla ins p1 p2 data a m')
  then have "outcome env cap a m'" using handle_outcome [OF _ assms(1)] by blast
  then show ?case using command(2) outcome_minv outcome_pending by blast
next
  case (address_decision m approved r m')
  then show ?case using done_minv(2) [of m approved] by (auto simp: address_done_def pending_ok_def)
next
  case (sign_decision m env approved r m')
  then show ?case using done_minv(1) [of m env approved] by (auto simp: sign_done_def pending_ok_def)
qed

lemma reachable_sign:
  assumes "cap < UNSET" "reachable E cap m" "app_pending m = PendingSign kind"
  shows "\<exists>env \<in> E. \<exists>es. prefix_ok (sign_path m) \<and> kind_ok kind \<and> built env (kind_type kind) m \<and>
    reviewed env cap (kind_type kind) (kind_bytes kind (dev m)) (sign_path m) (app_parsed m) es \<and>
    (kind_type kind = TxHash \<or> list_ex blind_entry es \<longrightarrow> dev_blind_signing env)"
proof -
  from reachable_invariant [OF assms(1,2)] assms(3) obtain env blind
    where "env \<in> E" "sign_pending env cap blind m" by (auto simp: pending_ok_def)
  then show ?thesis using assms(3) unfolding sign_pending_def by auto
qed

lemma reachable_address:
  assumes "cap < UNSET" "reachable E cap m" "app_pending m = PendingAddress pk legacy"
  shows "prefix_ok (hd_path m) \<and> (\<exists>env \<in> E. public_key env (hd_path m) = Some pk)"
  using reachable_invariant [OF assms(1,2)] assms(3)
  by (auto simp: pending_ok_def address_pending_def)

section \<open>The signature\<close>

text \<open>The 32 bytes that are signed for a message of a type.\<close>

definition signed_digest :: "os_env \<Rightarrow> tx_type \<Rightarrow> bytes \<Rightarrow> bytes option" where
  "signed_digest env ty msg = (if ty = TxHash then Some (take 32 msg) else os_blake2b env msg)"

lemma crypto_sign_SomeD:
  "crypto_sign env p msg ty = Some sig \<Longrightarrow> \<exists>h. signed_digest env ty msg = Some h \<and> dev_sign env p h = Some sig"
  by (auto simp: crypto_sign_def signed_digest_def split: if_splits option.splits)

lemma sw_distinct: "SIGN_VERIFY_ERROR \<noteq> SW_OK" "COMMAND_NOT_ALLOWED \<noteq> SW_OK" "EXECUTION_ERROR \<noteq> SW_OK"
  by (simp_all add: SIGN_VERIFY_ERROR_def COMMAND_NOT_ALLOWED_def EXECUTION_ERROR_def SW_OK_def)

lemma sig_reply_ok:
  "reply_sw (sig_reply s extra) = SW_OK \<Longrightarrow> \<exists>sig. s = Some sig \<and> payload (sig_reply s extra) = w_puts REPLY_MAX (sig # extra)"
  by (auto simp: sig_reply_def reply_only_def reply_with_def sw_distinct split: option.splits)

lemma sign_done_ok:
  assumes "sign_done env approved m = (r, m')" "reply_sw r = SW_OK"
  shows "approved \<and> (\<exists>kind sig extra h. app_pending m = PendingSign kind \<and>
    signed_digest env (kind_type kind) (kind_bytes kind (dev m)) = Some h \<and>
    dev_sign env (sign_path m) h = Some sig \<and> payload r = w_puts REPLY_MAX (sig # extra))"
proof -
  have no: "reply_sw (reply_only COMMAND_NOT_ALLOWED) \<noteq> SW_OK" "reply_sw (reply_only EXECUTION_ERROR) \<noteq> SW_OK"
    by (simp_all add: reply_only_def sw_distinct)
  from assms no obtain kind where k: "approved" "app_pending m = PendingSign kind"
    by (auto simp: sign_done_def split: pending.splits if_splits)
  obtain extra where "r = sig_reply (crypto_sign env (sign_path m) (kind_bytes kind (dev m)) (kind_type kind)) extra"
    using assms k no by (cases kind) (auto simp: sign_done_def split: option.splits)
  with assms(2) k show ?thesis by (blast dest: sig_reply_ok crypto_sign_SomeD)
qed

end
