(* ===== verification/Pending_Review.thy ===== *)
theory Pending_Review
  imports Protocol
begin

text \<open>
  What a pending review shows: every item is rendered whole, and the hash item is the digest that
  is signed.
\<close>

section \<open>Every item of a pending review is rendered whole\<close>

text \<open>All entries of a review satisfy \<open>P\<close>; one rule per combinator of the specification.\<close>

definition all_entries :: "(entry \<Rightarrow> bool) \<Rightarrow> review \<Rightarrow> bool" where
  "all_entries P s = (case s of Inl _ \<Rightarrow> True | Inr es \<Rightarrow> list_all P es)"

named_theorems entries_intros

lemma all_entries_simps [simp]:
  "all_entries P (Inl e)" "all_entries P (Inr es) = list_all P es"
  by (simp_all add: all_entries_def)

lemma all_entries_cat [entries_intros]: "all_entries P s1 \<Longrightarrow> all_entries P s2 \<Longrightarrow> all_entries P (cat s1 s2)"
  by (cases s1; cases s2) simp_all

lemma all_entries_rbind [entries_intros]:
  "(\<And>x. r = Inr x \<Longrightarrow> all_entries P (f x)) \<Longrightarrow> all_entries P (rbind r f)"
  by (cases r) simp_all

lemma all_entries_if [entries_intros]:
  "(c \<Longrightarrow> all_entries P s1) \<Longrightarrow> (\<not> c \<Longrightarrow> all_entries P s2) \<Longrightarrow> all_entries P (if c then s1 else s2)"
  by simp

lemma all_entries_case [entries_intros]:
  "(\<And>e. r = Inl e \<Longrightarrow> all_entries P (f e)) \<Longrightarrow> (\<And>x. r = Inr x \<Longrightarrow> all_entries P (g x)) \<Longrightarrow>
   all_entries P (case r of Inl e \<Rightarrow> f e | Inr x \<Rightarrow> g x)"
  by (cases r) simp_all

lemma all_entriesD: "all_entries P s \<Longrightarrow> s = Inr es \<Longrightarrow> list_all P es"
  by simp

text \<open>Unknown arguments that the device displays are at most five.\<close>

definition few_entry :: "json \<Rightarrow> entry \<Rightarrow> bool" where
  "few_entry j e = (case e of (k, r, t, d) \<Rightarrow> r = RUnknown \<and> d \<longrightarrow>
     (\<exists>c args n. t = Some c \<and> get_value j c ''args'' = Inr args \<and> get_count j args = Inr n \<and> n \<le> 5))"

lemma few_entry_other [simp]:
  "r \<noteq> RUnknown \<Longrightarrow> few_entry j (plain_entry k r)" "r \<noteq> RUnknown \<Longrightarrow> few_entry j (tok_entry k r t)"
  by (simp_all add: few_entry_def plain_entry_def tok_entry_def)

lemma few_unverified:
  "pe (get_value j c ''args'') = Inr args \<Longrightarrow> pe (get_count j args) = Inr n \<Longrightarrow>
   list_all (few_entry j) (unverified_review j c n args w)"
  by (auto simp: unverified_review_def few_entry_def args_too_large_def tok_entry_def)

lemma few_transfer: "all_entries (few_entry j) (transfer_review j args)"
  "all_entries (few_entry j) (cross_review j args)"
  unfolding transfer_review_def cross_review_def receiver_review_def
  by (intro entries_intros; simp)+

lemma few_cap: "all_entries (few_entry j) (cap_review j c)"
  unfolding cap_review_def
  by (intro entries_intros, simp, simp)
     (auto simp: few_unverified few_transfer split: parser_error.split)

lemma few_caps: "all_entries (few_entry j) (caps_review j clist is)"
  by (induction j clist "is" rule: caps_review.induct) (auto intro!: entries_intros few_cap)

lemma few_fields: "list_all (few_entry j) (fields_review j meta fs)"
  by (induction j meta fs rule: fields_review.induct) (auto split: sum.splits)

lemma few_cont: "all_entries (few_entry j) (cont_review j cont fs)"
  by (induction j cont fs rule: cont_review.induct) (auto intro!: entries_intros)

lemma few_expert: "all_entries (few_entry j) (expert_meta_review j)"
  unfolding expert_meta_review_def payload_review_def
  by (intro entries_intros few_cont; simp add: few_fields del: fields_review.simps)

lemma few_body: "all_entries (few_entry j) (body_review j signer n)"
  unfolding body_review_def network_review_def signer_review_def transfers_review_def meta_review_def
    chain_review_def gas_review_def fee_review_def
  by (intro entries_intros; (simp add: split_beta few_caps del: caps_review.simps split: prod.split)?)

lemma few_full: "all_entries (few_entry j) (full_review ty j signer n expert)"
  unfolding full_review_def tx_review_def hash_entries_def expert_entries_def
  by (intro entries_intros few_expert)
     (simp_all, metis few_body all_entriesD)

text \<open>The document behind the items of a pending review is the one that was reviewed.\<close>

lemma reviewed_document:
  assumes "reviewed env cap (kind_type kind) (kind_bytes kind (dev m)) p (app_parsed m) es" "kind_ok kind"
  shows "parsed_json (app_parsed m) (review_json m) =
    parsed_json (app_parsed m) (if kind_type kind = TxHash then [] else kind_bytes kind (dev m))"
  using assms
  by (cases kind; cases "kind_type kind")
     (auto simp: reviewed_def reviewed_json_def reviewed_hash_def review_json_def parsed_json_def
        split: tx_type.splits)

lemma reviewed_len: "reviewed env cap ty msg p ps es \<Longrightarrow> num_items ps = length es"
  using review_shown_length reviewed_shown by (fastforce simp: num_items_def)

lemma few_shown:
  assumes "list_all2 item_shows is es" "list_all (few_entry j) es" "i < length is"
  shows "few_args j (is ! i)"
proof -
  obtain k r t d where e: "es ! i = (k, r, t, d)" by (metis prod_cases4)
  have "item_shows (is ! i) (es ! i)" "few_entry j (es ! i)"
    using assms list_all2_lengthD [OF assms(1)] by (auto simp: list_all2_nthD list_all_length)
  then show ?thesis by (auto simp: e few_entry_def few_args_def)
qed

text \<open>The value of every item: written in full, and shorter than the buffer.\<close>

definition shown_whole :: "os_env \<Rightarrow> path \<Rightarrow> parsed \<Rightarrow> bytes \<Rightarrow> nat \<Rightarrow> bool" where
  "shown_whole env p ps js i \<longleftrightarrow> (\<exists>v.
     parsed_item ps (public_key env p) js i = Inr (title (p_items ps) i, v) \<and> length v < VALUE_BUF \<and>
     whole_value (p_items ps) (parsed_json ps js) (b64 ps) (public_key env p) (arr_items (p_items ps) ! i) = Inr v)"

lemma validated_item:
  "validate ps address js = Inr () \<Longrightarrow> i < num_items ps \<Longrightarrow>
   \<exists>v. render (p_items ps) (parsed_json ps js) (b64 ps) address i = Inr v \<and>
     parsed_item ps address js i = Inr (title (p_items ps) i, v)"
  by (auto simp: validate_iff list_all_iff parsed_item_def is_ok_iff rbind_Inr_iff dest!: bspec)

lemma reviewed_whole_json:
  assumes "reviewed_json env cap ty js p ps es" "i < num_items ps" "cap < UNSET"
  shows "shown_whole env p ps js i"
proof -
  let ?j = "parsed_json ps js" and ?a = "p_items ps"
  note r = assms(1) [unfolded reviewed_json_def]
  obtain pk signer n where s: "find_device_signer ?j (hex_lower pk) = Inr (signer, n)"
    "full_review ty ?j signer n (dev_expert env) = Inr es" "arr_nsigners ?a = n"
    using r by blast
  have wf: "json_wf ?j" using r by blast
  have n: "arr_nsigners ?a < 65536"
  proof -
    obtain sg where "n = length (array_elements ?j sg)" using find_device_signer_InrD [OF wf s(1)] by blast
    then have "n \<le> json_n ?j" using length_elements_from [of _ _ _ "drop (Suc sg) (tokens ?j)"]
      by (simp add: array_elements_def json_n_def Let_def le_diff_conv) (metis diff_le_self le_trans length_drop)
    then show ?thesis using wf s(3) by (simp add: json_wf_def json_n_def UNSET_def)
  qed
  have i: "i < length (shown ?a)" "shown ?a ! i = arr_items ?a ! i"
    using assms(2) r shown_length [of ?a] by (auto simp: num_items_def shown_def review_shown_def)
  have "few_args ?j (arr_items ?a ! i)"
    using few_shown [of "shown ?a" es ?j i] all_entriesD [OF few_full s(2)] i r
    by (simp add: review_shown_def)
  moreover obtain v where v: "render ?a ?j (b64 ps) (public_key env p) i = Inr v"
    "parsed_item ps (public_key env p) js i = Inr (title ?a i, v)"
    using validated_item [OF _ assms(2)] r by blast
  ultimately show ?thesis
    using render_whole [OF wf v(1) _ n public_key_length] v(2) by (auto simp: shown_whole_def)
qed

lemma shown_item:
  "review_shown a es \<Longrightarrow> i < arr_num a \<Longrightarrow> item_shows (arr_items a ! i) (es ! i)"
  using shown_length [of a] by (auto simp: review_shown_def shown_def dest!: list_all2_nthD)

lemma reviewed_whole_hash:
  assumes "reviewed_hash env h p ps es" "i < num_items ps"
  shows "shown_whole env p ps [] i"
proof -
  let ?a = "p_items ps" and ?j = "parsed_json ps []"
  note r = assms(1) [unfolded reviewed_hash_def]
  obtain v where v: "render ?a ?j (b64 ps) (public_key env p) i = Inr v"
    "parsed_item ps (public_key env p) [] i = Inr (title ?a i, v)"
    using validated_item [OF _ assms(2)] r by blast
  have "es ! i \<in> set es" using assms(2) r review_shown_length [of ?a es] by (simp add: num_items_def)
  then have "es ! i \<in> set (hash_entries @ expert_entries)" using r by (auto split: if_splits)
  moreover have "item_shows (arr_items ?a ! i) (es ! i)"
    using shown_item r assms(2) by (simp add: num_items_def)
  ultimately have k: "i_render (arr_items ?a ! i) \<in> {RHashWarning, RHash, RSignForAddr}"
    by (auto simp: hash_entries_def expert_entries_def plain_entry_def)
  then have "whole_value ?a ?j (b64 ps) (public_key env p) (arr_items ?a ! i) = Inr v \<and> length v < VALUE_BUF"
  proof (cases "i_render (arr_items ?a ! i) = RSignForAddr")
    case True
    then obtain pk where pk: "public_key env p = Some pk" "Inr (w_puts VALUE_BUF [hex_lower pk]) = Inr v"
      using v(1) by (auto simp: render_def Let_def rbind_Inr_iff)
    then show ?thesis
      using render_fixed_whole [OF length_hex_pair_concat [OF public_key_length [OF pk(1)]] pk(2)] True pk(1)
        public_key_length [OF pk(1)]
      by (simp add: whole_value_def VALUE_BUF_def)
  next
    case False
    then obtain t where t: "fixed_value ?a (b64 ps) (i_render (arr_items ?a ! i)) = Some t" "length t < VALUE_BUF"
      using k by (auto simp: fixed_value_def text_defs VALUE_BUF_def)
    note eq = fixed_value_eq [OF t(1), of ?j "public_key env p"]
    have "Inr (w_puts VALUE_BUF [t]) = (Inr v :: items_error + bytes)" using v(1) eq(1) by simp
    from render_fixed_whole [OF t(2) this] eq(2) show ?thesis by auto
  qed
  then show ?thesis using v(2) by (auto simp: shown_whole_def)
qed

lemma shown_whole_cong:
  "parsed_json ps js = parsed_json ps js' \<Longrightarrow> shown_whole env p ps js i = shown_whole env p ps js' i"
  by (simp add: shown_whole_def parsed_item_def)

lemma pending_whole:
  assumes "reviewed env cap (kind_type kind) (kind_bytes kind (dev m)) p (app_parsed m) es" "kind_ok kind"
    "cap < UNSET" "i < num_items (app_parsed m)"
  shows "shown_whole env p (app_parsed m) (review_json m) i"
  unfolding shown_whole_cong [OF reviewed_document [OF assms(1,2)]]
  using assms reviewed_whole_json [OF _ assms(4,3)] reviewed_whole_hash [OF _ assms(4)]
  by (auto simp: reviewed_def split: if_splits)

text \<open>The hash that is shown is that of the message that is signed.\<close>

lemma reviewed_digest:
  "reviewed env cap ty msg p ps es \<Longrightarrow>
   \<exists>h. signed_digest env ty msg = Some h \<and> b64 ps = map url_safe (base64_32 h)"
  by (auto simp: reviewed_def reviewed_json_def reviewed_hash_def signed_digest_def HASH_LEN_def split: if_splits)

lemma title_whole:
  "title a i = key_text (i_key (arr_items a ! i)) @
     (if i_key (arr_items a ! i) = KTransfer then
        u32_digits (u8 (length (filter (\<lambda>x. i_key x = KTransfer) (take i (drop 1 (arr_items a))))))
      else [])"
proof -
  have "length (key_text k) \<le> 20" for k by (cases k) simp_all
  moreover have "length (u32_digits (u8 n)) \<le> 3" for n
    using length_u32_digits [of "u8 n" 3] u8_less [of n] by simp
  ultimately have "length (key_text k) + length (u32_digits (u8 n)) \<le> 20 + 3" for k n by (intro add_mono) auto
  then have "length (key_text k) + length (u32_digits (u8 n)) \<le> TITLE_BUF" for k n
    by (rule order_trans) (simp add: TITLE_BUF_def)
  then have f: "w_puts TITLE_BUF [key_text k, u32_digits (u8 n)] = key_text k @ u32_digits (u8 n)"
    "w_puts TITLE_BUF [key_text k] = key_text k" for k n
    using w_puts_fits [of "[key_text k, u32_digits (u8 n)]" TITLE_BUF] w_puts_fits [of "[key_text k]" TITLE_BUF]
    by (auto intro: add_leD1)
  show ?thesis
    by (cases "i_key (arr_items a ! i) = KTransfer") (simp_all only: title_def Let_def f simp_thms if_True if_False append_Nil2)
qed

section \<open>The entries of expert mode are displayed\<close>

lemma expert_displayed: "all_entries (\<lambda>e. \<not> hidden_entry e) (expert_meta_review j)"
proof -
  have plain: "\<not> hidden_entry (plain_entry k r)" "\<not> hidden_entry (tok_entry k r t)" for k r t
    by (simp_all add: hidden_entry_def plain_entry_def tok_entry_def)
  have f: "list_all (\<lambda>e. \<not> hidden_entry e) (fields_review j meta fs)" for meta fs
    by (induction j meta fs rule: fields_review.induct) (auto simp: plain split: sum.splits)
  have c: "all_entries (\<lambda>e. \<not> hidden_entry e) (cont_review j cont fs)" for cont fs
    by (induction j cont fs rule: cont_review.induct) (auto simp: plain intro!: entries_intros)
  show ?thesis unfolding expert_meta_review_def payload_review_def
    by (intro entries_intros c; simp add: f plain del: fields_review.simps)
qed

lemma hidden_expert:
  "expert_meta_review j = Inr xs \<Longrightarrow> \<not> list_ex hidden_entry (xs @ expert_entries)"
  using all_entriesD [OF expert_displayed]
  by (auto simp: list_ex_iff list_all_iff expert_entries_def hidden_entry_def plain_entry_def)

section \<open>The environments of one device\<close>

text \<open>The environments of one device: the settings change between commands, the seed does not.\<close>

definition same_device :: "os_env set \<Rightarrow> bool" where
  "same_device E \<longleftrightarrow> (\<forall>e \<in> E. \<forall>f \<in> E. os_public_key e = os_public_key f \<and> os_blake2b e = os_blake2b f)"

lemma same_device_key: "same_device E \<Longrightarrow> e \<in> E \<Longrightarrow> f \<in> E \<Longrightarrow> public_key e p = public_key f p"
  unfolding same_device_def public_key_def by metis

lemma same_device_digest:
  "same_device E \<Longrightarrow> e \<in> E \<Longrightarrow> f \<in> E \<Longrightarrow> signed_digest e ty msg = signed_digest f ty msg"
  unfolding same_device_def signed_digest_def by metis

lemma singleton_device: "same_device {e}"
  by (simp add: same_device_def)

text \<open>The item list of a pending review, and the review itself.\<close>

lemma pending_review:
  assumes "cap < UNSET" "same_device E" "reachable E cap m" "env \<in> E" "app_pending m = PendingSign kind"
  shows "\<exists>rev \<in> E. \<exists>es. reviewed rev cap (kind_type kind) (kind_bytes kind (dev m)) (sign_path m) (app_parsed m) es \<and>
    kind_ok kind \<and> (kind_type kind = TxHash \<or> list_ex blind_entry es \<longrightarrow> dev_blind_signing rev) \<and>
    public_key rev (sign_path m) = public_key env (sign_path m)"
  using reachable_sign [OF assms(1,3,5)] same_device_key [OF assms(2) _ assms(4)] by blast

lemma pending_shown:
  assumes "cap < UNSET" "same_device E" "reachable E cap m" "env \<in> E" "app_pending m = PendingSign kind" "i < review_len m"
  shows "shown_whole env (sign_path m) (app_parsed m) (review_json m) i"
proof -
  obtain rev es where r: "reviewed rev cap (kind_type kind) (kind_bytes kind (dev m)) (sign_path m) (app_parsed m) es"
    "kind_ok kind" "public_key rev (sign_path m) = public_key env (sign_path m)"
    using pending_review [OF assms(1-5)] by blast
  have "shown_whole rev (sign_path m) (app_parsed m) (review_json m) i"
    using pending_whole [OF r(1,2) assms(1)] assms(6) by (simp add: review_len_def)
  then show ?thesis using r(3) by (simp add: shown_whole_def)
qed

end
