(* ===== verification/Sessions.thy ===== *)
theory Sessions
  imports Pending_Review
begin

text \<open>
  Sessions: what the commands of a modern signing stream do one after the other, and that the
  session of a hash goes through.
\<close>

section \<open>A hash parses\<close>

lemma push_run:
  "Suc (arr_num a) < MAX_ITEMS \<Longrightarrow>
   push k r a = (Inr (), (set_slot (\<lambda>i. i \<lparr> i_key := k, i_render := r \<rparr>) a) \<lparr> arr_num := Suc (arr_num a) \<rparr>)"
  by (simp add: push_def thn_eq modifies_def incr_def Let_def)

lemma store_hash_ok:
  "\<exists>ps'. store_items address bl TxHash [] (Some h) expert ps = (Inr (), ps')"
  by (simp add: store_items_def thn_eq modifies_def on_items_def store_hash_items_def store_expert_items_def
      push_run items_init_def MAX_ITEMS_def compute_hash_def store_expert_def ret_def items_to_parser_def)

lemma validate_hash_ok:
  assumes "store_items (public_key env p) bl TxHash [] (Some h) expert ps = (Inr (), ps')"
    "public_key env p = Some pk"
  shows "validate ps' (public_key env p) [] = Inr ()"
proof -
  obtain es where es: "full_review TxHash (parsed_json ps []) 0 0 expert = Inr es" "review_shown (p_items ps') es"
    using store_items_hash [OF assms(1)] by blast
  have "is_ok (parsed_item ps' (public_key env p) [] i)" if i: "i < num_items ps'" for i
  proof -
    have "es ! i \<in> set es" using i es(2) review_shown_length [of _ es] by (simp add: num_items_def)
    then have "es ! i \<in> set (hash_entries @ expert_entries)"
      using es(1) by (auto simp: full_review_def split: if_splits)
    moreover have "item_shows (arr_items (p_items ps') ! i) (es ! i)"
      using shown_item es(2) i by (simp add: num_items_def)
    ultimately have "i_render (arr_items (p_items ps') ! i) \<in> {RHashWarning, RHash, RSignForAddr}"
      by (auto simp: hash_entries_def expert_entries_def plain_entry_def)
    then show ?thesis using i assms(2) by (auto simp: parsed_item_def render_def Let_def)
  qed
  then show ?thesis by (simp add: validate_iff list_all_iff)
qed

lemma tx_parse_hash_ok:
  assumes "dev_blind_signing env" "public_key env (sign_path m) = Some pk"
  shows "\<exists>m'. tx_parse env cap TxHash HASH_LEN m = (Inr True, m')"
proof -
  let ?h = "take HASH_LEN (tx (dev m))" and ?k = "public_key env (sign_path m)"
  obtain ps where st: "store_items ?k (os_blake2b env) TxHash [] (Some ?h) (dev_expert env) (app_parsed m) = (Inr (), ps)"
    using store_hash_ok by blast
  from validate_hash_ok [OF this assms(2)] st show ?thesis using assms(1)
    by (simp add: tx_parse_def HASH_LEN_def bnd_def reads_def thn_eq tx_tokenize_def ret_def on_parsed_def
        lifts_def json_source_def blind_gate_def Let_def)
qed

section \<open>The steps of a modern stream\<close>

definition path_of :: "bytes \<Rightarrow> path" where
  "path_of data = map (\<lambda>i. le32 (drop (4 * i) data)) [0..<5]"

definition stream_type :: "nat \<Rightarrow> tx_type" where
  "stream_type ins = (if ins = INS_SIGN then TxJson else if ins = INS_SIGN_HASH then TxHash else TxTransfer)"

definition modern_ins :: "nat set" where
  "modern_ins = {INS_SIGN, INS_SIGN_HASH, INS_SIGN_TRANSFER}"

lemma handle_modern:
  assumes "ins \<in> modern_ins" "os_pin_validated env"
  shows "handle env cap 0 ins p1 p2 data m =
    (let (r, m1) = sign_chunk env cap ins (stream_type ins) p1 data (m \<lparr> app_pending := PendingNone \<rparr>)
     in (case r of Inr a \<Rightarrow> a | Inl code \<Rightarrow> Reply (reply_only code), m1))"
  using assms by (auto simp: handle_def modern_ins_def dispatched_def dispatch_def stream_type_def ins_defs)

lemma init_step:
  assumes "ins \<in> modern_ins" "os_pin_validated env" "20 \<le> length data" "prefix_ok (path_of data)"
  shows "handle env cap 0 ins P1_INIT p2 data m = (Reply (reply_only SW_OK),
    m \<lparr> app_pending := PendingNone, dev := tx_reset (dev m), app_stream := Modern ins,
        hd_path := path_of data, sign_path := path_of data \<rparr>)"
  using assms
  by (simp add: handle_modern sign_chunk_def thn_eq bnd_def dev_reset_def close_stream_def modifies_def
      extract_hd_path_def require_def reads_def ret_def path_of_def)

lemma add_step:
  assumes "ins \<in> modern_ins" "os_pin_validated env" "app_stream m = Modern ins"
    "fst (tx_append (dev m) data)"
  shows "handle env cap 0 ins P1_ADD p2 data m = (Reply (reply_only SW_OK),
    m \<lparr> app_pending := PendingNone, dev := snd (tx_append (dev m) data) \<rparr>)"
  using assms
  by (cases "tx_append (dev m) data")
     (simp add: handle_modern sign_chunk_def thn_eq bnd_def continue_modern_def dev_append_def
      reads_def ret_def p1_defs)

text \<open>The state the last chunk is parsed in.\<close>

definition closed_with :: "bytes \<Rightarrow> machine \<Rightarrow> machine" where
  "closed_with data m =
     m \<lparr> app_pending := PendingNone, dev := snd (tx_append (dev m) data), app_stream := StreamNone \<rparr>"

lemma last_step:
  assumes "ins \<in> modern_ins" "os_pin_validated env" "app_stream m = Modern ins"
    "fst (tx_append (dev m) data)"
  shows "handle env cap 0 ins P1_LAST p2 data m =
    (case tx_parse env cap (stream_type ins) (length (tx (dev (closed_with data m)))) (closed_with data m) of
       (Inl e, m2) \<Rightarrow> (error_with_message e, m2)
     | (Inr blind, m2) \<Rightarrow> (ReviewTx blind, m2 \<lparr> app_pending := PendingSign (SignModern (stream_type ins)) \<rparr>))"
  using assms
  by (cases "tx_append (dev m) data")
     (simp add: handle_modern sign_chunk_def review_parsed_def closed_with_def thn_eq bnd_def continue_modern_def
      dev_append_def close_stream_def modifies_def try_parse_def reads_def ret_def p1_defs
      split: prod.splits sum.splits)

section \<open>The session of a hash\<close>

lemma closed_minv:
  assumes "minv m"
  shows "idle (closed_with data m)"
  using idle_close [OF idle_append [OF idle_drop [OF assms], of data]] by (simp add: closed_with_def)

text \<open>What a review at the end of a modern stream is over: all the chunks, and the path of the stream.\<close>

lemma last_review:
  assumes "minv m" "cap < UNSET" "ins \<in> modern_ins" "os_pin_validated env" "app_stream m = Modern ins"
    "fst (tx_append (dev m) data)"
    "handle env cap 0 ins P1_LAST p2 data m = (ReviewTx blind, m')"
  shows "tx (dev m') = tx (dev m) @ data \<and> sign_path m' = sign_path m \<and>
    app_pending m' = PendingSign (SignModern (stream_type ins)) \<and> app_stream m' = StreamNone"
proof -
  let ?c = "closed_with data m"
  have wf: "device_wf (dev ?c)" "device_wf (dev m)"
    using closed_minv [OF assms(1)] assms(1) by (simp_all add: idle_device minv_def)
  obtain m1 where p: "tx_parse env cap (stream_type ins) (length (tx (dev ?c))) ?c = (Inr blind, m1)"
    "m' = m1 \<lparr> app_pending := PendingSign (SignModern (stream_type ins)) \<rparr>"
    using assms(7) last_step [OF assms(3-6)]
    by (auto simp: error_with_message_def Let_def split: prod.splits sum.splits if_splits)
  have "parse_frame ?c m1 \<and> kept (stream_type ins) ?c m1"
    using wpD [OF tx_parse_wp [OF wf(1) assms(2) order_refl refl] p(1)] by simp
  then have "tx (dev m1) = tx (dev ?c)" "sign_path m1 = sign_path m" "app_stream m1 = StreamNone"
    using parse_frame_fields [of ?c m1] by (auto simp: kept_def closed_with_def)
  then show ?thesis using p(2) tx_append_spec(3) [OF wf(2), of data] assms(6)
    by (simp add: closed_with_def)
qed

lemma hash_last:
  assumes "minv m" "cap < UNSET" "os_pin_validated env" "dev_blind_signing env"
    "app_stream m = Modern INS_SIGN_HASH" "tx (dev m) = []" "length h = HASH_LEN"
    "public_key env (sign_path m) = Some pk"
  shows "\<exists>m'. handle env cap 0 INS_SIGN_HASH P1_LAST p2 h m = (ReviewTx True, m') \<and>
    tx (dev m') = h \<and> sign_path m' = sign_path m \<and> app_pending m' = PendingSign (SignModern TxHash)"
proof -
  have ins: "INS_SIGN_HASH \<in> modern_ins" "stream_type INS_SIGN_HASH = TxHash"
    by (simp_all add: modern_ins_def stream_type_def ins_defs)
  have wf: "device_wf (dev m)" using assms(1) by (simp add: minv_def)
  have ok: "fst (tx_append (dev m) h)"
    using tx_append_spec(2) [OF wf, of h] assms(6,7) by (simp add: HASH_LEN_def FLASH_CAP_def)
  have c: "tx (dev (closed_with h m)) = h" "sign_path (closed_with h m) = sign_path m"
    using tx_append_spec(3) [OF wf, of h] ok assms(6) by (simp_all add: closed_with_def)
  obtain m1 where "tx_parse env cap TxHash HASH_LEN (closed_with h m) = (Inr True, m1)"
    using tx_parse_hash_ok [OF assms(4)] assms(8) c(2) by metis
  then have "handle env cap 0 INS_SIGN_HASH P1_LAST p2 h m =
      (ReviewTx True, m1 \<lparr> app_pending := PendingSign (SignModern TxHash) \<rparr>)"
    using last_step [OF ins(1) assms(3,5) ok] c(1) assms(7) by (simp add: ins(2))
  from last_review [OF assms(1,2) ins(1) assms(3,5) ok this] this show ?thesis
    using assms(6) by (simp add: ins(2))
qed

text \<open>A signature is returned for the digest that is pending.\<close>

lemma hash_signed:
  assumes "app_pending m = PendingSign (SignModern TxHash)" "length (tx (dev m)) = HASH_LEN"
    "dev_sign env (sign_path m) (tx (dev m)) = Some sig" "length sig \<le> REPLY_MAX"
  shows "sign_done env True m = (\<lparr> payload = sig, reply_sw = SW_OK \<rparr>, m \<lparr> app_pending := PendingNone \<rparr>)"
  using assms w_puts_fits [of "[sig]" REPLY_MAX]
  by (auto simp: sign_done_def crypto_sign_def HASH_LEN_def sig_reply_def reply_with_def)

text \<open>The session of a hash: the path, the 32 bytes, the approval.\<close>

lemma hash_session:
  assumes "minv m" "cap < UNSET" "os_pin_validated env" "dev_blind_signing env"
    "20 \<le> length path" "prefix_ok (path_of path)" "public_key env (path_of path) = Some pk"
    "length h = HASH_LEN" "dev_sign env (path_of path) h = Some sig" "length sig \<le> REPLY_MAX"
  shows "\<exists>m1 m2 m3.
    handle env cap 0 INS_SIGN_HASH P1_INIT p2 path m = (Reply (reply_only SW_OK), m1) \<and>
    handle env cap 0 INS_SIGN_HASH P1_LAST p2 h m1 = (ReviewTx True, m2) \<and>
    tx (dev m2) = h \<and> sign_path m2 = path_of path \<and> app_pending m2 = PendingSign (SignModern TxHash) \<and>
    sign_done env True m2 = (\<lparr> payload = sig, reply_sw = SW_OK \<rparr>, m3)"
proof -
  let ?m1 = "m \<lparr> app_pending := PendingNone, dev := tx_reset (dev m), app_stream := Modern INS_SIGN_HASH,
        hd_path := path_of path, sign_path := path_of path \<rparr>"
  have init: "handle env cap 0 INS_SIGN_HASH P1_INIT p2 path m = (Reply (reply_only SW_OK), ?m1)"
    by (rule init_step) (use assms in \<open>simp_all add: modern_ins_def\<close>)
  have "minv ?m1" using handle_outcome [OF assms(1,2) init] by (rule outcome_minv)
  moreover have "tx (dev ?m1) = []" by (simp add: dev.contents_reset)
  ultimately obtain m2 where m2: "handle env cap 0 INS_SIGN_HASH P1_LAST p2 h ?m1 = (ReviewTx True, m2)"
    "tx (dev m2) = h" "sign_path m2 = path_of path" "app_pending m2 = PendingSign (SignModern TxHash)"
    using hash_last [of ?m1 cap env h pk p2] assms by auto
  have "sign_done env True m2 = (\<lparr> payload = sig, reply_sw = SW_OK \<rparr>, m2 \<lparr> app_pending := PendingNone \<rparr>)"
    by (rule hash_signed) (use m2 assms in auto)
  then show ?thesis using init m2 by blast
qed

section \<open>Middle chunks, and an address\<close>

text \<open>The host's middle chunks, each answered with success.\<close>

fun add_chunks :: "os_env \<Rightarrow> nat \<Rightarrow> nat \<Rightarrow> nat \<Rightarrow> bytes list \<Rightarrow> machine \<Rightarrow> machine option" where
  "add_chunks env cap ins p2 [] m = Some m"
| "add_chunks env cap ins p2 (d # ds) m =
     (case handle env cap 0 ins P1_ADD p2 d m of
        (Reply r, m') \<Rightarrow> if reply_sw r = SW_OK then add_chunks env cap ins p2 ds m' else None
      | _ \<Rightarrow> None)"

lemma add_ok:
  assumes "minv m" "cap < UNSET" "ins \<in> modern_ins" "os_pin_validated env" "app_stream m = Modern ins"
    "handle env cap 0 ins P1_ADD p2 d m = (Reply r, m')" "reply_sw r = SW_OK"
  shows "minv m' \<and> app_stream m' = Modern ins \<and> sign_path m' = sign_path m \<and> tx (dev m') = tx (dev m) @ d \<and>
    fst (tx_append (dev m) d)"
proof -
  have ok: "fst (tx_append (dev m) d)"
  proof (rule ccontr)
    assume "\<not> fst (tx_append (dev m) d)"
    then have "r = reply_only OUTPUT_BUFFER_TOO_SMALL"
      using assms(3-6) by (cases "tx_append (dev m) d")
        (simp add: handle_modern sign_chunk_def thn_eq bnd_def continue_modern_def dev_append_def reads_def
          ret_def close_stream_def modifies_def fails_def p1_defs)
    then show False using assms(7) by (simp add: reply_only_def OUTPUT_BUFFER_TOO_SMALL_def SW_OK_def)
  qed
  have m': "m' = m \<lparr> app_pending := PendingNone, dev := snd (tx_append (dev m) d) \<rparr>"
    using assms(6) add_step [OF assms(3-5) ok] by simp
  have "device_wf (dev m)" using assms(1) by (simp add: minv_def)
  then show ?thesis
    using handle_outcome [OF assms(1,2,6)] outcome_minv tx_append_spec(3) [of "dev m" d] ok assms(5) by (auto simp: m')
qed

lemma add_chunks_ok:
  assumes "cap < UNSET" "ins \<in> modern_ins" "os_pin_validated env"
  shows "add_chunks env cap ins p2 ds m = Some m' \<Longrightarrow> minv m \<Longrightarrow> app_stream m = Modern ins \<Longrightarrow>
    minv m' \<and> app_stream m' = Modern ins \<and> sign_path m' = sign_path m \<and> tx (dev m') = tx (dev m) @ concat ds"
proof (induction ds arbitrary: m)
  case (Cons d ds)
  then obtain r m1 where h: "handle env cap 0 ins P1_ADD p2 d m = (Reply r, m1)" "reply_sw r = SW_OK"
    "add_chunks env cap ins p2 ds m1 = Some m'"
    by (auto split: prod.splits action.splits if_splits)
  then show ?case using Cons.IH [OF h(3)] add_ok [OF Cons.prems(2) assms Cons.prems(3) h(1,2)] by simp
qed simp

lemma init_ok:
  assumes "ins \<in> modern_ins" "os_pin_validated env"
    "handle env cap 0 ins P1_INIT p2 path m = (Reply r, m')" "reply_sw r = SW_OK"
  shows "20 \<le> length path \<and> prefix_ok (path_of path)"
proof (rule ccontr)
  assume "\<not> ?thesis"
  then have "r = reply_only WRONG_LENGTH \<or> r = reply_only DATA_INVALID"
    using assms(1-3)
    by (auto simp: handle_modern sign_chunk_def thn_eq bnd_def dev_reset_def close_stream_def modifies_def
      extract_hd_path_def require_def reads_def ret_def fails_def path_of_def split: if_splits)
  then show False using assms(4) by (auto simp: reply_only_def WRONG_LENGTH_def DATA_INVALID_def SW_OK_def)
qed

lemma address_session:
  assumes "os_pin_validated env" "20 \<le> length path" "prefix_ok (path_of path)"
    "public_key env (path_of path) = Some pk" "p1 \<noteq> 0" "app_stream m = StreamNone"
  shows "handle env cap 0 INS_GET_ADDR p1 p2 path m =
    (ReviewAddress, m \<lparr> hd_path := path_of path, app_pending := PendingAddress pk False \<rparr>)"
  using assms
  by (simp add: handle_def dispatched_def dispatch_def get_addr_def extract_hd_path_def thn_eq bnd_def modifies_def
      require_def reads_def lifts_def fill_address_def path_of_def ret_def ins_defs)

end
