(* ===== verification/Examples.thy ===== *)
theory Examples
  imports Device Parser_Props
begin

text \<open>
  Concrete inputs: an environment with a key, a signature scheme and a hash that compute, the fields
  of a structured transfer, and a complete JSON transaction with its tokens and its lookups. The
  witnesses of the claims evaluate the model on them.
\<close>

section \<open>An environment\<close>

text \<open>The key of every path is \<open>W = 04 || 00.. || AB..\<close>, compressed to 32 bytes \<open>AB\<close>.\<close>

definition sample_env :: os_env where
  "sample_env = \<lparr> app_version = (2, 0, 1), os_pin_validated = True, os_target_id = 0x33000004,
     os_version = (3, replicate 64 NUL), os_seph_version = (2, replicate 64 NUL),
     os_settings = replicate 10 (byte_of 1),
     os_public_key = (\<lambda>p. Some (replicate 33 NUL @ replicate 32 (byte_of 0xAB))),
     os_sign = (\<lambda>p m. Some (m @ m, 64)),
     os_blake2b = (\<lambda>bs. Some (take 32 (bs @ replicate 32 NUL))) \<rparr>"

definition sample_pk :: bytes where
  "sample_pk = replicate 32 (byte_of 0xAB)"

lemma sample_compress: "compress (replicate 33 NUL @ replicate 32 (byte_of 0xAB)) = sample_pk"
  by code_simp

lemma sample_public_key: "public_key sample_env p = Some sample_pk"
  by (simp add: public_key_def sample_env_def sample_compress)

lemma sample_hex: "hex_lower sample_pk =
  ''abababababababababababababababababababababababababababababababab''"
  by code_simp

section \<open>A structured transfer\<close>

definition sample_fields :: "bytes list" where
  "sample_fields = [''abababababababababababababababababababababababababababababababab'', [],
     ''mainnet01'', ''1.5'', [], [], ''1.0e-6'', ''600'', ''1700000000'', ''0'', ''n'', ''28800'']"

lemma sample_fields_ok: "lengths_ok sample_fields" "contents_ok sample_fields 0"
  "length sample_fields = FIELDS"
  by code_simp+

definition sample_body :: bytes where
  "sample_body = byte_of 0 # encode_fields sample_fields"

text \<open>Numeric transfer fields may have superfluous leading zeros, unlike JSON numbers.\<close>

lemma leading_zeros_allowed: "field_allowed GAS_LIMIT ''007'' TX_TYPE_TRANSFER"
  by code_simp

lemma sample_body_length: "length sample_body = 115"
  by (simp add: sample_body_def sample_fields_def)

definition sample_device :: device where
  "sample_device = snd (tx_append device_new sample_body)"

lemma sample_device_tx: "device_wf sample_device" "tx sample_device = sample_body"
proof -
  have "tx device_new = []" by (simp add: tx_def device_new_def)
  then have ok: "fst (tx_append device_new sample_body)"
    by (simp add: tx_append_spec(2) [OF device_wf_new] sample_body_length FLASH_CAP_def)
  show "device_wf sample_device" "tx sample_device = sample_body"
    using ok tx_append_spec [OF device_wf_new, of sample_body] \<open>tx device_new = []\<close>
    by (simp_all add: sample_device_def)
qed

section \<open>A JSON transaction\<close>

text \<open>The text, with \<open>~\<close> for the quote.\<close>

definition quoted :: "bytes \<Rightarrow> bytes" where
  "quoted s = map (\<lambda>c. if c = CHR ''~'' then CHR 0x22 else c) s"

definition doc_text :: bytes where
  "doc_text = quoted (''{~networkId~:~t~,~payload~:{~exec~:{~code~:~x~,~data~:{}}},~signers~:[{~pubKey~:~aba'' @
     ''babababababababababababababababababababababababababababababab~,~clist~:[{~args~:[~k:'' @
     ''abababababababababababababababababababababababababababababababab~,~k:b~,1.5],~name~:'' @
     ''~coin.TRANSFER~},{~args~:[],~name~:~coin.GAS~}]}],~meta~:{~creationTime~:1,~ttl~:2,~'' @
     ''gasLimit~:3,~chainId~:~0~,~gasPrice~:1e-5,~sender~:~k:ababababababababababababababab'' @
     ''ababababababababababababababababab~},~nonce~:~n~}'')"

definition doc_tokens :: "token list" where
  "doc_tokens = map (\<lambda>(k, s, e). \<lparr> tok_kind = k, tok_start = s, tok_end = e \<rparr>)
    [(Object, 0, 469), (StringTok, 2, 11), (StringTok, 14, 15), (StringTok, 18, 25), (Object, 27, 58),
     (StringTok, 29, 33), (Object, 35, 57), (StringTok, 37, 41), (StringTok, 44, 45), (StringTok, 48, 52),
     (Object, 54, 56), (StringTok, 60, 67), (Array, 69, 301), (Object, 70, 300), (StringTok, 72, 78),
     (StringTok, 81, 145), (StringTok, 148, 153), (Array, 155, 299), (Object, 156, 268), (StringTok, 158, 162),
     (Array, 164, 244), (StringTok, 166, 232), (StringTok, 235, 238), (Primitive, 240, 243), (StringTok, 246, 250),
     (StringTok, 253, 266), (Object, 269, 298), (StringTok, 271, 275), (Array, 277, 279), (StringTok, 281, 285),
     (StringTok, 288, 296), (StringTok, 303, 307), (Object, 309, 456), (StringTok, 311, 323), (Primitive, 325, 326),
     (StringTok, 328, 331), (Primitive, 333, 334), (StringTok, 336, 344), (Primitive, 346, 347), (StringTok, 349, 356),
     (StringTok, 359, 360), (StringTok, 363, 371), (Primitive, 373, 377), (StringTok, 379, 385), (StringTok, 388, 454),
     (StringTok, 458, 463), (StringTok, 466, 467)]"

definition doc_json :: json where
  "doc_json = \<lparr> buf = doc_text, tokens = doc_tokens \<rparr>"

subsection \<open>Its tokens\<close>

text \<open>Rules that evaluate the tokenizer by rewriting, numbers in binary.\<close>

lemmas tokenizer_defs = parse_strict_def parse_impl_def jstate_init_def token_step_def next_cursor_def
  open_bracket_def advance_def check_def open_expect_def alloc_token_def rbind_def u16_def
  close_bracket_def close_ok_def super_of_def string_token_def string_expect_def colon_char_def
  comma_char_def comma_super_def super_kind_def open_container_def tok_at_def is_container_def
  primitive_token_def primitive_expect_def whitespace_def prim_delims_def escapes_def NUL_def
  is_open_def UNSET_def Let_def

lemma update_numeral: "(x # xs)[0 := y] = y # xs" "(x # xs)[1 := y] = x # xs[0 := y]"
  "(x # xs)[numeral k := y] = x # xs[pred_numeral k := y]"
  by (simp_all add: numeral_eq_Suc)

lemma drop_one [simp]: "drop 1 (x # xs) = xs"
  by simp

lemma doc_parsed: "parse_strict 100 doc_text = Inr (doc_tokens, 47)"
  by (simp add: doc_text_def doc_tokens_def quoted_def tokenizer_defs update_numeral
      del: One_nat_def list_update.simps flip: One_nat_def)

lemma doc_length: "length doc_text = 469" "length doc_tokens = 47"
  by (simp_all add: doc_text_def quoted_def doc_tokens_def)

lemma doc_wf: "json_wf doc_json"
  using parse_impl_wf [of True 100 doc_text doc_tokens 47] doc_parsed
  by (simp add: parse_strict_def doc_length doc_json_def json_wf_def UNSET_def)

lemma doc_n: "json_n doc_json = 47"
  by (simp add: json_n_def doc_json_def doc_length)

subsection \<open>Its values\<close>

lemma doc_spans:
  "span doc_json 1 = ''networkId''"
  "span doc_json 2 = ''t''"
  "span doc_json 3 = ''payload''"
  "span doc_json 5 = ''exec''"
  "span doc_json 7 = ''code''"
  "span doc_json 8 = ''x''"
  "span doc_json 9 = ''data''"
  "span doc_json 11 = ''signers''"
  "span doc_json 14 = ''pubKey''"
  "span doc_json 15 = ''abababababababababababababababababababababababababababababababab''"
  "span doc_json 16 = ''clist''"
  "span doc_json 19 = ''args''"
  "span doc_json 21 = ''k:abababababababababababababababababababababababababababababababab''"
  "span doc_json 22 = ''k:b''"
  "span doc_json 23 = ''1.5''"
  "span doc_json 24 = ''name''"
  "span doc_json 25 = ''coin.TRANSFER''"
  "span doc_json 27 = ''args''"
  "span doc_json 29 = ''name''"
  "span doc_json 30 = ''coin.GAS''"
  "span doc_json 31 = ''meta''"
  "span doc_json 33 = ''creationTime''"
  "span doc_json 34 = ''1''"
  "span doc_json 35 = ''ttl''"
  "span doc_json 36 = ''2''"
  "span doc_json 37 = ''gasLimit''"
  "span doc_json 38 = ''3''"
  "span doc_json 39 = ''chainId''"
  "span doc_json 40 = ''0''"
  "span doc_json 41 = ''gasPrice''"
  "span doc_json 42 = ''1e-5''"
  "span doc_json 43 = ''sender''"
  "span doc_json 44 = ''k:abababababababababababababababababababababababababababababababab''"
  "span doc_json 45 = ''nonce''"
  "span doc_json 46 = ''n''"
  by (simp_all add: span_def token_span_def json_tok_def doc_json_def doc_tokens_def doc_text_def quoted_def)

lemma doc_kinds:
  "json_tok doc_json 0 = \<lparr> tok_kind = Object, tok_start = 0, tok_end = 469 \<rparr>"
  "json_tok doc_json 1 = \<lparr> tok_kind = StringTok, tok_start = 2, tok_end = 11 \<rparr>"
  "json_tok doc_json 2 = \<lparr> tok_kind = StringTok, tok_start = 14, tok_end = 15 \<rparr>"
  "json_tok doc_json 3 = \<lparr> tok_kind = StringTok, tok_start = 18, tok_end = 25 \<rparr>"
  "json_tok doc_json 4 = \<lparr> tok_kind = Object, tok_start = 27, tok_end = 58 \<rparr>"
  "json_tok doc_json 5 = \<lparr> tok_kind = StringTok, tok_start = 29, tok_end = 33 \<rparr>"
  "json_tok doc_json 6 = \<lparr> tok_kind = Object, tok_start = 35, tok_end = 57 \<rparr>"
  "json_tok doc_json 7 = \<lparr> tok_kind = StringTok, tok_start = 37, tok_end = 41 \<rparr>"
  "json_tok doc_json 8 = \<lparr> tok_kind = StringTok, tok_start = 44, tok_end = 45 \<rparr>"
  "json_tok doc_json 9 = \<lparr> tok_kind = StringTok, tok_start = 48, tok_end = 52 \<rparr>"
  "json_tok doc_json 10 = \<lparr> tok_kind = Object, tok_start = 54, tok_end = 56 \<rparr>"
  "json_tok doc_json 11 = \<lparr> tok_kind = StringTok, tok_start = 60, tok_end = 67 \<rparr>"
  "json_tok doc_json 12 = \<lparr> tok_kind = Array, tok_start = 69, tok_end = 301 \<rparr>"
  "json_tok doc_json 13 = \<lparr> tok_kind = Object, tok_start = 70, tok_end = 300 \<rparr>"
  "json_tok doc_json 14 = \<lparr> tok_kind = StringTok, tok_start = 72, tok_end = 78 \<rparr>"
  "json_tok doc_json 15 = \<lparr> tok_kind = StringTok, tok_start = 81, tok_end = 145 \<rparr>"
  "json_tok doc_json 16 = \<lparr> tok_kind = StringTok, tok_start = 148, tok_end = 153 \<rparr>"
  "json_tok doc_json 17 = \<lparr> tok_kind = Array, tok_start = 155, tok_end = 299 \<rparr>"
  "json_tok doc_json 18 = \<lparr> tok_kind = Object, tok_start = 156, tok_end = 268 \<rparr>"
  "json_tok doc_json 19 = \<lparr> tok_kind = StringTok, tok_start = 158, tok_end = 162 \<rparr>"
  "json_tok doc_json 20 = \<lparr> tok_kind = Array, tok_start = 164, tok_end = 244 \<rparr>"
  "json_tok doc_json 21 = \<lparr> tok_kind = StringTok, tok_start = 166, tok_end = 232 \<rparr>"
  "json_tok doc_json 22 = \<lparr> tok_kind = StringTok, tok_start = 235, tok_end = 238 \<rparr>"
  "json_tok doc_json 23 = \<lparr> tok_kind = Primitive, tok_start = 240, tok_end = 243 \<rparr>"
  "json_tok doc_json 24 = \<lparr> tok_kind = StringTok, tok_start = 246, tok_end = 250 \<rparr>"
  "json_tok doc_json 25 = \<lparr> tok_kind = StringTok, tok_start = 253, tok_end = 266 \<rparr>"
  "json_tok doc_json 26 = \<lparr> tok_kind = Object, tok_start = 269, tok_end = 298 \<rparr>"
  "json_tok doc_json 27 = \<lparr> tok_kind = StringTok, tok_start = 271, tok_end = 275 \<rparr>"
  "json_tok doc_json 28 = \<lparr> tok_kind = Array, tok_start = 277, tok_end = 279 \<rparr>"
  "json_tok doc_json 29 = \<lparr> tok_kind = StringTok, tok_start = 281, tok_end = 285 \<rparr>"
  "json_tok doc_json 30 = \<lparr> tok_kind = StringTok, tok_start = 288, tok_end = 296 \<rparr>"
  "json_tok doc_json 31 = \<lparr> tok_kind = StringTok, tok_start = 303, tok_end = 307 \<rparr>"
  "json_tok doc_json 32 = \<lparr> tok_kind = Object, tok_start = 309, tok_end = 456 \<rparr>"
  "json_tok doc_json 33 = \<lparr> tok_kind = StringTok, tok_start = 311, tok_end = 323 \<rparr>"
  "json_tok doc_json 34 = \<lparr> tok_kind = Primitive, tok_start = 325, tok_end = 326 \<rparr>"
  "json_tok doc_json 35 = \<lparr> tok_kind = StringTok, tok_start = 328, tok_end = 331 \<rparr>"
  "json_tok doc_json 36 = \<lparr> tok_kind = Primitive, tok_start = 333, tok_end = 334 \<rparr>"
  "json_tok doc_json 37 = \<lparr> tok_kind = StringTok, tok_start = 336, tok_end = 344 \<rparr>"
  "json_tok doc_json 38 = \<lparr> tok_kind = Primitive, tok_start = 346, tok_end = 347 \<rparr>"
  "json_tok doc_json 39 = \<lparr> tok_kind = StringTok, tok_start = 349, tok_end = 356 \<rparr>"
  "json_tok doc_json 40 = \<lparr> tok_kind = StringTok, tok_start = 359, tok_end = 360 \<rparr>"
  "json_tok doc_json 41 = \<lparr> tok_kind = StringTok, tok_start = 363, tok_end = 371 \<rparr>"
  "json_tok doc_json 42 = \<lparr> tok_kind = Primitive, tok_start = 373, tok_end = 377 \<rparr>"
  "json_tok doc_json 43 = \<lparr> tok_kind = StringTok, tok_start = 379, tok_end = 385 \<rparr>"
  "json_tok doc_json 44 = \<lparr> tok_kind = StringTok, tok_start = 388, tok_end = 454 \<rparr>"
  "json_tok doc_json 45 = \<lparr> tok_kind = StringTok, tok_start = 458, tok_end = 463 \<rparr>"
  "json_tok doc_json 46 = \<lparr> tok_kind = StringTok, tok_start = 466, tok_end = 467 \<rparr>"
  by (simp_all add: json_tok_def doc_json_def doc_tokens_def del: One_nat_def flip: One_nat_def)

lemma doc_keys:
  "object_keys doc_json 0 = [1, 3, 11, 31, 45]"
  "object_keys doc_json 4 = [5]"
  "object_keys doc_json 6 = [7, 9]"
  "object_keys doc_json 10 = []"
  "object_keys doc_json 13 = [14, 16]"
  "object_keys doc_json 18 = [19, 24]"
  "object_keys doc_json 26 = [27, 29]"
  "object_keys doc_json 32 = [33, 35, 37, 39, 41, 43]"
  by (simp_all add: object_keys_def json_tok_def json_n_def doc_json_def doc_tokens_def Let_def
      del: One_nat_def flip: One_nat_def)

lemma doc_elements:
  "array_elements doc_json 12 = [13]"
  "array_elements doc_json 17 = [18, 26]"
  "array_elements doc_json 20 = [21, 22, 23]"
  "array_elements doc_json 28 = []"
  by (simp_all add: array_elements_def json_tok_def json_n_def doc_json_def doc_tokens_def Let_def
      del: One_nat_def flip: One_nat_def)

lemmas doc_facts = doc_spans doc_spans(1) [unfolded One_nat_def] doc_kinds
  doc_kinds(2) [unfolded One_nat_def] doc_keys doc_elements doc_n

text \<open>Lookups go through the contract of the document, not through the token array.\<close>

lemma doc_get: "length key < 65536 \<Longrightarrow> get_value doc_json ob key =
    (if ob < 47 then
       (case List.find (\<lambda>k. span doc_json k = key) (object_keys doc_json ob) of
          None \<Rightarrow> Inl NoData | Some k \<Rightarrow> Inr (Suc k))
     else Inl NoData)"
  using get_value_eq [OF doc_wf] by (simp add: doc_n)

lemma doc_nth: "get_nth doc_json a i = (if a < 47 \<and> i < length (array_elements doc_json a)
     then Inr (array_elements doc_json a ! i) else Inl NoData)"
  using doc.elem_nth [OF doc_wf] by (simp add: doc_n)

lemma doc_count: "get_count doc_json a =
    (if a < 47 then Inr (length (array_elements doc_json a)) else Inl NoData)"
  using doc.n_elems_length [OF doc_wf] by (simp add: doc_n)

lemma doc_members: "found (object_get_element_count doc_json ob) =
    (if ob < 47 then Inr (length (object_keys doc_json ob)) else Inl NoData)"
  using get_member_count_eq [OF doc_wf] by (simp add: doc_n)

lemma upt_tokens: "[0..<47] = [0::nat, 1, 2, 3, 4, 5, 6, 7, 8, 9, 10, 11, 12, 13, 14, 15, 16, 17, 18, 19, 20, 21, 22, 23, 24,
    25, 26, 27, 28, 29, 30, 31, 32, 33, 34, 35, 36, 37, 38, 39, 40, 41, 42, 43, 44, 45, 46]"
  by code_simp

lemma doc_integrity: "check_key_integrity doc_json = Inr ()"
  unfolding check_key_integrity_def doc_n upt_tokens by (simp add: doc_facts Let_def)

end
