(* ===== verification/Doc_Review.thy ===== *)
theory Doc_Review
  imports Sessions Examples
begin

text \<open>
  The review of the example document, entry by entry, and its session: the document is parsed,
  reviewed without blind signing and signed.
\<close>

section \<open>The checks\<close>

lemmas doc_sizes = tok_len_def u16_def Let_def is_null_def

lemma doc_clist: "get_valid_clist doc_json 13 = Inr (17, 2)"
proof -
  obtain u where "object_get_value doc_json 13 ''clist'' 0 = (Inr u, 17)"
    using doc_get [of "''clist''" 13] unfolding get_value_def
    by (cases "object_get_value doc_json 13 ''clist'' 0"; cases "fst (object_get_value doc_json 13 ''clist'' 0)")
       (auto simp: doc_facts)
  then show ?thesis
    by (simp add: get_valid_clist_def get_valid_clist_out_def doc_count doc_facts doc_sizes)
qed

lemma doc_names: "get_tx_name doc_json 18 = NameTxTransfer" "get_tx_name doc_json 26 = NameGas"
  by (simp_all add: get_tx_name_def doc_get doc_facts doc_sizes)

lemma doc_amount: "check_amount doc_json 20 = Inr 23"
  by (simp add: check_amount_def doc_nth doc_facts is_amount_def Let_def all_digits_def AMOUNT_PRECISION_def
      is_ascii_digit_def)

lemma doc_receiver: "is_principal ''k:b'' = False"
  by code_simp

lemma doc_transfer: "cap_review doc_json 18 = Inr [plain_entry KTransfer RTransfer,
    tok_entry KFrom RStd 21, tok_entry KTo RStd 22, tok_entry KAmount RAmount 23,
    plain_entry KWarning RNotPrincipal]"
  by (simp add: cap_review_def transfer_review_def receiver_review_def doc_names doc_amount doc_get doc_nth doc_count
      doc_facts doc_receiver shown_unescaped_def)

lemma doc_gas: "cap_review doc_json 26 = Inr []"
  by (simp add: cap_review_def doc_names doc_facts)

lemma doc_key_named: "key_not_in_transfer doc_json 13 15 17 [0..<2] = False"
  by (simp add: upt_rec doc_nth doc_facts doc_names find_pubkey_in_clist_def doc_clist doc_get doc_count strip_k_def)

lemma doc_meta_key: "i < 6 \<Longrightarrow> snd (object_get_nth_key doc_json 32 i) = object_keys doc_json 32 ! i"
  using get_nth_key_eq [OF doc_wf, of 32 i]
  by (cases "object_get_nth_key doc_json 32 i"; cases "fst (object_get_nth_key doc_json 32 i)")
     (auto simp: doc_facts)

lemma doc_meta: "validate_meta_field doc_json = Inr ()"
  by (simp add: validate_meta_field_def upt_rec doc_get doc_members doc_facts doc_sizes doc_meta_key META_KEYWORDS_def
    push_bit_eq_mult)


definition doc_entries :: "entry list" where
  "doc_entries = [plain_entry KSigning RSigning, tok_entry KOnNetwork RStd 2, plain_entry KRequiring RRequiring,
     tok_entry KOfKey RStd 15,
     plain_entry KTransfer RTransfer, tok_entry KFrom RStd 21, tok_entry KTo RStd 22,
     tok_entry KAmount RAmount 23, plain_entry KWarning RNotPrincipal,
     tok_entry KOnChain RStd 40, tok_entry KUsingGas RGas 32, tok_entry KMaxFee RMaxFee 32,
     tok_entry KPayingAccount RStd 44]"

lemma doc_transfers: "transfers_review doc_json 13 = Inr [plain_entry KTransfer RTransfer,
    tok_entry KFrom RStd 21, tok_entry KTo RStd 22, tok_entry KAmount RAmount 23,
    plain_entry KWarning RNotPrincipal]"
  by (simp add: transfers_review_def doc_clist upt_rec doc_nth doc_facts doc_transfer doc_gas)

lemma doc_meta_review: "meta_review doc_json = Inr [tok_entry KOnChain RStd 40, tok_entry KUsingGas RGas 32,
    tok_entry KMaxFee RMaxFee 32, tok_entry KPayingAccount RStd 44]"
  by (simp add: meta_review_def doc_meta doc_get doc_facts doc_sizes check_integer_meta_def plain_integer_def
      is_ascii_digit_def chain_review_def gas_review_def fee_review_def shown_unescaped_def)

lemma doc_sender: "meta_has_sender doc_json"
  by (simp add: meta_has_sender_def doc_get doc_facts)

lemma doc_body: "body_review doc_json 13 1 = Inr doc_entries"
  unfolding body_review_def doc_transfers doc_meta_review
  by (simp add: doc_get doc_facts doc_sizes network_review_def shown_unescaped_def signer_review_def doc_clist
      doc_key_named doc_sender doc_entries_def
      del: key_not_in_transfer.simps One_nat_def flip: One_nat_def)

lemma doc_review: "tx_review doc_json 13 1 = Inr doc_entries"
  by (simp add: tx_review_def doc_body del: One_nat_def) (simp add: doc_entries_def hidden_entry_def plain_entry_def tok_entry_def)

lemma doc_clear: "\<not> list_ex blind_entry doc_entries"
  by (simp add: doc_entries_def blind_render_def)

lemma doc_expert: "expert_meta_review doc_json = Inr [plain_entry KPayload RExec, tok_entry KCreated RStd 34,
    tok_entry KTtl RStd 36]"
  by (simp add: expert_meta_review_def payload_review_def doc_get doc_facts doc_meta)

definition doc_full :: "bool \<Rightarrow> entry list" where
  "doc_full expert = doc_entries @ (if expert then [plain_entry KPayload RExec, tok_entry KCreated RStd 34,
     tok_entry KTtl RStd 36] @ expert_entries else [])"

lemma doc_full_review: "full_review TxJson doc_json 13 1 expert = Inr (doc_full expert)"
  by (simp add: full_review_def doc_review doc_expert doc_full_def del: One_nat_def)

lemma doc_signer: "find_device_signer doc_json (hex_lower sample_pk) = Inr (13, 1)"
  by (simp add: find_device_signer_def sample_hex doc_get doc_nth doc_count doc_facts upt_rec names_device_def
      names_field_def eq_ignore_ascii_case_def ascii_lower_def)


section \<open>The parse\<close>

lemma doc_read: "read_json 100 doc_text ps = (Inr (), ps \<lparr> p_tokens := doc_tokens, json_len := 469 \<rparr>)"
proof -
  have "NUL \<notin> set doc_text" "hd doc_tokens = \<lparr> tok_kind = Object, tok_start = 0, tok_end = 469 \<rparr>"
    "take 47 doc_tokens = doc_tokens" "doc_tokens \<noteq> []" "drop 469 doc_text = []" "take 469 doc_text = doc_text"
    by (simp_all add: doc_text_def quoted_def NUL_def doc_tokens_def)
  then show ?thesis using doc_integrity
    by (simp add: read_json_def doc_parsed doc_length parsed_json_def doc_json_def Let_def)
qed

lemma doc_fee: "max_fee ''3'' ''1e-5'' 295 = Some ''0.00003''"
  by code_simp

lemma doc_renders:
  assumes "e \<in> set (doc_full expert)" "item_shows (arr_items a ! i) e"
  shows "is_ok (render a doc_json h (Some pk) i)"
  using assms
  by (auto simp: doc_full_def doc_entries_def expert_entries_def plain_entry_def tok_entry_def render_def Let_def
      render_std_def render_amount_def render_gas_def render_max_fee_def doc_fee doc_get doc_facts doc_sizes VALUE_BUF_def
      split: if_splits)


lemma doc_store:
  assumes "os_blake2b env doc_text = Some digest"
  shows "\<exists>ps'. store_items (Some sample_pk) (os_blake2b env) TxJson doc_text hin expert
      (ps \<lparr> p_tokens := doc_tokens, json_len := 469 \<rparr>) = (Inr (), ps') \<and>
    validate ps' (Some sample_pk) doc_text = Inr () \<and> \<not> needs_blind (p_items ps')"
proof -
  let ?ps = "ps \<lparr> p_tokens := doc_tokens, json_len := 469 \<rparr>"
  have j: "parsed_json ?ps doc_text = doc_json"
    using doc_length(1) by (simp add: parsed_json_def doc_json_def)
  have v: "\<not> is_ok (get_value doc_json 0 ''verifiers'')" by (simp add: doc_get doc_facts)
  have n: "length (doc_full expert) < MAX_ITEMS"
    by (simp add: doc_full_def doc_entries_def expert_entries_def MAX_ITEMS_def)
  obtain ps' where st: "store_items (Some sample_pk) (os_blake2b env) TxJson doc_text hin expert ?ps = (Inr (), ps')"
    using store_items_run [of TxJson ?ps doc_text sample_pk 13 1 expert "doc_full expert" "os_blake2b env" digest hin]
      j v doc_signer doc_full_review n assms doc_length(1) by auto
  from store_items_json [OF st] have r: "review_shown (p_items ps') (doc_full expert)"
    "parsed_json ps' doc_text = doc_json"
    using j doc_signer doc_full_review by auto
  have "is_ok (parsed_item ps' (Some sample_pk) doc_text i)" if i: "i < num_items ps'" for i
  proof -
    have "doc_full expert ! i \<in> set (doc_full expert)"
      using i review_shown_length [OF r(1)] by (simp add: num_items_def)
    then have "is_ok (render (p_items ps') doc_json (b64 ps') (Some sample_pk) i)"
      using doc_renders shown_item [OF r(1)] i by (simp add: num_items_def)
    then show ?thesis using i r(2) by (auto simp: parsed_item_def is_ok_iff)
  qed
  moreover have "\<not> list_ex blind_entry (doc_full expert)"
    using doc_clear blind_expert by (auto simp: doc_full_def blind_render_def)
  ultimately show ?thesis using st needs_blind_iff [OF r(1)]
    by (auto simp: validate_iff list_all_iff)
qed

lemma doc_parse:
  assumes "tx (dev m) = doc_text" "os_blake2b env doc_text = Some digest"
    "public_key env (sign_path m) = Some sample_pk"
  shows "\<exists>m'. tx_parse env 100 TxJson 469 m = (Inr False, m')"
proof -
  obtain ps where "store_items (Some sample_pk) (os_blake2b env) TxJson doc_text None (dev_expert env)
      ((app_parsed m) \<lparr> p_tokens := doc_tokens, json_len := 469 \<rparr>) = (Inr (), ps)"
    "validate ps (Some sample_pk) doc_text = Inr ()" "\<not> needs_blind (p_items ps)"
    using doc_store [OF assms(2), of None "dev_expert env" "app_parsed m"] by blast
  then show ?thesis using assms(1,3) doc_length(1)
    by (simp add: tx_parse_def bnd_def reads_def thn_eq tx_tokenize_def on_parsed_def doc_read lifts_def
        json_source_def blind_gate_def Let_def)
qed

section \<open>The session\<close>

lemma doc_session:
  assumes "minv m" "os_pin_validated env" "20 \<le> length path" "prefix_ok (path_of path)"
    "os_blake2b env doc_text = Some digest" "public_key env (path_of path) = Some sample_pk"
  shows "\<exists>m1 m2 m3.
    handle env 100 0 INS_SIGN P1_INIT p2 path m = (Reply (reply_only SW_OK), m1) \<and>
    handle env 100 0 INS_SIGN P1_ADD p2 (take 250 doc_text) m1 = (Reply (reply_only SW_OK), m2) \<and>
    handle env 100 0 INS_SIGN P1_LAST p2 (drop 250 doc_text) m2 = (ReviewTx False, m3) \<and>
    tx (dev m3) = doc_text \<and> sign_path m3 = path_of path \<and> app_pending m3 = PendingSign (SignModern TxJson)"
proof -
  let ?m1 = "m \<lparr> app_pending := PendingNone, dev := tx_reset (dev m), app_stream := Modern INS_SIGN,
        hd_path := path_of path, sign_path := path_of path \<rparr>"
  let ?m2 = "?m1 \<lparr> dev := snd (tx_append (tx_reset (dev m)) (take 250 doc_text)) \<rparr>"
  have ins: "INS_SIGN \<in> modern_ins" "stream_type INS_SIGN = TxJson"
    by (simp_all add: modern_ins_def stream_type_def)
  have cap: "(100::nat) < UNSET" by (simp add: UNSET_def)
  have init: "handle env 100 0 INS_SIGN P1_INIT p2 path m = (Reply (reply_only SW_OK), ?m1)"
    by (rule init_step) (use assms ins in simp_all)
  have i1: "minv ?m1" using handle_outcome [OF assms(1) cap init] by (rule outcome_minv)
  then have wf: "device_wf (tx_reset (dev m))" by (simp add: minv_def)
  note sp = tx_append_spec [OF wf, of "take 250 doc_text"]
  have ok1: "fst (tx_append (tx_reset (dev m)) (take 250 doc_text))"
    by (simp add: sp(2) dev.contents_reset doc_length FLASH_CAP_def)
  have add: "handle env 100 0 INS_SIGN P1_ADD p2 (take 250 doc_text) ?m1 = (Reply (reply_only SW_OK), ?m2)"
    using add_step [OF ins(1) assms(2), of ?m1 "take 250 doc_text"] ok1 by simp
  have i2: "minv ?m2" using handle_outcome [OF i1 cap add] by (rule outcome_minv)
  have t2: "tx (dev ?m2) = take 250 doc_text" using sp(3) ok1 by (simp add: dev.contents_reset)
  have ok2: "fst (tx_append (dev ?m2) (drop 250 doc_text))"
    using tx_append_spec(2) [of "dev ?m2" "drop 250 doc_text"] t2 sp(1) by (simp add: doc_length FLASH_CAP_def)
  let ?c = "closed_with (drop 250 doc_text) ?m2"
  have c: "tx (dev ?c) = doc_text" "sign_path ?c = path_of path"
    using tx_append_spec(3) [of "dev ?m2" "drop 250 doc_text"] t2 sp(1) ok2 by (simp_all add: closed_with_def)
  obtain m' where "tx_parse env 100 TxJson 469 ?c = (Inr False, m')"
    using doc_parse [OF c(1) assms(5)] c(2) assms(6) by auto
  then have last: "handle env 100 0 INS_SIGN P1_LAST p2 (drop 250 doc_text) ?m2 =
      (ReviewTx False, m' \<lparr> app_pending := PendingSign (SignModern TxJson) \<rparr>)"
    using last_step [OF ins(1) assms(2) _ ok2] c(1) doc_length(1) by (simp add: ins(2))
  from last_review [OF i2 cap ins(1) assms(2) _ ok2 last] show ?thesis
    using init add last t2 by (auto simp: ins(2))
qed

section \<open>Concrete machines\<close>

definition sample_path :: bytes where
  "sample_path = map byte_of [0x2C, 0, 0, 0x80, 0x72, 2, 0, 0x80, 0, 0, 0, 0, 0, 0, 0, 0, 0, 0, 0, 0]"

lemma sample_path_ok: "length sample_path = 20" "prefix_ok (path_of sample_path)"
  by (simp_all add: sample_path_def prefix_ok_def path_of_def le32_def HDPATH_0_def HDPATH_1_def)

text \<open>The environment with blind signing and expert mode off.\<close>

definition clear_env :: os_env where
  "clear_env = sample_env \<lparr> os_settings := replicate 10 NUL \<rparr>"

lemma env_settings: "dev_blind_signing sample_env" "\<not> dev_blind_signing clear_env"
  by (simp_all add: dev_blind_signing_def settings_get_def sample_env_def clear_env_def BLIND_SIGNING_def)

lemma env_pins: "os_pin_validated sample_env" "os_pin_validated clear_env"
  by (simp_all add: sample_env_def clear_env_def)

lemma env_keys: "public_key sample_env p = Some sample_pk" "public_key clear_env p = Some sample_pk"
  using sample_public_key by (simp_all add: clear_env_def public_key_def)

lemma env_hash: "os_blake2b sample_env bs = Some (take 32 (bs @ replicate 32 NUL))"
  "os_blake2b clear_env bs = Some (take 32 (bs @ replicate 32 NUL))"
  by (simp_all add: sample_env_def clear_env_def)

lemma env_sign: "dev_sign sample_env p h = Some (h @ h)" "dev_sign clear_env p h = Some (h @ h)"
  by (simp_all add: dev_sign_def sample_env_def clear_env_def)

text \<open>A state that awaits the user's decision on a hash, and one on the document.\<close>

lemma hash_pending:
  assumes "length h = HASH_LEN"
  shows "\<exists>m. reachable {sample_env} 100 m \<and> app_pending m = PendingSign (SignModern TxHash) \<and>
    tx (dev m) = h \<and> sign_path m = path_of sample_path"
proof -
  have "(100::nat) < UNSET" "20 \<le> length sample_path" by (simp_all add: UNSET_def sample_path_ok)
  then obtain m1 m2 where m:
    "handle sample_env 100 0 INS_SIGN_HASH P1_INIT 0 sample_path machine_new = (Reply (reply_only SW_OK), m1)"
    "handle sample_env 100 0 INS_SIGN_HASH P1_LAST 0 h m1 = (ReviewTx True, m2)"
    "tx (dev m2) = h" "sign_path m2 = path_of sample_path" "app_pending m2 = PendingSign (SignModern TxHash)"
    using hash_session [OF minv_new _ env_pins(1) env_settings(1) _ sample_path_ok(2) env_keys(1) assms env_sign(1),
        of 100 0] assms by (auto simp: HASH_LEN_def REPLY_MAX_def)
  have "reachable {sample_env} 100 m1" by (rule reachable.command [OF reachable.start _ m(1)]) simp
  from reachable.command [OF this _ m(2)] show ?thesis using m(3-5) by auto
qed

lemma doc_pending:
  "\<exists>m. reachable {clear_env} 100 m \<and> app_pending m = PendingSign (SignModern TxJson) \<and>
    tx (dev m) = doc_text \<and> sign_path m = path_of sample_path"
proof -
  have "20 \<le> length sample_path" by (simp add: sample_path_ok)
  from doc_session [OF minv_new env_pins(2) this sample_path_ok(2) env_hash(2) env_keys(2), of 0]
  obtain m1 m2 m3 where m:
    "handle clear_env 100 0 INS_SIGN P1_INIT 0 sample_path machine_new = (Reply (reply_only SW_OK), m1)"
    "handle clear_env 100 0 INS_SIGN P1_ADD 0 (take 250 doc_text) m1 = (Reply (reply_only SW_OK), m2)"
    "handle clear_env 100 0 INS_SIGN P1_LAST 0 (drop 250 doc_text) m2 = (ReviewTx False, m3)"
    "tx (dev m3) = doc_text" "sign_path m3 = path_of sample_path" "app_pending m3 = PendingSign (SignModern TxJson)"
    by blast
  have "reachable {clear_env} 100 m1" by (rule reachable.command [OF reachable.start _ m(1)]) simp
  from reachable.command [OF this _ m(2)] have "reachable {clear_env} 100 m2" by simp
  from reachable.command [OF this _ m(3)] show ?thesis using m(4-6) by auto
qed

lemma replicate_32: "replicate 32 x = [x, x, x, x, x, x, x, x, x, x, x, x, x, x, x, x, x, x, x, x, x, x, x, x, x, x, x, x, x, x, x, x]"
  by (simp add: numeral_eq_Suc)

lemma doc_is_pending:
  "\<exists>m. reachable {clear_env} 100 m \<and> app_pending m = PendingSign (SignModern TxJson) \<and> tx (dev m) = doc_text \<and>
     review_len m = 13"
proof -
  obtain m where m: "reachable {clear_env} 100 m" "app_pending m = PendingSign (SignModern TxJson)"
    "tx (dev m) = doc_text" "sign_path m = path_of sample_path" using doc_pending by blast
  have cap: "(100::nat) < UNSET" by (simp add: UNSET_def)
  obtain es where r: "reviewed clear_env 100 TxJson doc_text (sign_path m) (app_parsed m) es"
    using reachable_sign [OF cap m(1,2)] m(3) by auto
  have ts: "parsed_json (app_parsed m) doc_text = doc_json"
    using r doc_parsed by (auto simp: reviewed_def reviewed_json_def doc_json_def)
  have "\<not> dev_expert clear_env" by (simp add: dev_expert_def settings_get_def clear_env_def EXPERT_MODE_def)
  then have "es = doc_entries"
    using r doc_signer doc_full_review [of False] unfolding reviewed_def reviewed_json_def ts
    by (auto simp: env_keys doc_full_def)
  then have "review_len m = 13" using reviewed_len [OF r] by (simp add: review_len_def doc_entries_def)
  then show ?thesis using m by blast
qed

lemma hash_is_pending:
  assumes "length h = HASH_LEN"
  shows "\<exists>m. reachable {sample_env} 100 m \<and> app_pending m = PendingSign (SignModern TxHash) \<and>
    tx (dev m) = h \<and> sign_path m = path_of sample_path \<and> review_len m = 4 \<and>
    i_render (arr_items (p_items (app_parsed m)) ! 1) = RHash"
proof -
  obtain m where m: "reachable {sample_env} 100 m" "app_pending m = PendingSign (SignModern TxHash)"
    "tx (dev m) = h" "sign_path m = path_of sample_path" using hash_pending [OF assms] by blast
  have "(100::nat) < UNSET" by (simp add: UNSET_def)
  then obtain es where r: "reviewed sample_env 100 TxHash h (sign_path m) (app_parsed m) es"
    using reachable_sign [OF _ m(1,2)] m(3) by auto
  have "dev_expert sample_env" by (simp add: dev_expert_def settings_get_def sample_env_def EXPERT_MODE_def)
  then have es: "es = hash_entries @ expert_entries" using r by (auto simp: reviewed_def reviewed_hash_def)
  then have "review_len m = 4"
    using reviewed_len [OF r] by (simp add: review_len_def hash_entries_def expert_entries_def)
  moreover from this have "item_shows (arr_items (p_items (app_parsed m)) ! 1) (es ! 1)"
    using shown_item [OF reviewed_shown [OF r]] by (simp add: review_len_def num_items_def)
  ultimately show ?thesis using m by (auto simp: es hash_entries_def plain_entry_def)
qed

end
