(* ===== verification/Items_Shown.thy ===== *)
theory Items_Shown
  imports Render Items_Props
begin

text \<open>
  What the item array says of the capabilities of the signer entry: after a successful
  \<open>store_tx_items\<close> it holds one block of items for each of them, in their order, with nothing between
  the blocks. The block of a capability is described here by what it must show, on the items
  themselves.
\<close>

section \<open>Blocks\<close>

definition receiver_warning :: "json \<Rightarrow> nat \<Rightarrow> entry list" where
  "receiver_warning j to = (if \<not> is_principal (span j to) then [plain_entry KWarning RNotPrincipal] else [])"

text \<open>A verified transfer: its kind, and the sender, receiver and amount of its arguments.\<close>

definition transfer_block :: "json \<Rightarrow> nat \<Rightarrow> item list \<Rightarrow> bool" where
  "transfer_block j cap xs \<longleftrightarrow>
     (\<exists>args frm to amt. get_value j cap ''args'' = Inr args \<and> get_nth j args 0 = Inr frm \<and> get_nth j args 1 = Inr to \<and>
        check_amount j args = Inr amt \<and>
        list_all2 item_shows xs ([plain_entry KTransfer RTransfer, tok_entry KFrom RStd frm, tok_entry KTo RStd to,
          tok_entry KAmount RAmount amt] @ receiver_warning j to))"

definition cross_block :: "json \<Rightarrow> nat \<Rightarrow> item list \<Rightarrow> bool" where
  "cross_block j cap xs \<longleftrightarrow>
     (\<exists>args frm to amt chain. get_value j cap ''args'' = Inr args \<and> get_nth j args 0 = Inr frm \<and>
        get_nth j args 1 = Inr to \<and> check_amount j args = Inr amt \<and> get_nth j args 3 = Inr chain \<and>
        list_all2 item_shows xs ([plain_entry KTransfer RCrossTransfer, tok_entry KFrom RStd frm, tok_entry KTo RStd to,
          tok_entry KAmount RAmount amt, tok_entry KToChain RStd chain] @ receiver_warning j to))"

text \<open>Anything else is named, with its arguments and a warning that asks for blind signing.\<close>

definition unverified_block :: "nat \<Rightarrow> item list \<Rightarrow> bool" where
  "unverified_block cap xs \<longleftrightarrow>
     list_ex (\<lambda>x. i_key x = KCapability \<and> i_render x = RCapName \<and> i_token x = cap) xs \<and>
     list_ex (\<lambda>x. i_key x = KArguments \<and> i_render x = RUnknown \<and> i_token x = cap) xs \<and>
     list_ex (\<lambda>x. i_key x = KWarning \<and> blind_render (i_render x)) xs"

definition rotate_block :: "nat \<Rightarrow> item list \<Rightarrow> bool" where
  "rotate_block cap xs \<longleftrightarrow> list_all2 item_shows xs [tok_entry KRotate RRotate cap, plain_entry KWarning RRotateWarning]"

definition cap_block :: "json \<Rightarrow> nat \<Rightarrow> item list \<Rightarrow> bool" where
  "cap_block j cap xs \<longleftrightarrow>
     (if names_cap j cap ''coin.GAS'' then xs = []
      else if names_cap j cap ''coin.TRANSFER'' \<and> verified_transfer j cap 3 then transfer_block j cap xs
      else if names_cap j cap ''coin.TRANSFER_XCHAIN'' \<and> verified_transfer j cap 4 then cross_block j cap xs
      else unverified_block cap xs \<or> names_cap j cap ''coin.ROTATE'' \<and> rotate_block cap xs)"

section \<open>The blocks of the review\<close>

lemma list_all2_concat2:
  "list_all2 P xs (concat yss) \<Longrightarrow> \<exists>xss. xs = concat xss \<and> list_all2 (list_all2 P) xss yss"
proof (induction yss arbitrary: xs)
  case (Cons ys yss)
  then obtain us vs where "xs = us @ vs" "list_all2 P us ys" "list_all2 P vs (concat yss)"
    by (auto simp: list_all2_append2)
  moreover obtain xss where "vs = concat xss" "list_all2 (list_all2 P) xss yss" using Cons.IH calculation(3) by blast
  ultimately show ?case by (intro exI [of _ "us # xss"]) simp
qed simp

lemma caps_review_blocks:
  "caps_review j clist is = Inr es \<Longrightarrow> map (get_nth j clist) is = map Inr caps \<Longrightarrow>
   \<exists>css. es = concat css \<and> list_all2 (\<lambda>cap cs. cap_review j cap = Inr cs) caps css"
proof (induction j clist "is" arbitrary: es caps rule: caps_review.induct)
  case (2 j clist i "is")
  obtain cap caps' where c: "caps = cap # caps'" "get_nth j clist i = Inr cap" "map (get_nth j clist) is = map Inr caps'"
    using 2(3) by (cases caps) auto
  obtain xs ys where x: "cap_review j cap = Inr xs" "caps_review j clist is = Inr ys" "es = xs @ ys"
    using 2(2) c(2) by (auto simp: cat_Inr_iff)
  obtain css where "ys = concat css" "list_all2 (\<lambda>cap cs. cap_review j cap = Inr cs) caps' css"
    using 2(1) [OF x(2) c(3)] by blast
  then show ?case using x c(1) by (intro exI [of _ "xs # css"]) simp
qed simp

lemma tx_review_blocks:
  assumes wf: "json_wf j" and r: "tx_review j signer n = Inr es"
    and c: "get_value j signer ''clist'' = Inr clist" "\<not> is_null j clist" "array_elements j clist \<noteq> []"
  shows "\<exists>pre css post. es = pre @ concat css @ post \<and>
    list_all2 (\<lambda>cap cs. cap_review j cap = Inr cs) (array_elements j clist) css"
proof -
  obtain ts ms where t: "transfers_review j signer = Inr ts" "meta_review j = Inr ms"
    "meta_has_sender j" "set ts \<subseteq> set es" "set ms \<subseteq> set es" "sublist ts es"
    using r by (rule tx_review_parts)
  note v = valid_clist_elements [OF wf c]
  then have "caps_review j clist [0..<length (array_elements j clist)] = Inr ts"
    using t(1) by (simp add: transfers_review_def)
  moreover have "map (get_nth j clist) [0..<length (array_elements j clist)] = map Inr (array_elements j clist)"
    using doc.all_elems [OF wf] get_valid_clist_count [OF v] by blast
  ultimately show ?thesis using caps_review_blocks t(6) unfolding sublist_def by metis
qed

section \<open>From entries to items\<close>

lemma names_cap_kind:
  assumes "json_wf j" "names_cap j cap name" "name \<noteq> []"
  shows "get_tx_name j cap = (if name = ''coin.TRANSFER'' then NameTxTransfer
     else if name = ''coin.TRANSFER_XCHAIN'' then NameTxTransferXchain
     else if name = ''coin.ROTATE'' then NameRotate else if name = ''coin.GAS'' then NameGas else NoData)"
proof -
  obtain n where n: "tok_kind (json_tok j cap) = Object" "get_value j cap ''name'' = Inr n" "span j n = name"
    using assms(2) by (auto simp: names_cap_def)
  then have "tok_len (json_tok j n) \<noteq> 0" using length_span_le [OF assms(1), of n] assms(3) by (metis length_0_conv)
  then show ?thesis using n by (simp add: get_tx_name_def Let_def)
qed

lemma shows_entry: "list_all2 item_shows xs es \<Longrightarrow> (k, r, Some t, d) \<in> set es \<Longrightarrow>
    list_ex (\<lambda>x. i_key x = k \<and> i_render x = r \<and> i_token x = t) xs"
  "list_all2 item_shows xs es \<Longrightarrow> plain_entry k r \<in> set es \<Longrightarrow> list_ex (\<lambda>x. i_key x = k \<and> i_render x = r) xs"
  by (induction rule: list_all2_induct) (auto simp: plain_entry_def)

lemma list_ex_mono: "list_ex P xs \<Longrightarrow> (\<And>x. P x \<Longrightarrow> Q x) \<Longrightarrow> list_ex Q xs"
  by (auto simp: list_ex_iff)

lemma receiver_review_warning:
  "receiver_review j args = rbind (pe (get_nth j args 1)) (\<lambda>to. Inr (receiver_warning j to))"
  by (simp add: receiver_review_def receiver_warning_def)

lemma unverified_blockI:
  assumes "list_all2 item_shows xs es" "set (unverified_review j cap nargs args warn) \<subseteq> set es"
    "warn \<or> plain_entry KWarning RRotateWarning \<in> set es"
  shows "unverified_block cap xs"
proof -
  have "(KWarning, RCapNotVerified, Some cap, True) \<in> set es \<or> plain_entry KWarning RRotateWarning \<in> set es"
    using assms(2,3) by (auto simp: unverified_review_def tok_entry_def)
  then have "list_ex (\<lambda>x. i_key x = KWarning \<and> blind_render (i_render x)) xs"
    by (elim disjE shows_entry [OF assms(1), THEN list_ex_mono]) (simp_all add: blind_render_def)
  moreover have "(KCapability, RCapName, Some cap, True) \<in> set es"
    "(KArguments, RUnknown, Some cap, \<not> args_too_large j nargs args) \<in> set es"
    using assms(2) by (auto simp: unverified_review_def tok_entry_def)
  ultimately show ?thesis unfolding unverified_block_def using shows_entry(1) [OF assms(1)] by blast
qed

lemma cap_review_block:
  assumes wf: "json_wf j" and r: "cap_review j cap = Inr cs" and xs: "list_all2 item_shows xs cs"
  shows "cap_block j cap xs"
proof (cases "get_tx_name j cap = NameGas")
  case True
  then show ?thesis using r xs get_tx_name_iff(1) by (auto simp: cap_review_def cap_block_def split: if_splits)
next
  case False
  note kind = names_cap_kind [OF wf]
  obtain args n where a: "get_value j cap ''args'' = Inr args" "get_count j args = Inr n"
    using r False by (auto simp: cap_review_def rbind_Inr_iff split: if_splits)
  have v: "verified_transfer j cap k \<longleftrightarrow> n = k \<and> is_ok (check_amount j args)" for k
    using a by (auto simp: verified_transfer_def)
  have nogas: "\<not> names_cap j cap ''coin.GAS''" using kind False by fastforce
  consider (transfer) "get_tx_name j cap = NameTxTransfer" "n = 3" "transfer_review j args = Inr cs"
    | (cross) "get_tx_name j cap = NameTxTransferXchain" "n = 4" "cross_review j args = Inr cs"
    | (rotate) "get_tx_name j cap = NameRotate" "cs = [tok_entry KRotate RRotate cap, plain_entry KWarning RRotateWarning]"
    | (other) warn where "\<not> (get_tx_name j cap = NameTxTransfer \<and> n = 3)"
        "\<not> (get_tx_name j cap = NameTxTransferXchain \<and> n = 4)"
        "cs = unverified_review j cap n args warn @ (if warn then [] else [plain_entry KWarning RRotateWarning])"
  proof (cases "get_tx_name j cap = NameRotate")
    case True
    then show thesis using rotate other [of False] r a by (auto simp: cap_review_def split: if_splits)
  next
    case False
    then show thesis using transfer cross other [of True] r a \<open>get_tx_name j cap \<noteq> NameGas\<close>
      by (auto simp: cap_review_def split: if_splits parser_error.splits)
  qed
  then show ?thesis
  proof cases
    case transfer
    then have "names_cap j cap ''coin.TRANSFER'' \<and> verified_transfer j cap 3" "transfer_block j cap xs"
      using xs a get_tx_name_iff(2) unfolding v
      by (auto simp: transfer_review_def receiver_review_warning transfer_block_def rbind_Inr_iff cat_Inr_iff)
    then show ?thesis using nogas by (simp add: cap_block_def)
  next
    case cross
    then have "names_cap j cap ''coin.TRANSFER_XCHAIN'' \<and> verified_transfer j cap 4" "cross_block j cap xs"
      using xs a get_tx_name_iff(3) unfolding v
      by (auto simp: cross_review_def receiver_review_warning cross_block_def rbind_Inr_iff cat_Inr_iff)
    moreover have "\<not> names_cap j cap ''coin.TRANSFER''" using cross(1) kind by fastforce
    ultimately show ?thesis using nogas by (simp add: cap_block_def)
  next
    case rotate
    then have "\<not> names_cap j cap ''coin.TRANSFER''" "\<not> names_cap j cap ''coin.TRANSFER_XCHAIN''" using kind by fastforce+
    then show ?thesis using rotate xs nogas get_tx_name_iff(4) by (simp add: cap_block_def rotate_block_def)
  next
    case other
    have "\<not> (names_cap j cap ''coin.TRANSFER'' \<and> verified_transfer j cap 3)"
      "\<not> (names_cap j cap ''coin.TRANSFER_XCHAIN'' \<and> verified_transfer j cap 4)"
      using other(1,2) kind unfolding v by fastforce+
    then show ?thesis using nogas unverified_blockI [OF xs, of j cap n args warn] other(3) by (auto simp: cap_block_def)
  qed
qed

section \<open>The blocks of the item array\<close>

lemma stored_blocks:
  assumes wf: "json_wf j" and st: "store_tx_items j signer n (items_init a0) = (Inr (), a)"
    and c: "get_value j signer ''clist'' = Inr clist" "\<not> is_null j clist" "array_elements j clist \<noteq> []"
  shows "\<exists>pre blocks post. shown a = pre @ concat blocks @ post \<and>
    list_all2 (cap_block j) (array_elements j clist) blocks"
proof -
  obtain es where es: "tx_review j signer n = Inr es" "list_all2 item_shows (shown a) es"
    using store_tx_items_refines [of j signer n a0] st by (auto simp: review_shown_def)
  obtain pre css post where p: "es = pre @ concat css @ post"
    "list_all2 (\<lambda>cap cs. cap_review j cap = Inr cs) (array_elements j clist) css"
    using tx_review_blocks [OF wf es(1) c] by blast
  obtain us vs ws where u: "shown a = us @ vs @ ws" "list_all2 item_shows vs (concat css)"
    using es(2) unfolding p(1) by (auto simp: list_all2_append2)
  obtain xss where x: "vs = concat xss" "list_all2 (list_all2 item_shows) xss css"
    using list_all2_concat2 [OF u(2)] by blast
  have "list_all2 (cap_block j) (array_elements j clist) xss"
    using p(2) x(2) cap_review_block [OF wf] by (auto simp: list_all2_conv_all_nth)
  then show ?thesis using u(1) x(1) by blast
qed

text \<open>The values of the items of a transfer.\<close>

lemma render_std_value: "json_wf j \<Longrightarrow> i_render (arr_items a ! i) = RStd \<Longrightarrow> render a j h adr i = Inr v \<Longrightarrow>
    v = span j (i_token (arr_items a ! i))"
  using length_span_le [of j] by (auto simp: render_def render_std_def Let_def w_puts_fits split: if_splits)

lemma render_amount_value: "json_wf j \<Longrightarrow> i_render (arr_items a ! i) = RAmount \<Longrightarrow> render a j h adr i = Inr v \<Longrightarrow>
    v = ''KDA '' @ span j (i_token (arr_items a ! i))"
  using length_span_le [of j] by (auto simp: render_def render_amount_def Let_def w_puts_fits split: if_splits)

lemma stored_transfer:
  assumes "json_wf j" "store_tx_items j signer n (items_init a0) = (Inr (), a)" "get_value j signer ''clist'' = Inr clist"
    "\<not> is_null j clist" "cap \<in> set (array_elements j clist)"
    and t: "names_cap j cap ''coin.TRANSFER''" "verified_transfer j cap 3"
  shows "\<exists>pre xs post. shown a = pre @ xs @ post \<and> transfer_block j cap xs"
proof -
  have "array_elements j clist \<noteq> []" using assms(5) by auto
  then obtain pre blocks post where b: "shown a = pre @ concat blocks @ post"
    "list_all2 (cap_block j) (array_elements j clist) blocks"
    using stored_blocks [OF assms(1-4)] by blast
  obtain xs where xs: "xs \<in> set blocks" "cap_block j cap xs"
  proof -
    obtain i where i: "i < length (array_elements j clist)" "cap = array_elements j clist ! i"
      using assms(5) by (auto simp: in_set_conv_nth)
    show thesis using that [of "blocks ! i"] list_all2_nthD [OF b(2) i(1)] list_all2_lengthD [OF b(2)] i by simp
  qed
  have "\<not> names_cap j cap ''coin.GAS''" using t(1) by (auto simp: names_cap_def)
  then have "transfer_block j cap xs" using xs(2) t by (simp add: cap_block_def)
  moreover obtain us vs where "concat blocks = us @ xs @ vs"
    using split_list [OF xs(1)] by auto
  ultimately show ?thesis using b(1) by (metis append.assoc)
qed

text \<open>The items of a block, at its position \<open>i\<close> in the array.\<close>

lemma block_position:
  assumes "shown a = pre @ xs @ post" "k < length xs"
  shows "arr_items a ! (length pre + k) = xs ! k \<and> length pre + k < arr_num a"
proof -
  have l: "length pre + k < length (shown a)" using assms by simp
  then have "length pre + k < arr_num a" by (simp add: shown_def)
  moreover have "shown a ! (length pre + k) = xs ! k" using assms by (simp add: nth_append)
  ultimately show ?thesis by (simp add: shown_def)
qed

lemma transfer_items:
  assumes "shown a = pre @ xs @ post" "transfer_block j cap xs"
  shows "\<exists>args frm to amt. get_value j cap ''args'' = Inr args \<and> get_nth j args 0 = Inr frm \<and> get_nth j args 1 = Inr to \<and>
    check_amount j args = Inr amt \<and>
    (let i = length pre; it = arr_items a in i + 3 < arr_num a \<and>
       item_shows (it ! i) (plain_entry KTransfer RTransfer) \<and> item_shows (it ! (i + 1)) (tok_entry KFrom RStd frm) \<and>
       item_shows (it ! (i + 2)) (tok_entry KTo RStd to) \<and> item_shows (it ! (i + 3)) (tok_entry KAmount RAmount amt) \<and>
       (is_principal (span j to) \<or> i + 4 < arr_num a \<and> item_shows (it ! (i + 4)) (plain_entry KWarning RNotPrincipal)))"
proof -
  obtain args frm to amt where t: "get_value j cap ''args'' = Inr args" "get_nth j args 0 = Inr frm" "get_nth j args 1 = Inr to"
    "check_amount j args = Inr amt"
    and l: "list_all2 item_shows xs ([plain_entry KTransfer RTransfer, tok_entry KFrom RStd frm, tok_entry KTo RStd to,
      tok_entry KAmount RAmount amt] @ receiver_warning j to)"
    using assms(2) unfolding transfer_block_def by blast
  let ?es = "[plain_entry KTransfer RTransfer, tok_entry KFrom RStd frm, tok_entry KTo RStd to,
      tok_entry KAmount RAmount amt] @ receiver_warning j to"
  have p: "item_shows (arr_items a ! (length pre + k)) (?es ! k)" "length pre + k < arr_num a" if "k < length ?es" for k
    using that block_position [OF assms(1), of k] list_all2_nthD2 [OF l that] list_all2_lengthD [OF l] by auto
  have w: "?es ! 4 = plain_entry KWarning RNotPrincipal" "4 < length ?es" if "\<not> is_principal (span j to)"
    using that by (simp_all add: receiver_warning_def)
  show ?thesis
    using t p [of 0] p [of 1] p [of 2] p [of 3] p [of 4] w
    by (intro exI [of _ args] exI [of _ frm] exI [of _ to] exI [of _ amt]) (auto simp: Let_def numeral_eq_Suc)
qed

end
