(* ===== verification/Review_Claims.thy ===== *)
theory Review_Claims
  imports Doc_Review Items_Shown
begin

text \<open>
  What the review of one document guarantees: the items stored are the specified ones, every
  capability is among them, the signer entry is the only one that names the device key, amounts and
  \<open>meta\<close> keys are the plain ones, and the document was read whole and without ambiguous keys. Each
  claim is followed by a witness on the example document.
\<close>

section \<open>Reading\<close>

text \<open>C26: The tokenizer, strict or not, returns well-formed tokens: every token closed, of a known kind
  and inside the input, the starts increasing, no more of them than there is room for, and the count
  it returns is their number.\<close>

theorem tokens_are_well_formed:
  assumes "parse_impl strict cap js = Inr (ts, n)" "length js < UNSET"
  shows "list_all (\<lambda>t. tok_kind t \<noteq> Undefined \<and> tok_start t \<le> tok_end t \<and> tok_end t \<le> length js) ts \<and>
    sorted_wrt (<) (map tok_start ts) \<and> n = length ts \<and> length ts \<le> cap"
  using parse_impl_wf [OF assms] by (auto simp: tokens_wf_def span_ok_def list_all_iff)

theorem tokens_are_well_formed_witness:
  "list_all (\<lambda>t. tok_end t \<le> 469) doc_tokens"
proof -
  have "parse_impl True 100 doc_text = Inr (doc_tokens, 47)" "length doc_text < UNSET"
    using doc_parsed by (simp_all add: parse_strict_def doc_length UNSET_def)
  from tokens_are_well_formed [OF this] show ?thesis by (auto simp: list_all_iff doc_length)
qed

text \<open>C22: A document that is read was read whole. After a successful \<open>read_json\<close> the tokens are those of
  the strict parse of all the bytes, none of them is NUL, nothing but white space follows the root
  value, and the keys passed the integrity check.\<close>

theorem document_is_read_whole:
  assumes "read_json cap bs ps = (Inr (), ps')" "length bs < UNSET" "cap < UNSET"
  shows "parsed_json ps' bs = \<lparr> buf = bs, tokens = p_tokens ps' \<rparr> \<and>
    parse_strict cap bs = Inr (p_tokens ps', length (p_tokens ps')) \<and> p_tokens ps' \<noteq> [] \<and>
    NUL \<notin> set bs \<and> check_key_integrity (parsed_json ps' bs) = Inr () \<and>
    list_all is_json_space (drop (tok_end (hd (p_tokens ps')) +
      (if tok_kind (hd (p_tokens ps')) = StringTok then 1 else 0)) bs)"
  using read_json_InrD [OF assms] by blast

theorem document_is_read_whole_witness:
  "\<exists>ps'. read_json 100 doc_text parsed_new = (Inr (), ps') \<and> NUL \<notin> set doc_text \<and>
     check_key_integrity (parsed_json ps' doc_text) = Inr ()"
proof -
  have c: "length doc_text < UNSET" "(100::nat) < UNSET" by (simp_all add: doc_length UNSET_def)
  from document_is_read_whole [OF doc_read [of parsed_new] c] doc_read [of parsed_new] show ?thesis by blast
qed

text \<open>C25: The integrity check accepts exactly the documents in which every object has distinct keys
  without a backslash.\<close>

theorem integrity_means_distinct_keys:
  "check_key_integrity j = Inr () \<longleftrightarrow>
     list_all (\<lambda>ob. distinct (map (span j) (object_keys j ob)) \<and>
         list_all (\<lambda>k. CHR 0x5C \<notin> set (span j k)) (object_keys j ob))
       (filter (\<lambda>ob. tok_kind (json_tok j ob) = Object) [0..<json_n j])"
  by (auto simp: check_key_integrity_iff keys_ok_def list_all_iff)

lemma distinct_label_filter: "distinct (map f ks) \<Longrightarrow> length (filter (\<lambda>k. f k = y) ks) \<le> 1"
proof (induction ks)
  case (Cons k ks)
  then have "f k = y \<Longrightarrow> filter (\<lambda>k. f k = y) ks = []" by (auto simp: filter_empty_conv image_iff)
  then show ?case using Cons by auto
qed simp

text \<open>C24: In such a document a lookup is unambiguous: it finds the value behind a key of the object
  exactly when the key's bytes are the name looked up, and there is at most one such key.\<close>

theorem lookup_is_unambiguous:
  assumes "json_wf j" "check_key_integrity j = Inr ()" "ob < json_n j"
    "tok_kind (json_tok j ob) = Object" "length key < 65536"
  shows "(get_value j ob key = Inr v \<longleftrightarrow> (\<exists>k \<in> set (object_keys j ob). span j k = key \<and> v = Suc k)) \<and>
    length (filter (\<lambda>k. span j k = key) (object_keys j ob)) \<le> 1"
proof -
  have "distinct (map (span j) (object_keys j ob))"
    using assms(2-4) by (simp add: check_key_integrity_iff keys_ok_def)
  then show ?thesis by (intro conjI integrity_lookup [OF assms] distinct_label_filter)
qed

theorem lookup_is_unambiguous_witness:
  "get_value doc_json 13 ''clist'' = Inr 17 \<and> length (filter (\<lambda>k. span doc_json k = ''clist'') [14, 16]) \<le> 1"
proof -
  have c: "13 < json_n doc_json" "tok_kind (json_tok doc_json 13) = Object" "length ''clist'' < 65536"
    by (simp_all add: doc_facts)
  from lookup_is_unambiguous [OF doc_wf doc_integrity c, of 17] show ?thesis by (simp add: doc_facts)
qed

section \<open>The items\<close>

text \<open>C6: The stored items refine the specified review, completely. If the review of the document for a
  signer entry is an error, storing ends with it (or has run out of slots before it); if it is a list
  of fewer than 100 entries, storing succeeds and the item array shows exactly these entries in order;
  if it is longer, storing refuses with \<open>TooManyItems\<close>: no entry is ever dropped.\<close>

theorem stored_items_refine_review:
  "case tx_review j signer n of
     Inl e \<Rightarrow> fst (store_tx_items j signer n (items_init a0)) \<in> {Inl e, Inl TooManyItems}
   | Inr es \<Rightarrow>
       if length es < MAX_ITEMS
       then \<exists>a. store_tx_items j signer n (items_init a0) = (Inr (), a) \<and> array_ok a \<and>
         list_all2 item_shows (shown a) es \<and> arr_signer a = signer \<and> arr_nsigners a = n
       else fst (store_tx_items j signer n (items_init a0)) = Inl TooManyItems"
proof -
  obtain r a where s: "store_tx_items j signer n (items_init a0) = (r, a)" by fastforce
  show ?thesis using store_tx_items_refines [of j signer n a0] review_shown_length [of a] unfolding s
    by (cases r; cases "tx_review j signer n") (auto simp: review_shown_def)
qed

text \<open>C11: Every capability of the device's signer entry is on the review. After a successful
  \<open>store_tx_items\<close> the item array holds, between what comes before and after, one block of items for each
  element of the capability list, in the order of the list and nothing else between them: a verified transfer
  with its arguments, a rotation with its account and warning, anything else with its name, its arguments
  and a warning that asks for blind signing; the block is empty for \<open>coin.GAS\<close> alone.\<close>

theorem every_capability_is_shown:
  assumes "json_wf j" "store_tx_items j signer n (items_init a0) = (Inr (), a)" "get_value j signer ''clist'' = Inr clist"
    "\<not> is_null j clist" "array_elements j clist \<noteq> []"
  shows "\<exists>pre blocks post. take (arr_num a) (arr_items a) = pre @ concat blocks @ post \<and>
    list_all2 (cap_block j) (array_elements j clist) blocks"
  using stored_blocks [OF assms] unfolding shown_def .

lemma doc_clist_value: "get_value doc_json 13 ''clist'' = Inr 17" "\<not> is_null doc_json 17"
    "array_elements doc_json 17 = [18, 26]"
  by (simp_all add: doc_get doc_facts doc_sizes)

lemma doc_stored: "\<exists>a. store_tx_items doc_json 13 1 (items_init items_new) = (Inr (), a)"
proof -
  have "length doc_entries < MAX_ITEMS" by (simp add: doc_entries_def MAX_ITEMS_def)
  then show ?thesis using store_tx_items_refines [of doc_json 13 1 items_new] doc_review
    by (auto split: prod.splits sum.splits)
qed

lemma doc_names_cap: "names_cap doc_json 18 ''coin.TRANSFER''" "verified_transfer doc_json 18 3" "names_cap doc_json 26 ''coin.GAS''"
  by (simp_all add: doc_facts names_cap_def doc_get verified_transfer_def doc_count doc_amount)

theorem every_capability_is_shown_witness:
  "\<exists>a pre xs post. store_tx_items doc_json 13 1 (items_init items_new) = (Inr (), a) \<and>
     take (arr_num a) (arr_items a) = pre @ xs @ post \<and> transfer_block doc_json 18 xs"
proof -
  obtain a where a: "store_tx_items doc_json 13 1 (items_init items_new) = (Inr (), a)" using doc_stored by blast
  have ne: "array_elements doc_json 17 \<noteq> []" by (simp add: doc_clist_value)
  obtain pre blocks post where b: "take (arr_num a) (arr_items a) = pre @ concat blocks @ post"
    "list_all2 (cap_block doc_json) [18, 26] blocks"
    using every_capability_is_shown [OF doc_wf a doc_clist_value(1,2) ne] unfolding doc_clist_value by blast
  then obtain xs ys where "blocks = [xs, ys]" "cap_block doc_json 18 xs" "cap_block doc_json 26 ys"
    by (auto simp: list_all2_Cons1)
  moreover have "\<not> names_cap doc_json 18 ''coin.GAS''" by (simp add: names_cap_def doc_get doc_facts)
  ultimately show ?thesis using a b(1) doc_names_cap by (auto simp: cap_block_def)
qed

text \<open>C12: A coin transfer is shown as it is in the document. If a capability of the entry is a
  \<open>coin.TRANSFER\<close> of three arguments with a plain amount, the stored items have, one after the other, the
  kind of the transfer and the lines \<open>From\<close>, \<open>To\<close> and \<open>Amount\<close>; the value that is rendered for them is the
  first argument, the second argument, and the number of the third behind \<open>KDA\<close>, each whole; and a warning
  follows if the receiver is not a principal.\<close>

theorem transfer_is_shown:
  assumes "json_wf j" "store_tx_items j signer n (items_init a0) = (Inr (), a)" "get_value j signer ''clist'' = Inr clist"
    "\<not> is_null j clist" "cap \<in> set (array_elements j clist)"
    and "names_cap j cap ''coin.TRANSFER''" "verified_transfer j cap 3"
  shows "\<exists>args frm to amt i. get_value j cap ''args'' = Inr args \<and> get_nth j args 0 = Inr frm \<and>
    get_nth j args 1 = Inr to \<and> check_amount j args = Inr amt \<and> i + 3 < arr_num a \<and>
    render a j h adr i = Inr ''Normal Transfer'' \<and>
    map (title a) [i + 1, i + 2, i + 3] = [''From'', ''To'', ''Amount''] \<and>
    (\<forall>v. render a j h adr (i + 1) = Inr v \<longrightarrow> v = span j frm) \<and>
    (\<forall>v. render a j h adr (i + 2) = Inr v \<longrightarrow> v = span j to) \<and>
    (\<forall>v. render a j h adr (i + 3) = Inr v \<longrightarrow> v = ''KDA '' @ span j amt) \<and>
    (is_principal (span j to) \<or> i + 4 < arr_num a \<and> render a j h adr (i + 4) = Inr NOT_PRINCIPAL_TEXT)"
proof -
  obtain pre xs post where x: "shown a = pre @ xs @ post" "transfer_block j cap xs"
    using stored_transfer [OF assms] by blast
  let ?i = "length pre"
  obtain args frm to amt where t: "get_value j cap ''args'' = Inr args" "get_nth j args 0 = Inr frm"
    "get_nth j args 1 = Inr to" "check_amount j args = Inr amt"
    and it: "?i + 3 < arr_num a" "item_shows (arr_items a ! ?i) (plain_entry KTransfer RTransfer)"
      "item_shows (arr_items a ! (?i + 1)) (tok_entry KFrom RStd frm)" "item_shows (arr_items a ! (?i + 2)) (tok_entry KTo RStd to)"
      "item_shows (arr_items a ! (?i + 3)) (tok_entry KAmount RAmount amt)"
      "is_principal (span j to) \<or> ?i + 4 < arr_num a \<and> item_shows (arr_items a ! (?i + 4)) (plain_entry KWarning RNotPrincipal)"
    using transfer_items [OF x] unfolding Let_def by blast
  note it' = it(2-5) [unfolded plain_entry_def tok_entry_def item_shows.simps option.case]
  have "map (title a) [?i + 1, ?i + 2, ?i + 3] = [''From'', ''To'', ''Amount'']"
    using it' by (simp add: title_def Let_def w_puts_def w_put_def TITLE_BUF_def)
  moreover have "render a j h adr ?i = Inr ''Normal Transfer''"
    using it' by (simp add: render_def w_puts_fits VALUE_BUF_def)
  moreover have "is_principal (span j to) \<or> ?i + 4 < arr_num a \<and> render a j h adr (?i + 4) = Inr NOT_PRINCIPAL_TEXT"
    using it(6) by (auto simp: plain_entry_def render_def w_puts_fits VALUE_BUF_def NOT_PRINCIPAL_TEXT_def)
  moreover have "\<forall>v. render a j h adr (?i + 1) = Inr v \<longrightarrow> v = span j frm"
    using render_std_value [OF assms(1), of a "?i + 1" h adr] it'(2) by simp
  moreover have "\<forall>v. render a j h adr (?i + 2) = Inr v \<longrightarrow> v = span j to"
    using render_std_value [OF assms(1), of a "?i + 2" h adr] it'(3) by simp
  moreover have "\<forall>v. render a j h adr (?i + 3) = Inr v \<longrightarrow> v = ''KDA '' @ span j amt"
    using render_amount_value [OF assms(1), of a "?i + 3" h adr] it'(4) by simp
  ultimately show ?thesis
    using t it(1) by (intro exI [of _ args] exI [of _ frm] exI [of _ to] exI [of _ amt] exI [of _ ?i] conjI)
qed

theorem transfer_is_shown_witness:
  "\<exists>a i. store_tx_items doc_json 13 1 (items_init items_new) = (Inr (), a) \<and>
     map (title a) [i + 1, i + 2, i + 3] = [''From'', ''To'', ''Amount''] \<and>
     (\<forall>v. render a doc_json [] None (i + 2) = Inr v \<longrightarrow> v = ''k:b'') \<and>
     render a doc_json [] None (i + 4) = Inr NOT_PRINCIPAL_TEXT"
proof -
  obtain a where a: "store_tx_items doc_json 13 1 (items_init items_new) = (Inr (), a)" using doc_stored by blast
  have c: "18 \<in> set (array_elements doc_json 17)" by (simp add: doc_clist_value)
  obtain args frm to amt i where w: "get_value doc_json 18 ''args'' = Inr args" "get_nth doc_json args 1 = Inr to"
    "map (title a) [i + 1, i + 2, i + 3] = [''From'', ''To'', ''Amount'']"
    "\<forall>v. render a doc_json [] None (i + 2) = Inr v \<longrightarrow> v = span doc_json to"
    "is_principal (span doc_json to) \<or> i + 4 < arr_num a \<and> render a doc_json [] None (i + 4) = Inr NOT_PRINCIPAL_TEXT"
    using transfer_is_shown [OF doc_wf a doc_clist_value(1,2) c doc_names_cap(1,2), of "[]" None]
    by (elim exE conjE) (rule that, assumption+)
  have "args = 20" using w(1) by (simp add: doc_get doc_facts)
  then have "to = 22" using w(2) by (simp add: doc_nth doc_facts)
  then have "span doc_json to = ''k:b''" by (simp add: doc_facts)
  then show ?thesis using a w(3-5) doc_receiver by auto
qed

section \<open>The signer, the amount, the \<open>meta\<close>\<close>

text \<open>C23: The entry the device signs for is the only one that names its key. When a signer entry is
  found, it is the single entry of the \<open>signers\<close> array whose \<open>pubKey\<close> or \<open>addr\<close> is the device key up to
  case, its \<open>pubKey\<close> is exactly the key, and no entry hides a key behind an escape.\<close>

theorem signer_entry_is_unique:
  assumes "json_wf j" "find_device_signer j hex = Inr (e, n)"
  shows "\<exists>sg. get_value j 0 ''signers'' = Inr sg \<and> tok_kind (json_tok j sg) = Array \<and>
    n = length (array_elements j sg) \<and> filter (names_key j hex) (array_elements j sg) = [e] \<and>
    list_all (\<lambda>x. tok_kind (json_tok j x) \<noteq> Object \<or> key_fields_plain j x) (array_elements j sg) \<and>
    (\<exists>pk. get_value j e ''pubKey'' = Inr pk \<and> tok_kind (json_tok j pk) = StringTok \<and> span j pk = hex)"
proof -
  have "(\<lambda>x. tok_kind (json_tok j x) \<noteq> Object \<or> key_fields_plain j x) =
      (\<lambda>x. tok_kind (json_tok j x) = Object \<longrightarrow> key_fields_plain j x)" by auto
  then show ?thesis using find_device_signer_InrD [OF assms] by simp
qed

theorem signer_entry_is_unique_witness:
  "filter (names_key doc_json (hex_lower sample_pk)) [13] = [13]"
  using signer_entry_is_unique [OF doc_wf doc_signer] by (auto simp: doc_get doc_facts)

text \<open>The amount shown for a transfer is a plain decimal number. A checked amount has the form
  \<open>digits(.digits)?\<close> without superfluous leading zeros and with at most 12 decimals, and it is either
  the bare third argument or the one string value of a \<open>{~decimal~: ..}\<close> object.\<close>

theorem amount_is_plain:
  assumes "check_amount j args = Inr t"
  shows "amount_text (span j t) \<and>
     (\<exists>a. get_nth j args 2 = Inr a \<and>
        (tok_kind (json_tok j a) = Primitive \<and> t = a \<or>
         tok_kind (json_tok j a) = Object \<and> tok_kind (json_tok j t) = StringTok \<and>
         found (object_get_element_count j a) = Inr 1 \<and>
         found (object_get_nth_value j a 0 0) = Inr t))"
  using assms by (rule check_amount_InrD)

theorem amount_is_plain_witness: "amount_text ''1.5''"
  using amount_is_plain [OF doc_amount] by (simp add: doc_facts)

end
