(* ===== verification/Json_Strings.thy ===== *)
theory Json_Strings
  imports Parser Display
begin

text \<open>
  The string tokens of a document that was read: each of them spans a well-formed JSON string body,
  on which the screen text can be read back. The tokenizer checks strings only up to the end of the
  root value; that nothing but white space follows it closes the gap.
\<close>

section \<open>JSON string bodies are read back from the screen\<close>

lemma escapes_printable: "d \<in> set escapes \<Longrightarrow> d \<noteq> CHR ''x'' \<and> printable d"
  by (auto simp: escapes_def printable_def)

lemma hex_not_backslash: "is_hex h \<Longrightarrow> h \<noteq> CHR 0x5C"
  by (auto simp: is_hex_def is_ascii_hexdigit_def is_ascii_digit_def)

lemma string_body_paired: "string_body s \<Longrightarrow> paired s"
proof (induction s rule: string_body.induct)
  case (2 c cs)
  show ?case
  proof (cases "c = CHR 0x5C")
    case True
    then obtain d ds where cs: "cs = d # ds" using "2.prems" by (cases cs) simp_all
    show ?thesis
    proof (cases "d \<in> set escapes")
      case True
      then show ?thesis using 2 cs \<open>c = CHR 0x5C\<close> escapes_printable [OF True] by simp
    next
      case False
      then obtain h1 h2 h3 h4 rest where ds: "d = CHR ''u''" "ds = h1 # h2 # h3 # h4 # rest" "string_body rest"
        "is_hex h1" "is_hex h2" "is_hex h3" "is_hex h4"
        using "2.prems" cs \<open>c = CHR 0x5C\<close> by (auto split: if_splits list.splits)
      have "paired rest" using 2(2) [OF \<open>c = CHR 0x5C\<close> cs False ds(1) ds(2) refl refl refl ds(3)] .
      then show ?thesis using ds cs \<open>c = CHR 0x5C\<close> hex_not_backslash by (simp add: printable_def)
    qed
  next
    case False
    then show ?thesis using 2 by simp
  qed
qed simp

section \<open>The strings behind the tokens\<close>

text \<open>
  In a strict run over \<open>bs\<close>: the root is an object; a string token has a well-formed body, or it
  starts, with its quote, behind the closed root.
\<close>

definition strings_ok :: "bytes \<Rightarrow> nat \<Rightarrow> jstate \<Rightarrow> bool" where
  "strings_ok bs pos st \<longleftrightarrow>
     (if toks st = [] then expecting st = ExpRoot else tok_kind (hd (toks st)) = Object) \<and>
     (\<forall>t \<in> set (toks st). tok_kind t = StringTok \<longrightarrow> string_body (token_span bs t) \<or>
        \<not> is_open (hd (toks st)) \<and> tok_end (hd (toks st)) < tok_start t \<and> bs ! (tok_start t - 1) = CHR 0x22) \<and>
     (expecting st = ExpDone \<longrightarrow> \<not> is_open (hd (toks st)) \<and> tok_end (hd (toks st)) \<le> pos)"

lemma strings_ok_keep:
  assumes "strings_ok bs pos st" "toks st' = toks st" "expecting st' = ExpDone \<longrightarrow> expecting st = ExpDone"
    "toks st = [] \<longrightarrow> expecting st' = ExpRoot" "pos \<le> q"
  shows "strings_ok bs q st'"
  using assms unfolding strings_ok_def by auto

lemma strings_ok_alloc:
  assumes "strings_ok bs pos st" "toks st' = toks st @ [t]" "expecting st' = ExpDone \<longrightarrow> expecting st = ExpDone" "pos \<le> q"
    "toks st = [] \<longrightarrow> tok_kind t = Object"
    "tok_kind t = StringTok \<longrightarrow> string_body (token_span bs t) \<or>
       expecting st = ExpDone \<and> pos < tok_start t \<and> bs ! (tok_start t - 1) = CHR 0x22"
  shows "strings_ok bs q st'"
  using assms unfolding strings_ok_def by (cases "toks st = []") auto

lemma strings_ok_close:
  assumes "strings_ok bs pos st" "last_index is_open (toks st) = Some i"
    "toks st' = (toks st)[i := (toks st ! i)\<lparr>tok_end := e\<rparr>]" "tok_kind (toks st ! i) \<noteq> StringTok" "pos \<le> q"
    "expecting st' = ExpDone \<longrightarrow> expecting st = ExpDone \<or> \<not> is_open (hd (toks st')) \<and> tok_end (hd (toks st')) \<le> q"
  shows "strings_ok bs q st'"
proof -
  have i: "i < length (toks st)" "is_open (toks st ! i)" using assms(2) last_index_SomeD by fastforce+
  have ne: "toks st \<noteq> []" "toks st' \<noteq> []" using i assms(3) by auto
  have hd_kind: "tok_kind (hd (toks st')) = tok_kind (hd (toks st))"
    using ne i assms(3) by (cases i) (simp_all add: hd_conv_nth)
  have hd_closed: "hd (toks st') = hd (toks st)" if "\<not> is_open (hd (toks st))"
    using that ne i assms(3) by (cases i) (simp_all add: hd_conv_nth)
  have old: "t \<in> set (toks st)" if "t \<in> set (toks st')" "tok_kind t = StringTok" for t
    using that i assms(3,4) by (auto simp: in_set_conv_nth nth_list_update split: if_splits)
  show ?thesis using assms(1,5,6) ne hd_kind hd_closed old unfolding strings_ok_def by fastforce
qed

section \<open>Every step keeps it\<close>

lemma advance_strict:
  assumes "advance True e st = Inr st1" "e \<noteq> Some ExpDone"
  shows "toks st1 = toks st \<and> (expecting st1 = ExpDone \<longrightarrow> expecting st = ExpDone) \<and>
    (expecting st \<noteq> ExpDone \<longrightarrow> e \<noteq> None)"
  using assms by (auto simp: advance_def check_def split: if_splits option.splits)

lemma strings_ok_root: "strings_ok bs pos st \<Longrightarrow> toks st = [] \<Longrightarrow> expecting st = ExpRoot"
  by (simp add: strings_ok_def)

lemma open_bracket_strings:
  assumes "open_bracket True cap pos c st = Inr st'" "strings_ok bs pos st"
  shows "strings_ok bs (Suc pos) st'"
proof -
  let ?t = "\<lparr>tok_kind = (if c = CHR ''{'' then Object else Array), tok_start = u16 pos, tok_end = UNSET\<rparr>"
  from assms(1) obtain s1 where s1: "advance True (open_expect (expecting st) c) st = Inr s1"
    and st': "toks st' = toks s1 @ [?t]" "expecting st' = expecting s1"
    by (auto simp: open_bracket_def rbind_Inr_iff alloc_token_def split: if_splits)
  have "open_expect (expecting st) c \<noteq> Some ExpDone" by (simp add: open_expect_def)
  note a = advance_strict [OF s1 this]
  have "c = CHR ''{''" if "toks st = []"
    using a strings_ok_root [OF assms(2) that] by (simp add: open_expect_def split: if_splits)
  moreover have "(if c = CHR ''{'' then Object else Array) \<noteq> StringTok" by simp
  ultimately show ?thesis using a st' by (intro strings_ok_alloc [OF assms(2), of st' ?t]) auto
qed

lemma close_bracket_strings:
  assumes "close_bracket True pos c st = Inr st'" "strings_ok bs pos st" "jinv cap pos st" "Suc pos < UNSET"
  shows "strings_ok bs (Suc pos) st'"
proof -
  obtain i where i: "last_index is_open (toks st) = Some i"
    "toks st' = (toks st)[i := (toks st ! i)\<lparr>tok_end := u16 (pos + 1)\<rparr>]" "tok_kind (toks st ! i) \<noteq> StringTok"
    "expecting st' = ExpDone \<longrightarrow> expecting st = ExpDone \<or> last_index is_open (toks st') = None"
    using assms(1) by (auto simp: close_bracket_def Let_def check_def super_of_def split: if_splits option.splits)
  have "toks st' \<noteq> []" using i(1,2) by (auto dest: last_index_SomeD)
  then have h: "hd (toks st') \<in> set (toks st')" by simp
  then have "tok_ok (Suc pos) (hd (toks st'))"
    using close_bracket_inv [OF assms(1,3,4)] by (simp add: jinv_def list_all_iff)
  then have "tok_end (hd (toks st')) \<le> Suc pos" if "\<not> is_open (hd (toks st'))"
    using that assms(4) by (auto simp: tok_ok_def is_open_def split: if_splits)
  then show ?thesis
    using i h by (intro strings_ok_close [OF assms(2) i(1,2,3)]) (auto simp: last_index_None list_all_iff)
qed

lemma colon_char_strings:
  "colon_char True st = Inr st' \<Longrightarrow> strings_ok bs pos st \<Longrightarrow> strings_ok bs (Suc pos) st'"
  by (rule strings_ok_keep, assumption)
     (auto simp: colon_char_def rbind_Inr_iff strings_ok_def dest!: advance_strict split: if_splits)

lemma comma_char_strings:
  "comma_char True st = Inr st' \<Longrightarrow> strings_ok bs pos st \<Longrightarrow> strings_ok bs (Suc pos) st'"
  by (rule strings_ok_keep, assumption)
     (auto simp: comma_char_def comma_super_def check_def Let_def strings_ok_def split: if_splits option.splits tok_type.splits)

text \<open>The span of the token that a scan ends.\<close>

lemma token_span_at:
  "drop p bs = body @ r \<Longrightarrow> p \<le> length bs \<Longrightarrow> p + length body < 65536 \<Longrightarrow>
   token_span bs \<lparr>tok_kind = k, tok_start = u16 p, tok_end = u16 (p + length body)\<rparr> = body"
proof -
  assume d: "drop p bs = body @ r" and p: "p \<le> length bs" "p + length body < 65536"
  have "length bs = p + length (drop p bs)" using p(1) by simp
  then have "p + length body \<le> length bs" unfolding d by simp
  then show ?thesis using d p by (simp add: token_span_def u16_def)
qed

lemma string_token_strings:
  assumes "string_token True cap pos cs st = Inr (p, r, st')" "strings_ok bs pos st"
    and d: "drop pos bs = CHR 0x22 # cs" and n: "length bs < UNSET"
  shows "strings_ok bs p st' \<and> drop p bs = r"
proof -
  let ?t = "\<lambda>q. \<lparr>tok_kind = StringTok, tok_start = u16 (pos + 1), tok_end = u16 q\<rparr>"
  obtain s1 q r1 s2 where s: "advance True (string_expect (expecting st)) st = Inr s1"
    "scan_string (check True st) (Suc pos) cs = Inr (q, r1)"
    "alloc_token cap (?t q) s1 = Inr s2" "p = Suc q" "r = tl r1" "st' = s2\<lparr>tok_count := tok_count s2 + 1\<rparr>"
    using string_token_InrD [OF assms(1)] by blast
  obtain body where b: "cs = body @ r1" "r1 = CHR 0x22 # r" "q = Suc pos + length body"
    "check True st \<longrightarrow> string_body body"
    using scan_string_InrD [OF s(2)] s(5) by metis
  have at: "bs ! pos = CHR 0x22" "drop (Suc pos) bs = body @ r1" "pos < length bs"
    using d b(1) by (metis nth_via_drop, metis drop_Suc drop_tl list.sel(3), metis drop_all not_le list.distinct(1))
  have len: "length bs = Suc pos + (length body + length r1)"
    using at(2,3) by (metis Suc_leI le_add_diff_inverse length_append length_drop)
  have sp: "token_span bs (?t q) = body"
    using token_span_at [OF at(2)] at(3) len n by (simp add: b(3) UNSET_def)
  have "string_expect (expecting st) \<noteq> Some ExpDone" by (simp add: string_expect_def)
  note a = advance_strict [OF s(1) this]
  have root: "toks st \<noteq> []"
    using a strings_ok_root [OF assms(2)] by (auto simp: string_expect_def)
  have "strings_ok bs p st'"
  proof (rule strings_ok_alloc [OF assms(2)])
    show "toks st' = toks st @ [?t q]" "expecting st' = ExpDone \<longrightarrow> expecting st = ExpDone"
      using a s(3,6) by (auto simp: alloc_token_def split: if_splits)
    show "tok_kind (?t q) = StringTok \<longrightarrow> string_body (token_span bs (?t q)) \<or>
        expecting st = ExpDone \<and> pos < tok_start (?t q) \<and> bs ! (tok_start (?t q) - 1) = CHR 0x22"
      using b(4) at n sp by (auto simp: check_def u16_def UNSET_def)
  qed (use root b(3) s(4) in simp_all)
  moreover have "drop p bs = r"
  proof -
    have "drop (length body + 1) (drop (Suc pos) bs) = r" using at(2) b(2) by simp
    then show ?thesis by (simp add: s(4) b(3) add.commute)
  qed
  ultimately show ?thesis by blast
qed

lemma primitive_token_strings:
  assumes "primitive_token True cap pos js st = Inr (p, r, st')" "strings_ok bs pos st" "drop pos bs = js"
  shows "strings_ok bs p st' \<and> drop p bs = r"
proof -
  obtain s1 s2 where s: "advance True (primitive_expect (expecting st)) st = Inr s1" "scan_primitive pos js = Inr (p, r)"
    "alloc_token cap \<lparr>tok_kind = Primitive, tok_start = u16 pos, tok_end = u16 p\<rparr> s1 = Inr s2"
    "st' = s2\<lparr>tok_count := tok_count s2 + 1\<rparr>"
    using primitive_token_InrD [OF assms(1)] by blast
  obtain w where w: "js = w @ r" "p = pos + length w" using scan_primitive_InrD [OF s(2)] by blast
  have "primitive_expect (expecting st) \<noteq> Some ExpDone" by (simp add: primitive_expect_def)
  note a = advance_strict [OF s(1) this]
  have "toks st \<noteq> []" using a strings_ok_root [OF assms(2)] by (auto simp: primitive_expect_def)
  then have "strings_ok bs p st'"
    using a s(3,4) w(2) by (intro strings_ok_alloc [OF assms(2)]) (auto simp: alloc_token_def split: if_splits)
  moreover have "drop (length w) (drop pos bs) = r" using assms(3) w(1) by simp
  ultimately show ?thesis by (simp add: w(2) add.commute)
qed

lemma token_step_strings:
  assumes step: "token_step True cap pos c cs st = Inr (p, r, st')" and ok: "strings_ok bs pos st" "jinv cap pos st"
    and d: "drop pos bs = c # cs" and n: "length bs < UNSET"
  shows "strings_ok bs p st' \<and> drop p bs = r"
proof -
  have nxt: "drop (Suc pos) bs = cs" using d by (metis drop_Suc drop_tl list.sel(3))
  have "pos < length bs" using d by (metis drop_all not_le list.distinct(1))
  then have "Suc pos < UNSET" using n by simp
  then show ?thesis
    using step ok d n nxt string_token_strings [of cap pos cs st p r st' bs]
      primitive_token_strings [of cap pos "c # cs" st p r st' bs] strings_ok_keep [OF ok(1), of st "Suc pos"]
    by (auto simp: token_step_def next_cursor_def rbind_Inr_iff split: if_splits
        intro: open_bracket_strings close_bracket_strings colon_char_strings comma_char_strings dest: strings_ok_root)
qed

lemma parse_loop_strings:
  "parse_loop True cap pos cs st = Inr st' \<Longrightarrow> strings_ok bs pos st \<Longrightarrow> jinv cap pos st \<Longrightarrow> drop pos bs = cs \<Longrightarrow>
   pos \<le> length bs \<Longrightarrow> length bs < UNSET \<Longrightarrow> \<exists>q. strings_ok bs q st'"
proof (induction True cap pos cs st rule: parse_loop.induct)
  case (2 cap pos c cs st)
  show ?case
  proof (cases "c = NUL")
    case True
    then show ?thesis using 2(2,3) by auto
  next
    case False
    then obtain p r s1 where s: "token_step True cap pos c cs st = Inr (p, r, s1)"
      "parse_loop True cap p r s1 = Inr st'" using 2(2) by (auto split: sum.splits)
    have "length (drop pos bs) = Suc (length cs)" using 2(5) by simp
    then have n: "Suc pos + length cs = length bs" using 2(6) by simp
    have i: "jinv cap p s1" "p + length r = length bs"
      using token_step_inv [OF s(1) 2(4) False] 2(7) n by simp_all
    show ?thesis
      using 2(1) [OF False s(1) refl refl s(2)] token_step_strings [OF s(1) 2(3,4,5,7)] i 2(7) by simp
  qed
qed auto

section \<open>The strings of a document that was read\<close>

lemma nth_in_drop: "k \<le> i \<Longrightarrow> i < length xs \<Longrightarrow> xs ! i \<in> set (drop k xs)"
  using nth_mem [of "i - k" "drop k xs"] by simp

theorem read_strings:
  assumes "read_json cap bs ps = (Inr (), ps')" "length bs < UNSET" "cap < UNSET"
    and t: "tok_kind (json_tok (parsed_json ps' bs) i) = StringTok"
  shows "string_body (span (parsed_json ps' bs) i)"
proof -
  note r = read_json_InrD [OF assms(1-3)]
  let ?ts = "p_tokens ps'" and ?t = "p_tokens ps' ! i"
  have i: "i < length ?ts" using r t by (auto simp: json_tok_def EMPTY_TOKEN_def split: if_splits)
  then have tok: "json_tok (parsed_json ps' bs) i = ?t" using r by (simp add: json_tok_def)
  obtain st where st: "parse_loop True cap 0 bs jstate_init = Inr st" "?ts = toks st"
    using r by (auto simp: parse_strict_def parse_impl_def rbind_Inr_iff split: if_splits)
  have "strings_ok bs 0 jstate_init" by (simp add: strings_ok_def jstate_init_def)
  then obtain q where q: "strings_ok bs q st"
    using parse_loop_strings [OF st(1) _ jinv_init, of bs] assms(2) by auto
  have "p_tokens ps' \<noteq> []" using r by blast
  then have root: "tok_kind (hd ?ts) = Object" using q unfolding strings_ok_def st(2) by meson
  have "\<not> (tok_end (hd ?ts) < tok_start ?t \<and> bs ! (tok_start ?t - 1) = CHR 0x22)"
  proof
    assume a: "tok_end (hd ?ts) < tok_start ?t \<and> bs ! (tok_start ?t - 1) = CHR 0x22"
    have "span_ok (length bs) ?t" using r i by (auto simp: json_wf_def tokens_wf_def list_all_length)
    then have "tok_start ?t - 1 < length bs" using a unfolding span_ok_def by linarith
    moreover have "tok_end (hd ?ts) \<le> tok_start ?t - 1" using a by linarith
    ultimately have "bs ! (tok_start ?t - 1) \<in> set (drop (tok_end (hd ?ts)) bs)"
      by (intro nth_in_drop)
    moreover have "list_all is_json_space (drop (tok_end (hd ?ts)) bs)"
      using r root by simp
    ultimately have "is_json_space (CHR 0x22)" using a by (simp add: list_all_iff)
    then show False by (simp add: is_json_space_def)
  qed
  moreover have "tok_kind ?t = StringTok" "?t \<in> set (toks st)" using t tok i st(2) by simp_all
  ultimately have "string_body (token_span bs ?t)" using q st(2) unfolding strings_ok_def by auto
  moreover have "buf (parsed_json ps' bs) = bs" using r by simp
  ultimately show ?thesis unfolding span_def tok by simp
qed

end
