(* ===== verification/Value_Claims.thy ===== *)
theory Value_Claims
  imports Doc_Review Json_Strings
begin

text \<open>
  What the value-level components guarantee: fees, amounts, principals, the structured transfer,
  the transaction buffer, the screen text and the hash shown. Each claim is followed by a witness
  that applies it to a concrete input.
\<close>

section \<open>Fees\<close>

text \<open>C14: A fee that \<open>max_fee\<close> writes is exact. Read back as a decimal it is the product of the gas
  limit and the gas price as rationals, nothing rounded, and it fits the space given.\<close>

theorem fee_is_exact:
  assumes "max_fee limit price space = Some out" "space \<le> MAX_DIGITS"
  shows "\<exists>a b c. fee_parse limit = Some a \<and> fee_parse price = Some b \<and> fee_parse out = Some c \<and>
    dec_value c = dec_value a * dec_value b \<and> length out \<le> space"
  using assms by (rule max_fee_exact)

lemma fee_600: "max_fee ''600'' ''1.0e-6'' 295 = Some ''0.0006''"
  by code_simp

theorem fee_is_exact_witness:
  "\<exists>a b c. fee_parse ''600'' = Some a \<and> fee_parse ''1.0e-6'' = Some b \<and>
    fee_parse ''0.0006'' = Some c \<and> dec_value c = dec_value a * dec_value b \<and>
    length ''0.0006'' \<le> 295"
  by (rule fee_is_exact [OF fee_600]) (simp add: MAX_DIGITS_def)

lemma read_digits_room:
  "read_digits ds s = Some (ds', r) \<Longrightarrow> length ds \<le> MAX_DIGITS \<Longrightarrow> length ds' \<le> MAX_DIGITS"
  by (induction ds s rule: read_digits.induct) (auto split: if_splits)

lemma fee_parse_room: "fee_parse s = Some d \<Longrightarrow> length (digits d) \<le> MAX_DIGITS"
  by (auto simp: fee_parse_def read_fraction_def split: option.splits if_splits prod.splits
      dest!: read_digits_room)

text \<open>C38: The schoolbook product cannot overflow its \<open>u32\<close> accumulators: every column sum stays
  within 24300 and every sum of the carry loop within 27000, so the loops on wrapping 32-bit words
  compute exactly the digits of \<open>product\<close>.\<close>

theorem fee_accumulators_bounded:
  assumes "fee_parse limit = Some a" "fee_parse price = Some b"
    and "n = length (digits a) + length (digits b)"
    and "acc = add_rows 0 (digits a) (digits b) (replicate n 0)"
  shows "list_all (\<lambda>x. x \<le> 24300) acc \<and> carry_sums_ok (n - 1) acc \<and>
    map unat (product32 (digits a) (digits b)) = product (digits a) (digits b)"
proof -
  note d = fee_parse_digits [OF assms(1)] fee_parse_digits [OF assms(2)]
  have bound: "acc ! j \<le> 24300" if "j < n" for j
    unfolding assms(4) by (rule accumulator_bound) (use d that fee_parse_room [OF assms(1)] in auto)
  have len: "length acc = n" by (simp add: assms(4))
  have n: "n - 1 < n" using d assms(3) by (cases "digits a") auto
  then have "acc ! (n - 1) \<le> 27000" using bound [of "n - 1"] by linarith
  then have ok: "carry_sums_ok (n - 1) acc"
    using bound len n by (intro carries_bound) simp_all
  have all: "list_all (\<lambda>x. x \<le> 24300) acc" using bound len by (simp add: list_all_length)
  then have "list_all (\<lambda>x. x \<le> 27000) acc" by (auto simp: list_all_iff)
  moreover have "0 < n" using n by linarith
  ultimately have "map unat (product32 (digits a) (digits b)) = product (digits a) (digits b)"
    using ok unfolding assms(4) assms(3) by (intro product32_nat)
  then show ?thesis using all ok by blast
qed

theorem fee_accumulators_bounded_witness:
  "list_all (\<lambda>x. x \<le> 24300) (add_rows 0 [9, 9] [9, 9, 9] (replicate 5 0)) \<and>
   carry_sums_ok (5 - 1) (add_rows 0 [9, 9] [9, 9, 9] (replicate 5 0)) \<and>
   map unat (product32 [9, 9] [9, 9, 9]) = [9, 8, 9, 0, 1]"
proof -
  have d: "fee_parse ''99'' = Some \<lparr> digits = [9, 9], scale = 0 \<rparr>"
    "fee_parse ''9.99'' = Some \<lparr> digits = [9, 9, 9], scale = 2 \<rparr>" by code_simp+
  have p: "product [9, 9] [9, 9, 9] = [9, 8, 9, 0, 1]" by code_simp
  from fee_accumulators_bounded [OF d, of 5] show ?thesis
    by (simp add: p del: add_rows.simps carry_sums_ok.simps)
qed

section \<open>Text forms\<close>

text \<open>C37: \<open>is_principal\<close> accepts exactly the texts of the principal grammar of Pact (\<open>k:\<close>, \<open>w:\<close>, \<open>r:\<close>,
  \<open>u:\<close>, \<open>m:\<close>, \<open>p:\<close> and \<open>c:\<close> accounts), stated as a grammar on whole words with no reader position.\<close>

theorem principal_is_grammar: "is_principal account \<longleftrightarrow> principal_grammar account"
  by (rule is_principal_grammar)

section \<open>The structured transfer\<close>

text \<open>Reading the fields of a transfer body inverts their encoding: the reader returns exactly the
  \<open>k\<close> fields whose length-prefixed encoding the input starts with, and leaves the rest.\<close>

theorem fields_round_trip:
  "read_fields k r = Inr (fs, rest) \<longleftrightarrow>
     length fs = k \<and> list_all (\<lambda>f. length f < 256) fs \<and> r = encode_fields fs @ rest"
  by (rule read_fields_iff)

text \<open>C13: \<open>build\<close> accepts exactly the encodings of twelve allowed fields, and the template it writes is
  the fixed text with those fields and the device's own key pasted in: nothing is left over, nothing
  is truncated, and no other input gives a template.\<close>

theorem transfer_accepts_exactly:
  assumes "\<And>pk. address = Some pk \<Longrightarrow> length pk = 32"
  shows "transfer_build input address = Inr t \<longleftrightarrow>
    (\<exists>ty f pk. transfer_fields_ok ty f \<and> input = byte_of ty # encode_fields f \<and> address = Some pk \<and>
       t = concat (format_pieces f ty (hex_lower pk)))"
  using assms by (rule transfer_build_iff)

theorem transfer_accepts_exactly_witness:
  "transfer_build (byte_of 0 # encode_fields sample_fields) (Some (replicate 32 NUL)) =
     Inr (concat (format_pieces sample_fields 0 (hex_lower (replicate 32 NUL))))"
  by (subst transfer_accepts_exactly)
     (auto simp: transfer_fields_ok_def sample_fields_ok
       intro!: exI [of _ 0] exI [of _ sample_fields])

section \<open>The transaction buffer\<close>

text \<open>C27: The two-level buffer refines an append-only byte string with a capacity of 15104: after a
  reset, a sequence of chunks succeeds exactly when the chunks fit, and then the buffer holds their
  concatenation, whether it stayed in RAM or moved to flash on the way.\<close>

theorem buffer_refines_append:
  assumes "device_wf d" "chunks \<noteq> []"
  shows "(fst (dev.append_all (tx_reset d) chunks) \<longleftrightarrow> length (concat chunks) \<le> FLASH_CAP) \<and>
    (length (concat chunks) \<le> FLASH_CAP \<longrightarrow>
       tx (snd (dev.append_all (tx_reset d) chunks)) = concat chunks)"
proof -
  have wf: "device_wf (tx_reset d)" using assms(1) by (rule dev.invar_reset)
  then show ?thesis
    using dev.append_all_ok [OF wf, of chunks] dev.contents_append_all [OF wf, of chunks] assms(2)
    by (simp add: dev.contents_reset)
qed

theorem buffer_refines_append_witness:
  "tx (snd (dev.append_all (tx_reset device_new) [''ab'', replicate 8192 (CHR ''c'')])) =
     ''ab'' @ replicate 8192 (CHR ''c'')"
  using buffer_refines_append [OF device_wf_new, of "[''ab'', replicate 8192 (CHR ''c'')]"]
  by (simp add: FLASH_CAP_def)

text \<open>C39: No write of an append leaves its buffer. With the writer of the device, whose range assertion
  panics, an append from any well-formed state runs to its end with the result of the plain writer: the
  assertion of \<open>FlashBuf::write\<close> holds at every write, for data of any length. And no byte behind the
  RAM buffer changes.\<close>

theorem flash_writes_in_range:
  assumes "buffering_wf b" "buffering_append flash_write b ram flash data = (ok, b', ram', flash')"
  shows "buffering_append flash_buf_write b ram (Some flash) data = (ok, b', ram', Some flash') \<and>
    (\<forall>i. RAM_CAP \<le> i \<longrightarrow> ram' i = ram i)"
  using buffering_append_checked [OF assms] buffering_append_ram_frame [OF assms] by blast

theorem flash_writes_in_range_witness:
  "\<exists>b' ram' flash'. buffering_append flash_buf_write \<lparr> ram_pos = 8000, flash_pos = 0, in_ram = True \<rparr> mem_zero
     (Some mem_zero) (replicate 400 NUL) = (True, b', ram', Some flash') \<and> \<not> in_ram b' \<and> flash_pos b' = 8400"
proof -
  let ?b = "\<lparr> ram_pos = 8000, flash_pos = 0, in_ram = True \<rparr>"
  obtain ok b' ram' flash' where a: "buffering_append flash_write ?b mem_zero mem_zero (replicate 400 NUL) = (ok, b', ram', flash')"
    by (metis prod_cases4)
  then have "ok \<and> \<not> in_ram b' \<and> flash_pos b' = 8400"
    by (auto simp: buffering_append_def append_flash_def cap_defs Let_def)
  moreover have "buffering_wf ?b" by (simp add: buffering_wf_def cap_defs)
  ultimately show ?thesis using flash_writes_in_range [OF _ a] by auto
qed

text \<open>While the bytes fit in RAM nothing is written to flash.\<close>

theorem small_appends_stay_in_ram:
  assumes "in_ram b" "length (buffering_get b ram flash) + length d \<le> RAM_CAP"
    "buffering_append flash_write b ram flash d = (ok, b', ram', flash')"
  shows "ok \<and> in_ram b' \<and> flash' = flash"
  using assms by (rule buffering_append_ram)

theorem small_appends_stay_in_ram_witness:
  "case buffering_append flash_write buffering_new mem_zero mem_zero ''abc'' of
     (ok, b', ram', flash') \<Rightarrow> ok \<and> in_ram b' \<and> flash' = mem_zero"
proof (cases "buffering_append flash_write buffering_new mem_zero mem_zero ''abc''")
  case (fields ok b' ram' flash')
  have "in_ram buffering_new" by (simp add: buffering_new_def)
  from small_appends_stay_in_ram [OF this _ fields] fields show ?thesis by (simp add: RAM_CAP_def)
qed

text \<open>C30: The template kept at the end of the RAM buffer does not touch the transaction it was built
  from: a body that \<open>build\<close> accepts is shorter than the space before it, so after the store the body
  and the template both read back whole.\<close>

theorem template_keeps_body:
  assumes "device_wf d" "transfer_build (tx d) (public_key env p) = Inr t"
  shows "tx (template_store d t) = tx d \<and> template (template_store d t) = t"
  using assms by (rule template_built)

theorem template_keeps_body_witness:
  "\<exists>t. transfer_build (tx sample_device) (public_key sample_env (replicate 5 0)) = Inr t \<and>
     tx (template_store sample_device t) = sample_body \<and> template (template_store sample_device t) = t"
proof -
  have "\<exists>t. transfer_build sample_body (Some sample_pk) = Inr t"
    using transfer_build_iff [of "Some sample_pk" sample_body] sample_fields_ok
    by (fastforce simp: sample_body_def transfer_fields_ok_def sample_pk_def)
  then obtain t where t: "transfer_build (tx sample_device) (public_key sample_env (replicate 5 0)) = Inr t"
    unfolding sample_device_tx sample_public_key by blast
  from template_keeps_body [OF sample_device_tx(1) t] t show ?thesis
    unfolding sample_device_tx by blast
qed

section \<open>Screen text\<close>

text \<open>Whatever the bytes of a value, the text that reaches the screen is printable ASCII, at most
  four characters per byte.\<close>

theorem screen_text_printable:
  "list_all printable (display_text bs) \<and> length (display_text bs) \<le> 4 * length bs"
  using display_text_printable display_text_length by blast

text \<open>C36: What a string of the document shows on the screen is the string. For a string token of any document
  that was read, the screen text is printable, and two such strings, of the same or of two documents, show the
  same text exactly when their bytes are the same: an escape shown for an invisible byte cannot be imitated.\<close>

theorem screen_text_injective:
  assumes "read_json cap bs ps = (Inr (), ps')" "length bs < UNSET" "cap < UNSET"
    and "read_json cap2 bs2 qs = (Inr (), qs')" "length bs2 < UNSET" "cap2 < UNSET"
    and "tok_kind (json_tok (parsed_json ps' bs) i) = StringTok" "tok_kind (json_tok (parsed_json qs' bs2) k) = StringTok"
  shows "list_all printable (display_text (span (parsed_json ps' bs) i)) \<and>
    (display_text (span (parsed_json ps' bs) i) = display_text (span (parsed_json qs' bs2) k) \<longleftrightarrow>
     span (parsed_json ps' bs) i = span (parsed_json qs' bs2) k)"
  using display_text_printable display_text_inj string_body_paired
    read_strings [OF assms(1-3,7)] read_strings [OF assms(4-6,8)] by metis

theorem screen_text_injective_witness:
  "display_text (span doc_json 21) \<noteq> display_text (span doc_json 22)"
proof -
  have n: "length doc_text < UNSET" "(100::nat) < UNSET" by (simp_all add: doc_length UNSET_def)
  have j: "parsed_json (parsed_new \<lparr> p_tokens := doc_tokens, json_len := 469 \<rparr>) doc_text = doc_json"
    using doc_length by (simp add: parsed_json_def doc_json_def)
  have t: "tok_kind (json_tok doc_json 21) = StringTok" "tok_kind (json_tok doc_json 22) = StringTok"
    "span doc_json 21 \<noteq> span doc_json 22" by (simp_all add: doc_facts)
  from screen_text_injective [OF doc_read [of parsed_new] n doc_read [of parsed_new] n, unfolded j, OF t(1,2)] t(3)
  show ?thesis by blast
qed

text \<open>C35: The transaction hash on the screen determines the digest. If two parses computed their hashes of the
  32-byte digests \<open>d\<close> and \<open>d'\<close>, an item of the one and an item of the other that show the transaction hash both
  have a value, of 43 characters, and the values are the same exactly when the digests are.\<close>

theorem shown_hash_injective:
  assumes "compute_hash blake ty bs hin ps0 = (Inr (), ps)" "compute_hash blake2 ty2 bs2 hin2 qs0 = (Inr (), qs)"
    and "(if ty = TxHash then hin else blake (take (json_len ps0) bs)) = Some d" "length d = 32"
    and "(if ty2 = TxHash then hin2 else blake2 (take (json_len qs0) bs2)) = Some d'" "length d' = 32"
    and "i < num_items ps" "i_render (arr_items (p_items ps) ! i) = RHash"
    and "k < num_items qs" "i_render (arr_items (p_items qs) ! k) = RHash"
  shows "\<exists>t v t' v'. parsed_item ps adr bs i = Inr (t, v) \<and> parsed_item qs adr' bs2 k = Inr (t', v') \<and>
    length v = 43 \<and> (v = v' \<longleftrightarrow> d = d')"
proof -
  have b: "b64 ps = map url_safe (base64_32 d)" "b64 qs = map url_safe (base64_32 d')"
    using assms(1-3,5) by (auto simp: compute_hash_def ok_or_def split: if_splits)
  have l: "length (shown_hash x) = 43" if "length x = 32" for x
    using base64_32_length [OF that] by (simp add: shown_hash_def)
  have r: "parsed_item ps adr bs i = Inr (title (p_items ps) i, shown_hash d)"
    "parsed_item qs adr' bs2 k = Inr (title (p_items qs) k, shown_hash d')"
    using assms(7-10) l [OF assms(4)] l [OF assms(6)]
    by (simp_all add: parsed_item_def render_def b shown_hash_def [symmetric] w_puts_fits VALUE_BUF_def)
  then show ?thesis using l [OF assms(4)] shown_hash_inj [OF assms(4,6)] by auto
qed

theorem shown_hash_injective_witness:
  "\<exists>t v t' v'. parsed_item (parsed_new \<lparr> p_items := items_new \<lparr> arr_items := [\<lparr> i_key = KTransactionHash, i_token = 0,
       can_display = True, i_render = RHash \<rparr>], arr_num := 1 \<rparr>, b64 := map url_safe (base64_32 (replicate 32 NUL)) \<rparr>) None [] 0 = Inr (t, v) \<and>
     parsed_item (parsed_new \<lparr> p_items := items_new \<lparr> arr_items := [\<lparr> i_key = KTransactionHash, i_token = 0,
       can_display = True, i_render = RHash \<rparr>], arr_num := 1 \<rparr>, b64 := map url_safe (base64_32 (CHR ''a'' # replicate 31 NUL)) \<rparr>) None [] 0 = Inr (t', v') \<and>
     length v = 43 \<and> v \<noteq> v'"
proof -
  define ps where "ps = parsed_new \<lparr> p_items := items_new \<lparr> arr_items := [\<lparr> i_key = KTransactionHash, i_token = 0,
    can_display = True, i_render = RHash \<rparr>], arr_num := 1 \<rparr> \<rparr>"
  let ?d = "replicate 32 NUL" and ?e = "CHR ''a'' # replicate 31 NUL"
  have c: "compute_hash (\<lambda>_. None) TxHash [] (Some d) ps = (Inr (), ps \<lparr> b64 := map url_safe (base64_32 d) \<rparr>)" for d
    by (simp add: compute_hash_def ok_or_def)
  have i: "0 < num_items (ps \<lparr> b64 := h \<rparr>)" "i_render (arr_items (p_items (ps \<lparr> b64 := h \<rparr>)) ! 0) = RHash" for h
    by (simp_all add: ps_def num_items_def)
  have n: "length ?d = 32" "length ?e = 32" "?d \<noteq> ?e" by (simp_all add: numeral_eq_Suc NUL_def)
  show ?thesis
    using shown_hash_injective [OF c [of ?d] c [of ?e] _ n(1) _ n(2) i i, of None None] n(3) unfolding ps_def by auto
qed

end
