(* ===== verification/Legacy_Sessions.thy ===== *)
theory Legacy_Sessions
  imports Sessions
begin

text \<open>
  Sessions of the legacy command family: what the chunks of a legacy stream amount to once a review of
  them is pending.
\<close>

section \<open>A transaction or a hash in chunks\<close>

lemma error_codes: "WRONG_LENGTH \<noteq> SW_OK" "DATA_INVALID \<noteq> SW_OK" "OUTPUT_BUFFER_TOO_SMALL \<noteq> SW_OK"
    "TX_NOT_INITIALIZED \<noteq> SW_OK" "COMMAND_NOT_ALLOWED \<noteq> SW_OK"
  by (simp_all add: WRONG_LENGTH_def DATA_INVALID_def OUTPUT_BUFFER_TOO_SMALL_def TX_NOT_INITIALIZED_def
      COMMAND_NOT_ALLOWED_def SW_OK_def)

lemma error_message_codes: "error_with_message e = Reply r \<Longrightarrow> reply_sw r \<noteq> SW_OK" "error_with_message e \<noteq> ReviewTx b"
  by (auto simp: error_with_message_def Let_def reply_with_def error_codes split: if_splits)

text \<open>The path behind a message: a count and that many words; components that are missing are zero.\<close>

definition legacy_path :: "nat \<Rightarrow> bytes \<Rightarrow> path" where
  "legacy_path qty pb = map (\<lambda>i. if i < qty then le32 (drop (4 * i) pb) else 0) [0..<5]"

text \<open>What a completed stream is: the buffer is the message followed by its path.\<close>

definition legacy_closed :: "tx_type \<Rightarrow> bytes \<Rightarrow> nat \<Rightarrow> machine \<Rightarrow> bool" where
  "legacy_closed ty b n m \<longleftrightarrow> tx (dev m) = b \<and> app_pending m = PendingSign (SignLegacy ty n) \<and> app_stream m = StreamNone \<and>
     (\<exists>msg qty pb. b = msg @ byte_of qty # pb \<and> length msg = n \<and> 2 \<le> qty \<and> qty \<le> 5 \<and> length pb = 4 * qty \<and>
        sign_path m = legacy_path qty pb \<and> prefix_ok (legacy_path qty pb))"

text \<open>The answer to one chunk: success and nothing but the chunk appended, or a review of what is there.\<close>

definition chunk_answer :: "tx_type \<Rightarrow> bytes \<Rightarrow> machine \<Rightarrow> action \<Rightarrow> machine \<Rightarrow> bool" where
  "chunk_answer ty d m a m' \<longleftrightarrow>
     (\<forall>r. a = Reply r \<and> reply_sw r = SW_OK \<longrightarrow> fst (tx_append (dev m) d) \<and> m' = m \<lparr> dev := snd (tx_append (dev m) d) \<rparr>) \<and>
     (\<forall>blind. a = ReviewTx blind \<longrightarrow> legacy_closed ty (tx (dev m) @ d) (payload_length m) m')"

lemma legacy_path_wp:
  "wp (legacy_extract_hd_path b n chk)
     (\<lambda>_ m'. \<exists>msg qty pb rest. b = msg @ byte_of qty # pb @ rest \<and> length msg = n \<and> 2 \<le> qty \<and> qty \<le> 5 \<and> length pb = 4 * qty \<and>
        (chk \<longrightarrow> rest = []) \<and>
        prefix_ok (legacy_path qty pb) \<and> m' = m \<lparr> hd_path := legacy_path qty pb, hdpath_length := 4 * qty + 1 \<rparr>)
     (\<lambda>e _. e \<noteq> SW_OK) m"
proof -
  let ?qty = "byte_val (b ! n)"
  let ?pb = "take (4 * ?qty) (drop (Suc n) b)" and ?rest = "drop (4 * ?qty) (drop (Suc n) b)"
  have split: "b = take n b @ byte_of ?qty # ?pb @ ?rest" if "n < length b"
    unfolding append_take_drop_id using id_take_nth_drop [OF that] by simp
  have path: "map (\<lambda>i. if i < ?qty then le32 (drop (n + 1 + 4 * i) b) else 0) [0..<5] = legacy_path ?qty ?pb"
    if "n + 1 + ?qty * 4 \<le> length b"
  proof -
    have "le32 (drop (n + 1 + 4 * i) b) = le32 (drop (4 * i) ?pb)" if "i < ?qty" for i
      using that \<open>n + 1 + ?qty * 4 \<le> length b\<close> by (simp add: le32_def add_ac)
    then show ?thesis by (simp add: legacy_path_def)
  qed
  have ex: "\<exists>msg qty pb rest. b = msg @ byte_of qty # pb @ rest \<and> length msg = n \<and> 2 \<le> qty \<and> qty \<le> 5 \<and> length pb = 4 * qty \<and>
      (chk \<longrightarrow> rest = []) \<and>
      prefix_ok (legacy_path qty pb) \<and> m \<lparr> hd_path := legacy_path ?qty ?pb, hdpath_length := ?qty * 4 + 1 \<rparr> =
        m \<lparr> hd_path := legacy_path qty pb, hdpath_length := 4 * qty + 1 \<rparr>"
    if "n < length b" "n + 1 + ?qty * 4 \<le> length b" "chk \<longrightarrow> length b - (n + 1) = ?qty * 4" "2 \<le> ?qty" "?qty \<le> 5"
      "prefix_ok (legacy_path ?qty ?pb)"
    by (rule exI [of _ "take n b"], rule exI [of _ ?qty], rule exI [of _ ?pb], rule exI [of _ ?rest]) (use that split in auto)
  show ?thesis unfolding legacy_extract_hd_path_def Let_def wp_if wp_thn wp_bnd wp_reads wp_modifies wp_require wp_fails
    by (intro ifI conjI impI error_codes) (use ex path in \<open>auto simp: error_codes\<close>)
qed

text \<open>The answer to a complete stream: a review of it, or an error.\<close>

definition complete_answer :: "tx_type \<Rightarrow> bytes \<Rightarrow> nat \<Rightarrow> action \<Rightarrow> machine \<Rightarrow> bool" where
  "complete_answer ty b n a m' \<longleftrightarrow>
     (\<forall>r. a = Reply r \<longrightarrow> reply_sw r \<noteq> SW_OK) \<and> (\<forall>blind. a = ReviewTx blind \<longrightarrow> legacy_closed ty b n m')"

lemma legacy_error_wp: "wp (legacy_error json e) (complete_answer ty b n) (\<lambda>e _. e \<noteq> SW_OK) m"
  by (simp add: legacy_error_def wp_simps error_codes error_message_codes complete_answer_def)

lemma legacy_parse_wp:
  assumes "device_wf (dev x)" "cap < UNSET" "ty \<noteq> TxTransfer" "app_stream x = StreamNone"
    "tx (dev x) = msg @ byte_of qty # pb" "2 \<le> qty" "qty \<le> 5" "length pb = 4 * qty"
    "sign_path x = legacy_path qty pb" "prefix_ok (legacy_path qty pb)"
  shows "wp (review_parsed env cap ty (length msg) (SignLegacy ty (length msg)) (legacy_error json))
    (complete_answer ty (tx (dev x)) (length msg)) (\<lambda>e _. e \<noteq> SW_OK) x"
proof -
  have n: "length msg \<le> length (tx (dev x))" "ty = TxTransfer \<Longrightarrow> length msg = length (tx (dev x))"
    using assms(3,5) by simp_all
  have "legacy_closed ty (tx (dev x)) (length msg) (y \<lparr> app_pending := PendingSign (SignLegacy ty (length msg)) \<rparr>)"
    if "parse_frame x y \<and> kept ty x y" for y
    using that assms(4-10) parse_frame_fields [of x y] by (auto simp: legacy_closed_def kept_def)
  then show ?thesis unfolding wp_review_parsed
    by (intro wp_mono [OF tx_parse_wp [OF assms(1,2) n]] legacy_error_wp) (auto simp: complete_answer_def)
qed

lemma legacy_complete_wp:
  assumes "device_wf (dev x)" "cap < UNSET" "app_stream x = StreamNone" "ty = (if json then TxJson else TxHash)"
  shows "wp (legacy_complete env cap json) (complete_answer ty (tx (dev x)) (payload_length x)) (\<lambda>e _. e \<noteq> SW_OK) x"
proof -
  have parse: "wp (review_parsed env cap ty (payload_length x) (SignLegacy ty (payload_length x)) (legacy_error json))
      (complete_answer ty (msg @ byte_of qty # pb) (payload_length x)) (\<lambda>e _. e \<noteq> SW_OK)
      (x \<lparr> hd_path := legacy_path qty pb, hdpath_length := l, sign_path := legacy_path qty pb \<rparr>)"
    if "tx (dev x) = msg @ byte_of qty # pb" "length msg = payload_length x" "2 \<le> qty" "qty \<le> 5" "length pb = 4 * qty"
      "prefix_ok (legacy_path qty pb)" for msg qty pb l
    using legacy_parse_wp [OF _ assms(2), of "x \<lparr> hd_path := legacy_path qty pb, hdpath_length := l, sign_path := legacy_path qty pb \<rparr>" ty msg qty pb env json]
      that assms by simp
  show ?thesis
    unfolding legacy_complete_def Let_def assms(4) [symmetric] legacy_check_request_def wp_bnd [of "bnd _ _"] wp_bnd [of "reads _"] wp_reads
      prod.case wp_if wp_thn [of "legacy_extract_hd_path _ _ _"]
    by (intro ifI wp_mono [OF legacy_path_wp])
       (auto simp: wp_bnd [of dev_reset] wp_dev_reset wp_fails error_codes wp_ret wp_thn wp_modifies intro!: parse)
qed

text \<open>From an open stream on: append, and once the stream is complete read the path and parse.\<close>

lemma legacy_rest:
  assumes "idle m" "cap < UNSET" "ty = (if json then TxJson else TxHash)"
  shows "wp (thn (legacy_append d) (bnd (reads legacy_check_end_of_chunk) (\<lambda>ended.
       if \<not> (small \<or> ended) then ret (Reply (reply_only SW_OK)) else thn close_stream (legacy_complete env cap json))))
    (chunk_answer ty d m) (\<lambda>e _. e \<noteq> SW_OK) m"
proof (cases "fst (tx_append (dev m) d)")
  case False
  then show ?thesis by (simp add: legacy_append_def wp_simps error_codes)
next
  case True
  let ?m = "m \<lparr> dev := snd (tx_append (dev m) d) \<rparr>"
  let ?c = "?m \<lparr> app_stream := StreamNone \<rparr>"
  have wf: "device_wf (dev ?c)" using idle_device [OF idle_append [OF assms(1), of d]] by simp
  have t: "tx (snd (tx_append (dev m) d)) = tx (dev m) @ d" using tx_append_spec(3) [OF idle_device [OF assms(1)]] True by simp
  have more: "chunk_answer ty d m (Reply (reply_only SW_OK)) ?m" using True by (simp add: chunk_answer_def)
  have complete: "wp (legacy_complete env cap json) (chunk_answer ty d m) (\<lambda>e _. e \<noteq> SW_OK) ?c"
    by (rule wp_mono [OF legacy_complete_wp [OF wf assms(2) _ assms(3)]]) (auto simp: complete_answer_def chunk_answer_def t)
  have "wp (legacy_append d) Q (\<lambda>e _. e \<noteq> SW_OK) m \<longleftrightarrow> Q () ?m" for Q
    using True by (simp add: legacy_append_def wp_simps)
  then show ?thesis unfolding wp_thn [of "legacy_append d"]
    using more complete by (simp add: wp_bnd [of "reads _"] wp_reads wp_if wp_ret wp_thn [of close_stream] wp_close_stream)
qed

text \<open>A chunk of an open stream, and the first chunk of one.\<close>

definition legacy_type :: "nat \<Rightarrow> tx_type" where
  "legacy_type ins = (if ins = INS_LEGACY_SIGN_JSON then TxJson else TxHash)"

text \<open>The message length a first chunk announces, and the bytes of it that are of the stream.\<close>

definition announced :: "nat \<Rightarrow> bytes \<Rightarrow> nat" where
  "announced ins d = (if ins = INS_LEGACY_SIGN_JSON then unat (le32 d) else HASH_LEN)"

definition stream_part :: "nat \<Rightarrow> bytes \<Rightarrow> bytes" where
  "stream_part ins d = (if ins = INS_LEGACY_SIGN_JSON then drop 4 d else d)"

definition opened :: "nat \<Rightarrow> bytes \<Rightarrow> machine \<Rightarrow> machine" where
  "opened ins d m = m \<lparr> payload_length := announced ins d, dev := tx_reset (dev m), app_stream := Legacy ins \<rparr>"

lemma legacy_sign_wp:
  assumes "idle m" "cap < UNSET" "ins \<in> {INS_LEGACY_SIGN_JSON, INS_LEGACY_SIGN_HASH}" "json \<longleftrightarrow> ins = INS_LEGACY_SIGN_JSON"
  shows "app_stream m = Legacy ins \<Longrightarrow> wp (legacy_sign env cap ins json d)
      (chunk_answer (legacy_type ins) d m) (\<lambda>e _. e \<noteq> SW_OK) m"
    and "app_stream m = StreamNone \<Longrightarrow> wp (legacy_sign env cap ins json d)
      (chunk_answer (legacy_type ins) (stream_part ins d) (opened ins d m)) (\<lambda>e _. e \<noteq> SW_OK) m"
proof -
  have ty: "legacy_type ins = (if json then TxJson else TxHash)" using assms(4) by (simp add: legacy_type_def)
  note rest = legacy_rest [where json = json and env = env and small = "LEGACY_HEADER_LENGTH + length d < LEGACY_FULL_CHUNK_SIZE"
      and ty = "legacy_type ins", OF _ assms(2) ty]
  have i: "idle (opened ins d m)"
    using idle_legacy_stream [OF idle_reset [OF idle_counters(1) [OF assms(1)]] assms(3), of "announced ins d"]
    by (simp add: opened_def)
  have j: "(if json then TxJson else TxHash) = legacy_type ins" "stream_part ins d = drop (if json then 4 else 0) d"
    "opened ins d m = m \<lparr> payload_length := (if json then unat (le32 d) else HASH_LEN), dev := tx_reset (dev m), app_stream := Legacy ins \<rparr>"
    using assms(4) by (simp_all add: legacy_type_def stream_part_def opened_def announced_def)
  note unfolds = legacy_sign_def Let_def wp_bnd [of "legacy_open _ _ _"] legacy_open_def legacy_first_chunk_def
  show "wp (legacy_sign env cap ins json d) (chunk_answer (legacy_type ins) d m) (\<lambda>e _. e \<noteq> SW_OK) m"
    if "app_stream m = Legacy ins"
    using that rest [OF assms(1), of d] unfolding unfolds j(1)
    by (simp add: wp_bnd [of "reads _"] wp_reads wp_if wp_ret wp_bnd [of "bnd _ _"] wp_bnd [of "if _ then _ else _"])
  show "wp (legacy_sign env cap ins json d)
      (chunk_answer (legacy_type ins) (stream_part ins d) (opened ins d m)) (\<lambda>e _. e \<noteq> SW_OK) m"
    if "app_stream m = StreamNone"
    using that rest [OF i, of "stream_part ins d"] unfolding unfolds j
    by (simp add: wp_bnd [of "reads _"] wp_reads wp_if wp_ret wp_bnd [of "bnd _ _"] wp_bnd [of "if _ then _ else _"] wp_thn [of "modifies _"]
       wp_modifies wp_thn [of dev_reset] wp_dev_reset wp_fails error_codes)
qed

text \<open>The host's chunks of one stream, each answered with success.\<close>

fun legacy_chunks :: "os_env \<Rightarrow> nat \<Rightarrow> nat \<Rightarrow> nat \<Rightarrow> nat \<Rightarrow> bytes list \<Rightarrow> machine \<Rightarrow> machine option" where
  "legacy_chunks env cap ins p1 p2 [] m = Some m"
| "legacy_chunks env cap ins p1 p2 (d # ds) m =
     (case handle env cap 0 ins p1 p2 d m of
        (Reply r, m') \<Rightarrow> if reply_sw r = SW_OK then legacy_chunks env cap ins p1 p2 ds m' else None
      | _ \<Rightarrow> None)"

lemma legacy_chunks_Cons:
  "legacy_chunks env cap ins p1 p2 (d # ds) m = Some m' \<Longrightarrow>
   \<exists>r m1. handle env cap 0 ins p1 p2 d m = (Reply r, m1) \<and> reply_sw r = SW_OK \<and> legacy_chunks env cap ins p1 p2 ds m1 = Some m'"
  by (auto split: prod.splits action.splits if_splits)

text \<open>A stream in the middle: what it will have to be, and what is there.\<close>

definition collecting :: "nat \<Rightarrow> nat \<Rightarrow> bytes \<Rightarrow> machine \<Rightarrow> bool" where
  "collecting ins n b m \<longleftrightarrow> minv m \<and> app_stream m = Legacy ins \<and> payload_length m = n \<and> tx (dev m) = b"

lemma handle_legacy:
  assumes "ins \<in> {INS_LEGACY_SIGN_JSON, INS_LEGACY_SIGN_HASH}" "os_pin_validated env"
  shows "handle env cap 0 ins p1 p2 d m =
    (let (r, m1) = legacy_sign env cap ins (ins = INS_LEGACY_SIGN_JSON) d (m \<lparr> app_pending := PendingNone \<rparr>)
     in (case r of Inr a \<Rightarrow> a | Inl code \<Rightarrow> Reply (reply_only code), m1))"
  using assms by (auto simp: handle_def dispatched_def dispatch_def ins_defs)

lemma legacy_answer:
  assumes "minv m" "cap < UNSET" "ins \<in> {INS_LEGACY_SIGN_JSON, INS_LEGACY_SIGN_HASH}" "os_pin_validated env"
    "handle env cap 0 ins p1 p2 d m = (a, m')" "(\<exists>r. a = Reply r \<and> reply_sw r = SW_OK) \<or> (\<exists>b. a = ReviewTx b)"
  shows "app_stream m = Legacy ins \<Longrightarrow> chunk_answer (legacy_type ins) d (m \<lparr> app_pending := PendingNone \<rparr>) a m'"
    and "app_stream m = StreamNone \<Longrightarrow>
      chunk_answer (legacy_type ins) (stream_part ins d) (opened ins d (m \<lparr> app_pending := PendingNone \<rparr>)) a m'"
proof -
  let ?m = "m \<lparr> app_pending := PendingNone \<rparr>"
  obtain r where r: "legacy_sign env cap ins (ins = INS_LEGACY_SIGN_JSON) d ?m = (r, m')"
    "a = (case r of Inr a \<Rightarrow> a | Inl code \<Rightarrow> Reply (reply_only code))"
    using assms(5) unfolding handle_legacy [OF assms(3,4)] by (auto simp: Let_def split: prod.splits)
  note w = legacy_sign_wp [OF idle_drop [OF assms(1)] assms(2,3) refl, of env d, unfolded wp_def r(1) prod.case]
  have ok: "r = Inr a" if "\<And>e. r = Inl e \<Longrightarrow> e \<noteq> SW_OK"
    using that r(2) assms(6) by (cases r) (auto simp: reply_only_def)
  show "chunk_answer (legacy_type ins) d ?m a m'" if "app_stream m = Legacy ins"
    using w(1) that ok by (cases r) auto
  show "chunk_answer (legacy_type ins) (stream_part ins d) (opened ins d ?m) a m'" if "app_stream m = StreamNone"
    using w(2) that ok by (cases r) auto
qed

lemma answered_collecting:
  assumes "chunk_answer ty d x (Reply r) m'" "reply_sw r = SW_OK" "device_wf (dev x)" "app_stream x = Legacy ins" "minv m'"
  shows "collecting ins (payload_length x) (tx (dev x) @ d) m'"
  using assms tx_append_spec(3) [OF assms(3), of d] by (auto simp: chunk_answer_def collecting_def)

lemma legacy_collect:
  assumes "cap < UNSET" "ins \<in> {INS_LEGACY_SIGN_JSON, INS_LEGACY_SIGN_HASH}" "os_pin_validated env"
  shows "legacy_chunks env cap ins p1 p2 ds m = Some m' \<Longrightarrow> collecting ins n b m \<Longrightarrow> collecting ins n (b @ concat ds) m'"
proof (induction ds arbitrary: m b)
  case (Cons d ds)
  obtain r m1 where h: "handle env cap 0 ins p1 p2 d m = (Reply r, m1)" "reply_sw r = SW_OK"
    "legacy_chunks env cap ins p1 p2 ds m1 = Some m'"
    using legacy_chunks_Cons [OF Cons.prems(1)] by blast
  have m: "minv m" "app_stream m = Legacy ins" "payload_length m = n" "tx (dev m) = b"
    using Cons.prems(2) by (simp_all add: collecting_def)
  have m1: "minv m1" using handle_outcome [OF m(1) assms(1) h(1)] by (rule outcome_minv)
  have "chunk_answer (legacy_type ins) d (m \<lparr> app_pending := PendingNone \<rparr>) (Reply r) m1"
    using legacy_answer(1) [OF m(1) assms h(1) _ m(2)] h(2) by blast
  from answered_collecting [OF this h(2) _ _ m1] have "collecting ins n (b @ d) m1"
    using m by (simp add: minv_def)
  then show ?case using Cons.IH [OF h(3), of "b @ d"] by simp
qed simp

lemma legacy_review:
  assumes "minv m" "cap < UNSET" "ins \<in> {INS_LEGACY_SIGN_JSON, INS_LEGACY_SIGN_HASH}" "os_pin_validated env"
    "app_stream m = StreamNone" "legacy_chunks env cap ins p1 p2 ds m = Some m1"
    "handle env cap 0 ins p1 p2 d m1 = (ReviewTx blind, m2)" "cs = ds @ [d]"
  shows "legacy_closed (legacy_type ins) (stream_part ins (hd cs) @ concat (tl cs)) (announced ins (hd cs)) m2"
proof (cases ds)
  case Nil
  then have "chunk_answer (legacy_type ins) (stream_part ins d) (opened ins d (m \<lparr> app_pending := PendingNone \<rparr>)) (ReviewTx blind) m2"
    using legacy_answer(2) [OF assms(1-4), of p1 p2 d "ReviewTx blind" m2] assms(5-7) by simp
  then show ?thesis using Nil assms(8) by (simp add: chunk_answer_def opened_def dev.contents_reset)
next
  case (Cons c cs')
  let ?o = "opened ins c (m \<lparr> app_pending := PendingNone \<rparr>)"
  obtain r x where h: "handle env cap 0 ins p1 p2 c m = (Reply r, x)" "reply_sw r = SW_OK"
    "legacy_chunks env cap ins p1 p2 cs' x = Some m1"
    using legacy_chunks_Cons assms(6) Cons by blast
  have x: "minv x" using handle_outcome [OF assms(1,2) h(1)] by (rule outcome_minv)
  have "chunk_answer (legacy_type ins) (stream_part ins c) ?o (Reply r) x"
    using legacy_answer(2) [OF assms(1-4) h(1) _ assms(5)] h(2) by blast
  from answered_collecting [OF this h(2) _ _ x] have "collecting ins (announced ins c) (stream_part ins c) x"
    using assms(1) by (simp add: opened_def dev.contents_reset dev.invar_reset minv_def)
  from legacy_collect [OF assms(2-4) h(3) this]
  have m1: "collecting ins (announced ins c) (stream_part ins c @ concat cs') m1" .
  then have "chunk_answer (legacy_type ins) d (m1 \<lparr> app_pending := PendingNone \<rparr>) (ReviewTx blind) m2"
    using legacy_answer(1) [OF _ assms(2-4,7)] by (simp add: collecting_def)
  then show ?thesis using m1 Cons assms(8) by (simp add: chunk_answer_def collecting_def)
qed

section \<open>A hash in one chunk\<close>

lemma legacy_path_run:
  assumes "b = msg @ byte_of qty # pb @ rest" "length msg = n" "2 \<le> qty" "qty \<le> 5" "length pb = 4 * qty" "chk \<longrightarrow> rest = []"
    "prefix_ok (legacy_path qty pb)"
  shows "legacy_extract_hd_path b n chk m = (Inr (), m \<lparr> hd_path := legacy_path qty pb, hdpath_length := 4 * qty + 1 \<rparr>)"
proof -
  have "b ! n = byte_of qty" using assms(1,2) by (auto simp: nth_append)
  then have q: "byte_val (b ! n) = qty" using assms(4) by simp
  have "le32 (drop (n + 1 + 4 * i) b) = le32 (drop (4 * i) pb)" if "i < qty" for i
  proof -
    have "drop (n + 1 + 4 * i) b = drop (4 * i) (pb @ rest)" using assms(1,2) by (simp add: add_ac)
    moreover have "3 < 4 * qty - 4 * i" using that by linarith
    ultimately show ?thesis using assms(5) that by (simp add: le32_def nth_append)
  qed
  then have "map (\<lambda>i. if i < qty then le32 (drop (n + 1 + 4 * i) b) else 0) [0..<5] = legacy_path qty pb"
    by (simp add: legacy_path_def)
  then show ?thesis using assms q unfolding legacy_extract_hd_path_def Let_def
    by (auto simp: thn_eq bnd_def modifies_def reads_def require_def ret_def mult.commute)
qed

text \<open>From any state between streams a hash and its path in one chunk lead to its review.\<close>

lemma legacy_hash_run:
  assumes "minv m" "os_pin_validated env" "dev_blind_signing env" "app_stream m = StreamNone" "length h = HASH_LEN"
    "2 \<le> qty" "qty \<le> 5" "length pb = 4 * qty" "prefix_ok (legacy_path qty pb)" "public_key env (legacy_path qty pb) = Some pk"
  shows "\<exists>m'. handle env cap 0 INS_LEGACY_SIGN_HASH p1 p2 (h @ byte_of qty # pb) m = (ReviewTx True, m')"
proof -
  let ?d = "h @ byte_of qty # pb" and ?m = "m \<lparr> app_pending := PendingNone \<rparr>"
  let ?o = "opened INS_LEGACY_SIGN_HASH ?d ?m"
  have ins: "INS_LEGACY_SIGN_HASH \<noteq> INS_LEGACY_SIGN_JSON" by (simp add: ins_defs)
  have wf: "device_wf (tx_reset (dev m))" using assms(1) by (simp add: minv_def dev.invar_reset)
  have t0: "tx (tx_reset (dev m)) = []" by (simp add: dev.contents_reset)
  have ok: "fst (tx_append (tx_reset (dev m)) ?d)"
    using tx_append_spec(2) [OF wf, of ?d] t0 assms(5,7,8) by (simp add: HASH_LEN_def FLASH_CAP_def)
  then obtain D where D: "tx_append (tx_reset (dev m)) ?d = (True, D)" by (cases "tx_append (tx_reset (dev m)) ?d") simp
  then have t: "tx D = ?d" using tx_append_spec(3) [OF wf, of ?d] t0 by simp
  have small: "LEGACY_HEADER_LENGTH + length ?d < LEGACY_FULL_CHUNK_SIZE"
    using assms(5,7,8) by (simp add: HASH_LEN_def legacy_defs)
  have path: "legacy_extract_hd_path ?d HASH_LEN True x =
      (Inr (), x \<lparr> hd_path := legacy_path qty pb, hdpath_length := 4 * qty + 1 \<rparr>)" for x
    by (rule legacy_path_run [where rest = "[]"]) (use assms in simp_all)
  let ?x = "?o \<lparr> dev := D, app_stream := StreamNone, hd_path := legacy_path qty pb,
      hdpath_length := 4 * qty + 1, sign_path := legacy_path qty pb \<rparr>"
  obtain y where y: "tx_parse env cap TxHash HASH_LEN ?x = (Inr True, y)"
    using tx_parse_hash_ok [OF assms(3), of ?x pk cap] assms(10) by auto
  have "legacy_sign env cap INS_LEGACY_SIGN_HASH False ?d ?m =
      (Inr (ReviewTx True), y \<lparr> app_pending := PendingSign (SignLegacy TxHash HASH_LEN) \<rparr>)"
    using assms(4,5,8) D t small path y
    by (simp add: legacy_sign_def legacy_complete_def review_parsed_def legacy_open_def legacy_first_chunk_def legacy_append_def dev_append_def dev_reset_def bnd_def thn_eq reads_def ret_def
        modifies_def fails_def close_stream_def legacy_check_request_def try_parse_def opened_def announced_def ins Let_def)
  then show ?thesis using handle_legacy [of INS_LEGACY_SIGN_HASH env cap p1 p2 ?d m] assms(2) ins by simp
qed

end
