(* ===== verification/Legacy_Transfers.thy ===== *)
theory Legacy_Transfers
  imports Legacy_Sessions
begin

text \<open>
  Sessions of the legacy structured transfer: its items may be split between two chunks, the head of a
  split item waits in a small buffer. Whatever the split, the buffered body is the concatenation of the
  chunks behind the path.
\<close>

section \<open>The item loop\<close>

text \<open>The part of a chunk that is read, and the head of a split item.\<close>

abbreviation chunk_text :: "bytes \<Rightarrow> bytes" where
  "chunk_text b \<equiv> take LEGACY_FULL_CHUNK_SIZE b"

definition saved :: "machine \<Rightarrow> bytes" where
  "saved m = take (local_data_len m) (local_data m)"

text \<open>In the loop: the buffer and what is left of the chunk from \<open>pos\<close> on make up \<open>body\<close>.\<close>

definition reading :: "bytes \<Rightarrow> path \<Rightarrow> bytes \<Rightarrow> nat \<Rightarrow> machine \<Rightarrow> bool" where
  "reading body p b pos m \<longleftrightarrow> device_wf (dev m) \<and> length (local_data m) = LEGACY_LOCAL_BUFFER_SIZE \<and> local_data_len m = 0 \<and>
     app_stream m = Legacy INS_LEGACY_TRANSFER \<and> sign_path m = p \<and> (pos \<le> LEGACY_FULL_CHUNK_SIZE \<longrightarrow> tx (dev m) @ drop pos (chunk_text b) = body)"

text \<open>After the chunk: the body is complete, or waits for the next one.\<close>

definition chunk_read :: "bytes \<Rightarrow> path \<Rightarrow> bool \<Rightarrow> machine \<Rightarrow> bool" where
  "chunk_read body p whole m \<longleftrightarrow> sign_path m = p \<and>
     (if whole then tx (dev m) = body \<and> app_stream m = StreamNone else tx (dev m) @ saved m = body \<and> app_stream m = Legacy INS_LEGACY_TRANSFER)"

lemma legacy_append_text:
  assumes "legacy_append d m = (Inr u, m')" "device_wf (dev m)"
  shows "m' = m \<lparr> dev := snd (tx_append (dev m) d) \<rparr> \<and> device_wf (snd (tx_append (dev m) d)) \<and>
    tx (snd (tx_append (dev m) d)) = tx (dev m) @ d"
  using assms tx_append_spec(1,3) [OF assms(2), of d]
  by (cases "tx_append (dev m) d")
     (auto simp: legacy_append_def dev_append_def bnd_def thn_def dev_reset_def close_stream_def modifies_def fails_def ret_def
       split: if_splits)

lemma chunk_text_step:
  assumes "nxt \<le> length b" "nxt \<le> LEGACY_FULL_CHUNK_SIZE" "pos \<le> nxt"
  shows "drop pos (chunk_text b) = take (nxt - pos) (drop pos b) @ drop nxt (chunk_text b)"
proof -
  have "drop pos (chunk_text b) = take (nxt - pos) (drop pos (chunk_text b)) @ drop (nxt - pos) (drop pos (chunk_text b))"
    by (simp only: append_take_drop_id)
  then show ?thesis using assms by (simp add: drop_take min_def)
qed

lemma overflow_saves:
  assumes "legacy_handle_overflow b pos n m = (Inr u, m')" "length b = LEGACY_FULL_CHUNK_SIZE" "reading body p b pos m"
  shows "chunk_read body p False m'"
proof -
  let ?k = "LEGACY_FULL_CHUNK_SIZE - pos"
  have k: "pos \<le> LEGACY_FULL_CHUNK_SIZE" "?k < LEGACY_LOCAL_BUFFER_SIZE" and m': "m' = m \<lparr> check_item_len := False, item_len := u8 (n + 1),
      local_data_len := u8 ?k, local_data := take ?k (drop pos b) @ drop ?k (local_data m) \<rparr>"
    using assms(1) by (auto simp: legacy_handle_overflow_def Let_def thn_def bnd_def modifies_def fails_def split: if_splits)
  have "u8 ?k = ?k" using k(2) by (simp add: u8_def legacy_defs)
  then have "saved m' = drop pos (chunk_text b)" using assms(2) k(1) by (simp add: saved_def m' drop_take)
  then show ?thesis using assms(3) k(1) by (simp add: chunk_read_def m' reading_def)
qed

lemma append_reads:
  assumes r: "reading body p b pos m"
    and fits: "pos + byte_val (b ! pos) + 1 \<le> length b" "pos + byte_val (b ! pos) + 1 \<le> LEGACY_FULL_CHUNK_SIZE"
  shows "wp (legacy_append (take (byte_val (b ! pos) + 1) (drop pos b)))
    (\<lambda>_ x. \<forall>n. reading body p b (pos + byte_val (b ! pos) + 1) (x \<lparr> legacy_items := n \<rparr>)) (\<lambda>_ _. True) m"
proof (cases "legacy_append (take (byte_val (b ! pos) + 1) (drop pos b)) m")
  case (Pair res m1)
  have wf: "device_wf (dev m)" using r by (simp add: reading_def)
  show ?thesis
  proof (cases res)
    case (Inr u)
    note m1 = legacy_append_text [OF Pair [unfolded Inr] wf]
    let ?d = "take (byte_val (b ! pos) + 1) (drop pos b)"
    have "drop pos (chunk_text b) = ?d @ drop (pos + byte_val (b ! pos) + 1) (chunk_text b)"
      using chunk_text_step [OF fits, of pos] by simp
    then have "reading body p b (pos + byte_val (b ! pos) + 1) (m1 \<lparr> legacy_items := n \<rparr>)" for n
      using r m1 fits(2) unfolding reading_def by simp
    then show ?thesis unfolding wp_def Pair Inr by simp
  next
    case (Inl e)
    show ?thesis unfolding wp_def Pair Inl by simp
  qed
qed

lemma transfer_loop_text:
  assumes "transfer_loop b offset psize m = (Inr whole, m')" "reading body p b (offset + psize + 1) m"
  shows "chunk_read body p whole m'"
proof -
  have "wp (transfer_loop b offset psize) (chunk_read body p) (\<lambda>_ _. True) m"
  proof (rule transfer_loop_rule [where P = "reading body p b", OF _ _ _ _ _ _ assms(2)])
    fix pos m
    assume "reading body p b pos m" "length b = LEGACY_FULL_CHUNK_SIZE"
    then show "wp (legacy_handle_overflow b pos (byte_val (b ! pos))) (\<lambda>_. chunk_read body p False) (\<lambda>_ _. True) m"
      by (auto simp: wp_def intro: overflow_saves split: prod.splits sum.splits)
  next
    fix m
    assume "reading body p b LEGACY_FULL_CHUNK_SIZE m"
    then show "chunk_read body p False (m \<lparr> check_item_len := True \<rparr>)"
      by (simp add: chunk_read_def saved_def reading_def)
  next
    fix m
    assume "reading body p b (length b) m" "length b \<le> LEGACY_FULL_CHUNK_SIZE"
    then show "chunk_read body p True (m \<lparr> app_stream := StreamNone \<rparr>)"
      by (simp add: reading_def chunk_read_def)
  qed (rule append_reads, auto)
  then show ?thesis using assms(1) by (simp add: wp_def)
qed

section \<open>One chunk\<close>

text \<open>The first chunk begins with the path; what is behind it is the start of the body.\<close>

lemma initialize_text:
  assumes "legacy_initialize_transfer b m = (Inr offset, m')" "minv m"
  shows "\<exists>qty pb rest. drop LEGACY_HEADER_LENGTH b = byte_of qty # pb @ rest \<and> 2 \<le> qty \<and> qty \<le> 5 \<and> length pb = 4 * qty \<and>
    prefix_ok (legacy_path qty pb) \<and> reading (take (LEGACY_CHUNK_SIZE - (4 * qty + 1)) rest) (legacy_path qty pb) b (offset + 1) m'"
proof -
  let ?m = "m \<lparr> local_data_len := 0, check_item_len := False, item_len := 0, legacy_items := 0 \<rparr>"
  obtain m1 where m1: "legacy_extract_hd_path b LEGACY_HEADER_LENGTH False ?m = (Inr (), m1)"
    using assms(1) by (auto simp: legacy_initialize_transfer_def thn_def bnd_def modifies_def split: prod.splits sum.splits)
  let ?m2 = "m1 \<lparr> sign_path := hd_path m1, dev := tx_reset (dev m1), app_stream := Legacy INS_LEGACY_TRANSFER \<rparr>"
  obtain msg qty pb rest where q: "b = msg @ byte_of qty # pb @ rest" "length msg = LEGACY_HEADER_LENGTH" "2 \<le> qty" "qty \<le> 5"
    "length pb = 4 * qty" "prefix_ok (legacy_path qty pb)"
    "m1 = ?m \<lparr> hd_path := legacy_path qty pb, hdpath_length := 4 * qty + 1 \<rparr>"
    using wpD [OF legacy_path_wp m1] by blast
  have off: "offset = hdpath_length m1 + LEGACY_HEADER_LENGTH" "offset + 1 \<le> length b"
    and a: "\<exists>u m3. legacy_append (take 1 (drop offset b)) ?m2 = (Inr u, m3) \<and> m' = m3 \<lparr> legacy_items := 0 \<rparr>"
    using assms(1) m1 by (auto simp: legacy_initialize_transfer_def thn_def bnd_def modifies_def reads_def ret_def dev_reset_def
        require_def fails_def split: prod.splits sum.splits if_splits)
  obtain u m3 where m3: "legacy_append (take 1 (drop offset b)) ?m2 = (Inr u, m3)" "m' = m3 \<lparr> legacy_items := 0 \<rparr>"
    using a by blast
  have wf: "device_wf (dev ?m2)" using assms(2) q(7) by (simp add: minv_def dev.invar_reset)
  note t = legacy_append_text [OF m3(1) wf]
  have o: "offset = 4 * qty + 1 + LEGACY_HEADER_LENGTH" using off(1) q(7) by simp
  then have rest: "drop offset b = rest" using q(1,2,5) by simp
  have "offset + 1 \<le> LEGACY_FULL_CHUNK_SIZE" using o q(4) by (simp add: legacy_defs)
  then have "take 1 (drop offset b) @ drop (offset + 1) (chunk_text b) = drop offset (chunk_text b)"
    using chunk_text_step [OF off(2), of offset] by simp
  also have "\<dots> = take (LEGACY_CHUNK_SIZE - (4 * qty + 1)) rest" using rest by (simp add: drop_take o legacy_defs)
  finally have "reading (take (LEGACY_CHUNK_SIZE - (4 * qty + 1)) rest) (legacy_path qty pb) b (offset + 1) m'"
    using t m3(2) q(7) assms(2) by (simp add: reading_def dev.contents_reset minv_def)
  moreover have "drop LEGACY_HEADER_LENGTH b = byte_of qty # pb @ rest" using q(1,2) by simp
  ultimately show ?thesis using q(3-6) by blast
qed

text \<open>A later chunk first completes the item that was split.\<close>

lemma existing_text:
  assumes "legacy_existing_transfer b m = (Inr (offset, psize), m')" "minv m" "LEGACY_HEADER_LENGTH \<le> length b"
    "app_stream m = Legacy INS_LEGACY_TRANSFER"
  shows "reading (tx (dev m) @ saved m @ drop LEGACY_HEADER_LENGTH (chunk_text b)) (sign_path m) b (offset + psize + 1) m'"
proof -
  obtain u m1 where m1: "legacy_append (saved m) m = (Inr u, m1)"
    using assms(1) by (auto simp: legacy_existing_transfer_def saved_def thn_def bnd_def reads_def split: prod.splits sum.splits)
  have wf: "device_wf (dev m)" using assms(2) by (simp add: minv_def)
  note t1 = legacy_append_text [OF m1 wf]
  obtain k m2 u' where k: "legacy_append (take k (drop LEGACY_HEADER_LENGTH b)) m1 = (Inr u', m2)" "offset + psize + 1 = LEGACY_HEADER_LENGTH + k"
    "LEGACY_HEADER_LENGTH + k \<le> length b" "m' = m2 \<lparr> legacy_items := u8 (legacy_items m2 + 1), local_data_len := 0 \<rparr>"
    using assms(1) m1 [unfolded saved_def]
    by (fastforce simp: legacy_existing_transfer_def thn_def bnd_def reads_def ret_def modifies_def fails_def require_def Let_def
        legacy_defs split: prod.splits sum.splits if_splits)
  have "device_wf (dev m1)" using t1 by simp
  note t2 = legacy_append_text [OF k(1) this]
  have "take k (drop LEGACY_HEADER_LENGTH b) @ drop (LEGACY_HEADER_LENGTH + k) (chunk_text b) = drop LEGACY_HEADER_LENGTH (chunk_text b)"
    if "LEGACY_HEADER_LENGTH + k \<le> LEGACY_FULL_CHUNK_SIZE"
    using chunk_text_step [OF k(3) that, of LEGACY_HEADER_LENGTH] by simp
  then show ?thesis using t1 t2 k(2,4) assms(2,4) by (auto simp: reading_def minv_def)
qed

section \<open>The session\<close>

text \<open>A transfer between two chunks.\<close>

definition waiting :: "bytes \<Rightarrow> path \<Rightarrow> machine \<Rightarrow> bool" where
  "waiting body p m \<longleftrightarrow> minv m \<and> app_stream m = Legacy INS_LEGACY_TRANSFER \<and> sign_path m = p \<and> tx (dev m) @ saved m = body"

text \<open>What a chunk adds to the text so far: at most 230 bytes of its data.\<close>

abbreviation chunk_part :: "bytes \<Rightarrow> bytes" where
  "chunk_part d \<equiv> take LEGACY_CHUNK_SIZE d"

lemma raw_part:
  "drop LEGACY_HEADER_LENGTH (chunk_text (raw_apdu ins p1 p2 d)) = chunk_part d"
  "take LEGACY_CHUNK_SIZE (drop LEGACY_HEADER_LENGTH (raw_apdu ins p1 p2 d)) = chunk_part d"
  "LEGACY_HEADER_LENGTH \<le> length (raw_apdu ins p1 p2 d)"
  by (auto simp: raw_apdu_def Let_def legacy_defs min_def)

lemma first_chunk_read:
  assumes "legacy_transfer_chunk (raw_apdu ins p1 p2 d) m = (Inr whole, m')" "minv m" "app_stream m = StreamNone"
  shows "\<exists>qty pb body. chunk_part d = byte_of qty # pb @ body \<and> 2 \<le> qty \<and> qty \<le> 5 \<and> length pb = 4 * qty \<and>
    prefix_ok (legacy_path qty pb) \<and> chunk_read body (legacy_path qty pb) whole m'"
proof -
  obtain offset m1 where i: "legacy_initialize_transfer (raw_apdu ins p1 p2 d) m = (Inr offset, m1)"
    "transfer_loop (raw_apdu ins p1 p2 d) offset 0 m1 = (Inr whole, m')"
    using assms(1,3) by (auto simp: legacy_transfer_chunk_def legacy_first_chunk_def bnd_def reads_def ret_def split: prod.splits sum.splits)
  obtain qty pb rest where q: "drop LEGACY_HEADER_LENGTH (raw_apdu ins p1 p2 d) = byte_of qty # pb @ rest" "2 \<le> qty" "qty \<le> 5"
    "length pb = 4 * qty" "prefix_ok (legacy_path qty pb)"
    "reading (take (LEGACY_CHUNK_SIZE - (4 * qty + 1)) rest) (legacy_path qty pb) (raw_apdu ins p1 p2 d) (offset + 1) m1"
    using initialize_text [OF i(1) assms(2)] by blast
  have "chunk_part d = byte_of qty # pb @ take (LEGACY_CHUNK_SIZE - (4 * qty + 1)) rest"
    using q(1,3,4) raw_part(2) [of ins p1 p2 d] by (simp add: legacy_defs take_Cons')
  then show ?thesis using q(2-5) transfer_loop_text [OF i(2)] q(6) by fastforce
qed

lemma later_chunk_read:
  assumes "legacy_transfer_chunk (raw_apdu ins p1 p2 d) m = (Inr whole, m')" "waiting body p m"
  shows "chunk_read (body @ chunk_part d) p whole m'"
proof -
  obtain offset psize m1 where i: "legacy_existing_transfer (raw_apdu ins p1 p2 d) m = (Inr (offset, psize), m1)"
    "transfer_loop (raw_apdu ins p1 p2 d) offset psize m1 = (Inr whole, m')"
    using assms by (auto simp: waiting_def legacy_transfer_chunk_def legacy_first_chunk_def bnd_def reads_def ret_def
        split: prod.splits sum.splits)
  have "reading (body @ chunk_part d) p (raw_apdu ins p1 p2 d) (offset + psize + 1) m1"
    using existing_text [OF i(1) _ raw_part(3)] assms(2) by (auto simp: waiting_def raw_part(1))
  from transfer_loop_text [OF i(2) this] show ?thesis .
qed

text \<open>The answer to a chunk: success while the body is incomplete, a review of it once it is complete.\<close>

lemma handle_transfer:
  assumes "os_pin_validated env"
  shows "handle env cap 0 INS_LEGACY_TRANSFER p1 p2 d m =
    (let (r, m1) = legacy_transfer env cap INS_LEGACY_TRANSFER p1 p2 d (m \<lparr> app_pending := PendingNone \<rparr>)
     in (case r of Inr a \<Rightarrow> a | Inl code \<Rightarrow> Reply (reply_only code), m1))"
  using assms by (auto simp: handle_def dispatched_def dispatch_def ins_defs)

text \<open>No error of the transfer has the code of success.\<close>

definition error_safe :: "'a handler \<Rightarrow> bool" where
  "error_safe h \<longleftrightarrow> (\<forall>m. wp h (\<lambda>_ _. True) (\<lambda>e _. e \<noteq> SW_OK) m)"

lemma error_safe_basic:
  "error_safe (ret x)" "error_safe (reads g)" "error_safe (modifies k)" "error_safe dev_reset" "error_safe close_stream"
  "error_safe (dev_append d)" "error_safe (fails WRONG_LENGTH)" "error_safe (fails DATA_INVALID)"
  "error_safe (fails OUTPUT_BUFFER_TOO_SMALL)" "error_safe (fails TX_NOT_INITIALIZED)"
  "error_safe (require WRONG_LENGTH c)" "error_safe (require DATA_INVALID c)"
  by (simp_all add: error_safe_def wp_simps error_codes)

lemma error_safe_bnd: "error_safe h \<Longrightarrow> (\<And>x. error_safe (k x)) \<Longrightarrow> error_safe (bnd h k)"
  unfolding error_safe_def wp_bnd by (blast intro: wp_mono)

lemma error_safe_thn: "error_safe h \<Longrightarrow> error_safe k \<Longrightarrow> error_safe (thn h k)"
  by (simp add: thn_def error_safe_bnd)

lemma error_safe_if: "error_safe h \<Longrightarrow> error_safe k \<Longrightarrow> error_safe (if c then h else k)"
  by simp

lemmas error_safe_intros = error_safe_basic error_safe_bnd error_safe_thn error_safe_if

lemma error_safe_parts:
  "error_safe (legacy_append d)" "error_safe (legacy_extract_hd_path b n chk)" "error_safe (legacy_handle_overflow b offset psize)"
  "error_safe (legacy_first_chunk ins)"
  unfolding legacy_append_def legacy_extract_hd_path_def legacy_handle_overflow_def legacy_first_chunk_def Let_def
  by (intro error_safe_intros)+

lemma transfer_chunk_safe: "error_safe (legacy_transfer_chunk b)"
proof -
  have "error_safe (transfer_loop b offset psize)" for offset psize
    unfolding error_safe_def
  proof
    fix m
    show "wp (transfer_loop b offset psize) (\<lambda>_ _. True) (\<lambda>e _. e \<noteq> SW_OK) m"
      by (rule transfer_loop_rule [where P = "\<lambda>_ _. True"]) (use error_safe_parts in \<open>simp_all add: error_safe_def error_codes\<close>)
  qed
  then show ?thesis
    unfolding legacy_transfer_chunk_def legacy_initialize_transfer_def legacy_existing_transfer_def Let_def split_beta
    by (intro error_safe_intros error_safe_parts)
qed

text \<open>What the answers to a chunk say of the state.\<close>

lemma transfer_answer:
  assumes "minv m" "cap < UNSET" "os_pin_validated env" "handle env cap 0 INS_LEGACY_TRANSFER p1 p2 d m = (a, m')"
    "(\<exists>r. a = Reply r \<and> reply_sw r = SW_OK) \<or> (\<exists>b. a = ReviewTx b)"
  shows "\<exists>whole m1. legacy_transfer_chunk (raw_apdu INS_LEGACY_TRANSFER p1 p2 d) (m \<lparr> app_pending := PendingNone \<rparr>) = (Inr whole, m1) \<and>
    (if whole then (\<exists>b. a = ReviewTx b) \<and> tx (dev m') = tx (dev m1) \<and> sign_path m' = sign_path m1 \<and>
       app_pending m' = PendingSign SignLegacyTransfer \<and> app_stream m' = app_stream m1
     else (\<exists>r. a = Reply r) \<and> m' = m1)"
proof -
  let ?m = "m \<lparr> app_pending := PendingNone \<rparr>" and ?b = "raw_apdu INS_LEGACY_TRANSFER p1 p2 d"
  obtain r where h: "legacy_transfer env cap INS_LEGACY_TRANSFER p1 p2 d ?m = (r, m')"
    "a = (case r of Inr a \<Rightarrow> a | Inl code \<Rightarrow> Reply (reply_only code))"
    using assms(4) unfolding handle_transfer [OF assms(3)] by (auto simp: Let_def split: prod.splits)
  obtain c m1 where c: "legacy_transfer_chunk ?b ?m = (c, m1)" by fastforce
  have "c \<noteq> Inl e" for e
  proof
    assume e: "c = Inl e"
    then have "e \<noteq> SW_OK" using transfer_chunk_safe [of ?b] c by (auto simp: error_safe_def wp_def split: prod.splits dest!: spec [of _ ?m])
    then show False using h assms(5) c e by (auto simp: legacy_transfer_def reply_only_def)
  qed
  then obtain whole where w: "c = Inr whole" by (cases c) auto
  show ?thesis
  proof (cases whole)
    case False
    then show ?thesis using h c w by (auto simp: legacy_transfer_def)
  next
    case True
    have armed: "armed m1"
      using wpD [OF legacy_transfer_chunk_wp [OF idle_drop [OF assms(1)]] c [unfolded w]] .
    then have wf: "device_wf (dev m1)" by (simp add: armed_def idle_device)
    obtain q m2 where p: "tx_parse env cap TxTransfer (length (tx (dev m1))) m1 = (q, m2)" by fastforce
    obtain blind where q: "q = Inr blind"
    proof (cases q)
      case (Inl e)
      then have "\<exists>code. r = Inl code \<and> code \<noteq> SW_OK \<or> r = Inr (error_with_message e)"
        using h(1) c w True p
        by (auto simp: legacy_transfer_def review_parsed_def transfer_error_def bnd_def try_parse_def dev_reset_def modifies_def fails_def ret_def error_codes split: if_splits)
      then show ?thesis using h(2) assms(5) error_message_codes by (auto simp: reply_only_def)
    qed blast
    have "parse_frame m1 m2 \<and> kept TxTransfer m1 m2"
      using wpD [OF tx_parse_wp [OF wf assms(2) order_refl refl] p [unfolded q]] by simp
    moreover have "a = ReviewTx blind" "m' = m2 \<lparr> app_pending := PendingSign SignLegacyTransfer \<rparr>"
      using h c w True p q by (auto simp: legacy_transfer_def review_parsed_def bnd_def try_parse_def thn_def modifies_def ret_def)
    ultimately show ?thesis using c w True parse_frame_fields [of m1 m2] by (auto simp: kept_def)
  qed
qed

lemma waiting_drop: "waiting body p m \<Longrightarrow> waiting body p (m \<lparr> app_pending := PendingNone \<rparr>)"
  using idle_drop [of m] by (auto simp: waiting_def saved_def idle_def)

lemma transfer_collect:
  assumes "cap < UNSET" "os_pin_validated env"
  shows "legacy_chunks env cap INS_LEGACY_TRANSFER p1 p2 ds m = Some m' \<Longrightarrow> waiting body p m \<Longrightarrow>
    waiting (body @ concat (map chunk_part ds)) p m'"
proof (induction ds arbitrary: m body)
  case (Cons d ds)
  obtain r m1 where h: "handle env cap 0 INS_LEGACY_TRANSFER p1 p2 d m = (Reply r, m1)" "reply_sw r = SW_OK"
    "legacy_chunks env cap INS_LEGACY_TRANSFER p1 p2 ds m1 = Some m'"
    using legacy_chunks_Cons [OF Cons.prems(1)] by blast
  have m: "minv m" using Cons.prems(2) by (simp add: waiting_def)
  have "minv m1" using handle_outcome [OF m assms(1) h(1)] by (rule outcome_minv)
  moreover obtain whole x where "legacy_transfer_chunk (raw_apdu INS_LEGACY_TRANSFER p1 p2 d) (m \<lparr> app_pending := PendingNone \<rparr>) = (Inr whole, x)"
    "\<not> whole" "m1 = x"
    using transfer_answer [OF m assms h(1)] h(2) by (auto split: if_splits)
  ultimately have "waiting (body @ chunk_part d) p m1"
    using later_chunk_read [OF _ waiting_drop [OF Cons.prems(2)]] by (auto simp: waiting_def chunk_read_def)
  from Cons.IH [OF h(3) this] show ?case by simp
qed simp

lemma transfer_review_text:
  assumes "minv m" "cap < UNSET" "os_pin_validated env" "app_stream m = StreamNone"
    "legacy_chunks env cap INS_LEGACY_TRANSFER p1 p2 ds m = Some m1"
    "handle env cap 0 INS_LEGACY_TRANSFER p1 p2 d m1 = (ReviewTx blind, m2)"
  shows "\<exists>qty pb body. concat (map chunk_part (ds @ [d])) = byte_of qty # pb @ body \<and> 2 \<le> qty \<and> qty \<le> 5 \<and> length pb = 4 * qty \<and>
    prefix_ok (legacy_path qty pb) \<and> sign_path m2 = legacy_path qty pb \<and> tx (dev m2) = body \<and>
    app_pending m2 = PendingSign SignLegacyTransfer \<and> app_stream m2 = StreamNone"
proof (cases ds)
  case Nil
  then have "m1 = m" using assms(5) by simp
  then obtain x where x: "legacy_transfer_chunk (raw_apdu INS_LEGACY_TRANSFER p1 p2 d) (m \<lparr> app_pending := PendingNone \<rparr>) = (Inr True, x)"
    "tx (dev m2) = tx (dev x)" "sign_path m2 = sign_path x" "app_pending m2 = PendingSign SignLegacyTransfer" "app_stream m2 = app_stream x"
    using transfer_answer [OF assms(1-3), of p1 p2 d "ReviewTx blind" m2] assms(6) by (auto split: if_splits)
  from first_chunk_read [OF x(1)] assms(1,4) x(2-5) Nil show ?thesis
    using idle_drop [OF assms(1)] by (fastforce simp: idle_def chunk_read_def)
next
  case (Cons c cs)
  obtain r y where h: "handle env cap 0 INS_LEGACY_TRANSFER p1 p2 c m = (Reply r, y)" "reply_sw r = SW_OK"
    "legacy_chunks env cap INS_LEGACY_TRANSFER p1 p2 cs y = Some m1"
    using legacy_chunks_Cons assms(5) Cons by blast
  have y: "minv y" using handle_outcome [OF assms(1,2) h(1)] by (rule outcome_minv)
  have "legacy_transfer_chunk (raw_apdu INS_LEGACY_TRANSFER p1 p2 c) (m \<lparr> app_pending := PendingNone \<rparr>) = (Inr False, y)"
    using transfer_answer [OF assms(1-3) h(1)] h(2) by (auto split: if_splits)
  from first_chunk_read [OF this] obtain qty pb body where q: "chunk_part c = byte_of qty # pb @ body" "2 \<le> qty" "qty \<le> 5"
    "length pb = 4 * qty" "prefix_ok (legacy_path qty pb)" "chunk_read body (legacy_path qty pb) False y"
    using assms(1,4) idle_drop [OF assms(1)] by (auto simp: idle_def)
  then have "waiting body (legacy_path qty pb) y" using y by (simp add: waiting_def chunk_read_def)
  from transfer_collect [OF assms(2,3) h(3) this]
  have w: "waiting (body @ concat (map chunk_part cs)) (legacy_path qty pb) m1" .
  then have "minv m1" by (simp add: waiting_def)
  then obtain x where x: "legacy_transfer_chunk (raw_apdu INS_LEGACY_TRANSFER p1 p2 d) (m1 \<lparr> app_pending := PendingNone \<rparr>) = (Inr True, x)"
    "tx (dev m2) = tx (dev x)" "sign_path m2 = sign_path x" "app_pending m2 = PendingSign SignLegacyTransfer" "app_stream m2 = app_stream x"
    using transfer_answer [OF _ assms(2,3,6)] by (auto split: if_splits)
  from later_chunk_read [OF x(1) waiting_drop [OF w]] x(2-5) Cons q show ?thesis
    by (intro exI [of _ qty] exI [of _ pb] exI [of _ "body @ concat (map chunk_part cs) @ chunk_part d"]) (auto simp: chunk_read_def)
qed

end
