(* ===== verification/Json_Tree.thy ===== *)
theory Json_Tree
  imports Jsmn_Props
begin

text \<open>
  JSON values as trees and their compact text: the reference against which the strict tokenizer is
  checked. It reads the text of an object as the tokens of its tree, whatever the nesting.
\<close>

section \<open>Trees, texts and tokens\<close>

datatype jval =
    JStr bytes
  | JPrim bytes
  | JArr "jval list"
  | JObj "(bytes \<times> jval) list"

definition word_byte :: "byte \<Rightarrow> bool" where
  "word_byte c \<longleftrightarrow> c \<notin> set prim_delims \<and> 32 \<le> byte_val c \<and> byte_val c < 127"

definition word_start :: "byte \<Rightarrow> bool" where
  "word_start c \<longleftrightarrow> c \<notin> {CHR ''{'', CHR ''['', CHR 0x22}"

fun jval_wf :: "jval \<Rightarrow> bool" where
  "jval_wf (JStr s) = string_body s"
| "jval_wf (JPrim w) = (w \<noteq> [] \<and> list_all word_byte w \<and> word_start (hd w))"
| "jval_wf (JArr vs) = list_all jval_wf vs"
| "jval_wf (JObj ms) = list_all (\<lambda>m. string_body (fst m) \<and> jval_wf (snd m)) ms"

definition quote :: "bytes \<Rightarrow> bytes" where
  "quote s = CHR 0x22 # s @ [CHR 0x22]"

fun jprint :: "jval \<Rightarrow> bytes" and jprint_elems :: "jval list \<Rightarrow> bytes"
  and jprint_members :: "(bytes \<times> jval) list \<Rightarrow> bytes" where
  "jprint (JStr s) = quote s"
| "jprint (JPrim w) = w"
| "jprint (JArr vs) = CHR ''['' # jprint_elems vs @ [CHR '']'']"
| "jprint (JObj ms) = CHR ''{'' # jprint_members ms @ [CHR ''}'']"
| "jprint_elems [] = []"
| "jprint_elems (v # vs) = jprint v @ (if vs = [] then [] else CHR '','' # jprint_elems vs)"
| "jprint_members [] = []"
| "jprint_members ((k, v) # ms) =
     quote k @ CHR '':'' # jprint v @ (if ms = [] then [] else CHR '','' # jprint_members ms)"

abbreviation jlen :: "jval \<Rightarrow> nat" where
  "jlen v \<equiv> length (jprint v)"

fun jtoks :: "nat \<Rightarrow> jval \<Rightarrow> token list" and jtoks_elems :: "nat \<Rightarrow> jval list \<Rightarrow> token list"
  and jtoks_members :: "nat \<Rightarrow> (bytes \<times> jval) list \<Rightarrow> token list" where
  "jtoks p (JStr s) = [\<lparr> tok_kind = StringTok, tok_start = p + 1, tok_end = p + 1 + length s \<rparr>]"
| "jtoks p (JPrim w) = [\<lparr> tok_kind = Primitive, tok_start = p, tok_end = p + length w \<rparr>]"
| "jtoks p (JArr vs) =
     \<lparr> tok_kind = Array, tok_start = p, tok_end = p + jlen (JArr vs) \<rparr> # jtoks_elems (p + 1) vs"
| "jtoks p (JObj ms) =
     \<lparr> tok_kind = Object, tok_start = p, tok_end = p + jlen (JObj ms) \<rparr> # jtoks_members (p + 1) ms"
| "jtoks_elems p [] = []"
| "jtoks_elems p (v # vs) = jtoks p v @ jtoks_elems (p + jlen v + 1) vs"
| "jtoks_members p [] = []"
| "jtoks_members p ((k, v) # ms) =
     \<lparr> tok_kind = StringTok, tok_start = p + 1, tok_end = p + 1 + length k \<rparr> # jtoks (p + length k + 3) v @
     jtoks_members (p + length k + 3 + jlen v + 1) ms"

fun jsize :: "jval \<Rightarrow> nat" where
  "jsize (JStr s) = 1"
| "jsize (JPrim w) = 1"
| "jsize (JArr vs) = Suc (sum_list (map jsize vs))"
| "jsize (JObj ms) = Suc (sum_list (map (\<lambda>m. Suc (jsize (snd m))) ms))"

lemma length_jtoks [simp]:
  "length (jtoks p v) = jsize v"
  "length (jtoks_elems p vs) = sum_list (map jsize vs)"
  "length (jtoks_members p ms) = sum_list (map (\<lambda>m. Suc (jsize (snd m))) ms)"
  by (induction p v and p vs and p ms rule: jtoks_jtoks_elems_jtoks_members.induct) auto

lemma length_quote [simp]: "length (quote s) = length s + 2"
  by (simp add: quote_def)

text \<open>Where the tokens lie.\<close>

lemma jtoks_range:
  "t \<in> set (jtoks p v) \<Longrightarrow> p \<le> tok_start t \<and> tok_start t \<le> tok_end t \<and> tok_end t \<le> p + jlen v"
  "t \<in> set (jtoks_elems q vs) \<Longrightarrow> q \<le> tok_start t \<and> tok_start t \<le> tok_end t \<and> tok_end t \<le> q + length (jprint_elems vs)"
  "t \<in> set (jtoks_members r ms) \<Longrightarrow> r < tok_start t \<and> tok_start t \<le> tok_end t \<and> tok_end t \<le> r + length (jprint_members ms)"
  by (induction p v and q vs and r ms rule: jtoks_jtoks_elems_jtoks_members.induct) (fastforce split: if_splits)+

lemma jtoks_closed: "p + jlen v < UNSET \<Longrightarrow> last_index is_open (jtoks p v) = None"
  unfolding last_index_None list_all_iff using jtoks_range(1) [of _ p v] by (fastforce simp: is_open_def)

section \<open>The scans\<close>

lemma scan_hex_digits:
  "is_hex a \<Longrightarrow> is_hex b \<Longrightarrow> is_hex c \<Longrightarrow> is_hex d \<Longrightarrow> scan_hex 4 pos (a # b # c # d # r) = Inr (pos + 4, r)"
proof -
  have n: "is_hex x \<Longrightarrow> x \<noteq> NUL" for x by (auto simp: is_hex_def is_ascii_hexdigit_def is_ascii_digit_def NUL_def)
  assume "is_hex a" "is_hex b" "is_hex c" "is_hex d"
  then show ?thesis using n by (simp add: numeral_eq_Suc)
qed

lemma scan_string_body:
  "string_body s \<Longrightarrow> scan_string True pos (s @ CHR 0x22 # r) = Inr (pos + length s, CHR 0x22 # r)"
proof (induction s arbitrary: pos rule: string_body.induct)
  case 1
  then show ?case by (simp add: NUL_def)
next
  case (2 c cs)
  have z: "0x20 \<le> byte_val c \<Longrightarrow> c \<noteq> NUL" by auto
  show ?case
  proof (cases "c = CHR 0x5C")
    case True
    then obtain d ds where cs: "cs = d # ds" using 2(4) by (cases cs) auto
    show ?thesis
    proof (cases "d \<in> set escapes")
      case False
      then obtain h1 h2 h3 h4 rest where ds: "d = CHR ''u''" "ds = h1 # h2 # h3 # h4 # rest" "string_body rest"
        "is_hex h1" "is_hex h2" "is_hex h3" "is_hex h4"
        using 2(4) True cs by (auto split: if_splits list.splits)
      have "scan_hex 4 (pos + 2) (h1 # h2 # h3 # h4 # rest @ CHR 0x22 # r) = Inr (pos + 2 + 4, rest @ CHR 0x22 # r)"
        using scan_hex_digits ds by blast
      then show ?thesis using 2 True cs ds False by (simp add: NUL_def)
    qed (use 2 True cs in \<open>auto simp: NUL_def\<close>)
  qed (use 2 z in auto)
qed

definition delimited :: "bytes \<Rightarrow> bool" where
  "delimited r \<longleftrightarrow> r = [] \<or> hd r \<in> set prim_delims"

lemma scan_primitive_word:
  "list_all word_byte w \<Longrightarrow> delimited r \<Longrightarrow> scan_primitive pos (w @ r) = Inr (pos + length w, r)"
proof (induction w arbitrary: pos)
  case Nil
  then show ?case by (cases r) (auto simp: delimited_def)
next
  case (Cons c w)
  then have "word_byte c" by simp
  then have "c \<noteq> NUL" by (auto simp: word_byte_def)
  then show ?case using Cons by (auto simp: word_byte_def)
qed

section \<open>The tokenizer reads trees\<close>

text \<open>The innermost open container.\<close>

definition innermost :: "jstate \<Rightarrow> nat option" where
  "innermost st = last_index is_open (toks st)"

definition is_node :: "jval \<Rightarrow> bool" where
  "is_node v = (case v of JArr _ \<Rightarrow> True | JObj _ \<Rightarrow> True | _ \<Rightarrow> False)"

definition reads_value :: "jval \<Rightarrow> jstate \<Rightarrow> bool" where
  "reads_value v st \<longleftrightarrow> expecting st \<in> {ExpValue, ExpValueOrClose} \<or>
     expecting st = ExpRoot \<and> (\<exists>ms. v = JObj ms)"

text \<open>The state after a value, and after text inside a container.\<close>

definition after_value :: "nat \<Rightarrow> jval \<Rightarrow> jstate \<Rightarrow> jstate" where
  "after_value p v st = st \<lparr> toks := toks st @ jtoks p v,
     toksuper := (if is_node v then super_of (innermost st) else toksuper st),
     expecting := (if is_node v \<and> innermost st = None then ExpDone else ExpCommaOrClose),
     tok_count := tok_count st + jsize v \<rparr>"

definition after_tokens :: "token list \<Rightarrow> int \<Rightarrow> expect \<Rightarrow> jstate \<Rightarrow> jstate" where
  "after_tokens ts sp e st =
     st \<lparr> toks := toks st @ ts, toksuper := sp, expecting := e, tok_count := tok_count st + length ts \<rparr>"

lemma after_tokens_simps [simp]:
  "toks (after_tokens ts sp e st) = toks st @ ts" "toksuper (after_tokens ts sp e st) = sp"
  "expecting (after_tokens ts sp e st) = e" "tok_count (after_tokens ts sp e st) = tok_count st + length ts"
  "after_tokens us sp' e' (after_tokens ts sp e st) = after_tokens (ts @ us) sp' e' st"
  by (simp_all add: after_tokens_def)

lemma after_value_tokens: "after_value p v st = after_tokens (jtoks p v)
   (if is_node v then super_of (innermost st) else toksuper st)
   (if is_node v \<and> innermost st = None then ExpDone else ExpCommaOrClose) st"
  by (simp add: after_value_def after_tokens_def)

lemma innermost_after [simp]:
  "last_index is_open ts = None \<Longrightarrow> innermost (after_tokens ts sp e st) = innermost st"
  by (simp add: innermost_def last_index_append)

lemmas step_defs = token_step_def next_cursor_def rbind_def advance_def check_def NUL_def Let_def

text \<open>One character, one word, one string.\<close>

lemma open_step:
  assumes "c = (if b then CHR ''{'' else CHR ''['')" "length (toks st) < cap" "p < UNSET"
    and "expecting st \<in> {ExpValue, ExpValueOrClose} \<or> expecting st = ExpRoot \<and> b"
  shows "parse_loop True cap p (c # cs) st = parse_loop True cap (Suc p) cs
    (after_tokens [\<lparr> tok_kind = (if b then Object else Array), tok_start = p, tok_end = UNSET \<rparr>]
      (int (length (toks st))) (if b then ExpKeyOrClose else ExpValueOrClose) st)"
  using assms
  by (cases st) (auto simp: step_defs open_bracket_def open_expect_def alloc_token_def after_tokens_def UNSET_def)

lemma close_step:
  assumes "c = (if b then CHR ''}'' else CHR '']'')" "Suc p < UNSET"
    and "toks st = us @ \<lparr> tok_kind = (if b then Object else Array), tok_start = s, tok_end = UNSET \<rparr> # ts"
    and "last_index is_open ts = None" "s < UNSET"
    and "expecting st \<in> {ExpCommaOrClose, if b then ExpKeyOrClose else ExpValueOrClose}"
  shows "parse_loop True cap p (c # cs) st = parse_loop True cap (Suc p) cs
    (st \<lparr> toks := us @ \<lparr> tok_kind = (if b then Object else Array), tok_start = s, tok_end = Suc p \<rparr> # ts,
       toksuper := super_of (last_index is_open us),
       expecting := (if last_index is_open us = None then ExpDone else ExpCommaOrClose) \<rparr>)"
proof -
  have l: "last_index is_open (toks st) = Some (length us)"
    using assms(3-5) by (simp add: last_index_append is_open_def)
  have l': "last_index is_open (us @ \<lparr> tok_kind = k, tok_start = s, tok_end = Suc p \<rparr> # ts) = last_index is_open us" for k
    using assms(2,4) by (simp add: last_index_append is_open_def)
  have "expecting st \<noteq> ExpDone" "close_ok (expecting st) c" using assms(1,6) by (auto simp: close_ok_def split: if_splits)
  moreover have "super_of (last_index is_open us) \<ge> 0 \<longleftrightarrow> last_index is_open us \<noteq> None"
    by (auto simp: super_of_def split: option.split)
  ultimately show ?thesis using l l' assms(1-3)
    by (cases b) (auto simp: step_defs close_bracket_def u16_def UNSET_def)
qed

lemma last_index_conj:
  "last_index P xs = Some i \<Longrightarrow> Q (xs ! i) \<Longrightarrow> last_index (\<lambda>x. Q x \<and> P x) xs = Some i"
proof (induction xs arbitrary: i)
  case (Cons x xs)
  have "last_index P xs = None \<Longrightarrow> last_index (\<lambda>x. Q x \<and> P x) xs = None"
    by (auto simp: last_index_None list_all_iff)
  then show ?case using Cons by (auto split: option.splits if_splits)
qed simp

lemma comma_step:
  assumes "expecting st = ExpCommaOrClose" "innermost st = Some i" "tok_kind (toks st ! i) = (if b then Object else Array)"
    and "toksuper st = int i \<or> tok_at (toks st) (toksuper st) \<noteq> None \<and> \<not> is_container (super_kind st)"
  shows "parse_loop True cap p (CHR '','' # cs) st = parse_loop True cap (Suc p) cs
    (st \<lparr> toksuper := int i, expecting := (if b then ExpKey else ExpValue) \<rparr>)"
proof -
  have i: "i < length (toks st)" "is_open (toks st ! i)" using last_index_SomeD assms(2) by (auto simp: innermost_def)
  have "is_container (tok_kind (toks st ! i))" using assms(3) by (auto simp: is_container_def)
  have "last_index (\<lambda>t. is_container (tok_kind t) \<and> is_open t) (toks st) = Some i"
    using last_index_conj [of is_open _ i "\<lambda>t. is_container (tok_kind t)"] assms(2)
      \<open>is_container (tok_kind (toks st ! i))\<close> unfolding innermost_def by blast
  then have "comma_super st = st \<lparr> toksuper := int i \<rparr>"
    using assms(4) i \<open>is_container (tok_kind (toks st ! i))\<close>
    by (auto simp: comma_super_def super_kind_def tok_at_def)
  then show ?thesis using assms(1,3) i \<open>is_container (tok_kind (toks st ! i))\<close>
    by (auto simp: step_defs comma_char_def open_container_def tok_at_def whitespace_def)
qed

lemma colon_step:
  "expecting st = ExpColon \<Longrightarrow> parse_loop True cap p (CHR '':'' # cs) st =
     parse_loop True cap (Suc p) cs (st \<lparr> toksuper := int (length (toks st)) - 1, expecting := ExpValue \<rparr>)"
  by (cases st) (simp add: step_defs colon_char_def whitespace_def)

lemma string_step:
  assumes "string_body s" "length (toks st) < cap" "p + length s + 2 < UNSET"
    and "string_expect (expecting st) = Some e"
  shows "parse_loop True cap p (quote s @ cs) st = parse_loop True cap (p + length s + 2) cs
    (after_tokens [\<lparr> tok_kind = StringTok, tok_start = p + 1, tok_end = p + 1 + length s \<rparr>] (toksuper st) e st)"
proof -
  have x: "expecting st \<noteq> ExpDone" using assms(4) by (auto simp: string_expect_def)
  then show ?thesis using assms scan_string_body [OF assms(1), of "Suc p" cs]
    by (cases st) (simp add: quote_def step_defs string_token_def alloc_token_def after_tokens_def UNSET_def)
qed

lemma word_step:
  assumes "w \<noteq> []" "list_all word_byte w" "word_start (hd w)" "delimited cs" "length (toks st) < cap"
    "p + length w < UNSET" "expecting st \<in> {ExpValue, ExpValueOrClose}"
  shows "parse_loop True cap p (w @ cs) st = parse_loop True cap (p + length w) cs
    (after_tokens [\<lparr> tok_kind = Primitive, tok_start = p, tok_end = p + length w \<rparr>] (toksuper st) ExpCommaOrClose st)"
proof -
  obtain c w' where w: "w = c # w'" using assms(1) by (cases w) auto
  have c: "c \<noteq> NUL" "c \<notin> {CHR ''{'', CHR ''['', CHR 0x22, CHR ''}'', CHR '']'', CHR '':'', CHR '',''}" "c \<notin> set whitespace"
    using assms(2,3) w by (auto simp: word_byte_def word_start_def prim_delims_def whitespace_def)
  have "scan_primitive p (c # w' @ cs) = Inr (p + length w, cs)"
    using scan_primitive_word [OF assms(2,4), of p] w by simp
  then show ?thesis using assms(5-7) c w
    by (cases st) (auto simp: step_defs primitive_token_def primitive_expect_def alloc_token_def after_tokens_def UNSET_def
        simp del: scan_primitive.simps)
qed

text \<open>What reading a value, the elements of an array and the members of an object do.\<close>

definition value_read :: "nat \<Rightarrow> jval \<Rightarrow> bool" where
  "value_read cap v \<longleftrightarrow> (\<forall>p st rest. jval_wf v \<longrightarrow> reads_value v st \<longrightarrow> delimited rest \<longrightarrow>
     p + jlen v < UNSET \<longrightarrow> length (toks st) + jsize v \<le> cap \<longrightarrow>
     parse_loop True cap p (jprint v @ rest) st = parse_loop True cap (p + jlen v) rest (after_value p v st))"

definition elems_read :: "nat \<Rightarrow> jval list \<Rightarrow> bool" where
  "elems_read cap vs \<longleftrightarrow> (\<forall>p st rest i. vs \<noteq> [] \<longrightarrow> list_all jval_wf vs \<longrightarrow> delimited rest \<longrightarrow>
     innermost st = Some i \<longrightarrow> tok_kind (toks st ! i) = Array \<longrightarrow> toksuper st = int i \<longrightarrow>
     expecting st \<in> {ExpValue, ExpValueOrClose} \<longrightarrow>
     p + length (jprint_elems vs) < UNSET \<longrightarrow> length (toks st) + sum_list (map jsize vs) \<le> cap \<longrightarrow>
     parse_loop True cap p (jprint_elems vs @ rest) st =
       parse_loop True cap (p + length (jprint_elems vs)) rest
         (after_tokens (jtoks_elems p vs) (int i) ExpCommaOrClose st))"

definition members_read :: "nat \<Rightarrow> (bytes \<times> jval) list \<Rightarrow> bool" where
  "members_read cap ms \<longleftrightarrow> (\<forall>p st rest i. ms \<noteq> [] \<longrightarrow> jval_wf (JObj ms) \<longrightarrow> delimited rest \<longrightarrow>
     innermost st = Some i \<longrightarrow> tok_kind (toks st ! i) = Object \<longrightarrow>
     expecting st \<in> {ExpKey, ExpKeyOrClose} \<longrightarrow>
     p + length (jprint_members ms) < UNSET \<longrightarrow> length (toks st) + length (jtoks_members p ms) \<le> cap \<longrightarrow>
     (\<exists>sp. parse_loop True cap p (jprint_members ms @ rest) st =
       parse_loop True cap (p + length (jprint_members ms)) rest
         (after_tokens (jtoks_members p ms) sp ExpCommaOrClose st)))"

lemma innermost_less: "innermost st = Some i \<Longrightarrow> i < length (toks st)"
  by (auto simp: innermost_def dest: last_index_SomeD)

lemma jtoks_parts_closed:
  "p + length (jprint_elems vs) < UNSET \<Longrightarrow> last_index is_open (jtoks_elems p vs) = None"
  "p + length (jprint_members ms) < UNSET \<Longrightarrow> last_index is_open (jtoks_members p ms) = None"
  unfolding last_index_None list_all_iff using jtoks_range(2) [of _ p vs] jtoks_range(3) [of _ p ms]
  by (fastforce simp: is_open_def)+

text \<open>Scalars and empty containers.\<close>

lemma scalar_read: "\<not> is_node v \<Longrightarrow> value_read cap v"
  unfolding value_read_def
proof (intro allI impI)
  fix p st rest
  assume v: "\<not> is_node v" "jval_wf v" "reads_value v st" "delimited rest" "p + jlen v < UNSET" "length (toks st) + jsize v \<le> cap"
  then have e: "expecting st \<in> {ExpValue, ExpValueOrClose}" by (auto simp: reads_value_def is_node_def)
  show "parse_loop True cap p (jprint v @ rest) st = parse_loop True cap (p + jlen v) rest (after_value p v st)"
  proof (cases v)
    case (JStr s)
    have "string_expect (expecting st) = Some ExpCommaOrClose" using e by (auto simp: string_expect_def)
    then show ?thesis using v string_step [of s st cap p ExpCommaOrClose rest] JStr
      by (simp add: after_value_tokens is_node_def)
  next
    case (JPrim w)
    then show ?thesis using v word_step [of w rest st cap p] e by (simp add: after_value_tokens is_node_def)
  qed (use v in \<open>simp_all add: is_node_def\<close>)
qed

text \<open>A container: its opening, its inside, its closing.\<close>

text \<open>The closing bracket fixes the bound of the container and leaves it.\<close>

lemma container_close:
  assumes "last_index is_open ts = None" "e \<in> {ExpCommaOrClose, if b then ExpKeyOrClose else ExpValueOrClose}" "p + n + 2 < UNSET"
  shows "parse_loop True cap (Suc p + n) ((if b then CHR ''}'' else CHR '']'') # rest)
      (after_tokens ts sp e (after_tokens [\<lparr> tok_kind = (if b then Object else Array), tok_start = p, tok_end = UNSET \<rparr>] s0 e0 st)) =
    parse_loop True cap (p + n + 2) rest
      (after_tokens (\<lparr> tok_kind = (if b then Object else Array), tok_start = p, tok_end = p + n + 2 \<rparr> # ts)
        (super_of (innermost st)) (if innermost st = None then ExpDone else ExpCommaOrClose) st)"
proof -
  let ?open = "\<lparr> tok_kind = (if b then Object else Array), tok_start = p, tok_end = UNSET \<rparr>"
  let ?st = "after_tokens ts sp e (after_tokens [?open] s0 e0 st)"
  let ?closed = "?st \<lparr> toks := toks st @ ?open \<lparr> tok_end := Suc (Suc p + n) \<rparr> # ts,
       toksuper := super_of (last_index is_open (toks st)),
       expecting := (if last_index is_open (toks st) = None then ExpDone else ExpCommaOrClose) \<rparr>"
  have "parse_loop True cap (Suc p + n) ((if b then CHR ''}'' else CHR '']'') # rest) ?st = parse_loop True cap (Suc (Suc p + n)) rest ?closed"
    using close_step [OF refl, where st = ?st and us = "toks st" and s = p and ts = ts] assms by simp
  moreover have "?closed = after_tokens (\<lparr> tok_kind = (if b then Object else Array), tok_start = p, tok_end = p + n + 2 \<rparr> # ts)
        (super_of (innermost st)) (if innermost st = None then ExpDone else ExpCommaOrClose) st"
    by (cases st) (simp add: after_tokens_def innermost_def)
  moreover have "Suc (Suc p + n) = p + n + 2" by simp
  ultimately show ?thesis by (simp only:)
qed

lemma container_read:
  assumes "b \<and> ts = jtoks_members (Suc p) ms \<and> inside = jprint_members ms \<or>
      \<not> b \<and> ts = jtoks_elems (Suc p) vs \<and> inside = jprint_elems vs"
    and "expecting st \<in> {ExpValue, ExpValueOrClose} \<or> expecting st = ExpRoot \<and> b"
    and "p + length inside + 2 < UNSET" "length (toks st) < cap"
    and "\<And>s1 r. s1 = after_tokens [\<lparr> tok_kind = (if b then Object else Array), tok_start = p, tok_end = UNSET \<rparr>]
          (int (length (toks st))) (if b then ExpKeyOrClose else ExpValueOrClose) st \<Longrightarrow> delimited r \<Longrightarrow> inside \<noteq> [] \<Longrightarrow>
        \<exists>sp. parse_loop True cap (Suc p) (inside @ r) s1 =
          parse_loop True cap (Suc p + length inside) r (after_tokens ts sp ExpCommaOrClose s1)"
    and "inside = [] \<Longrightarrow> ts = []"
  shows "parse_loop True cap p ((if b then CHR ''{'' else CHR ''['') # inside @ (if b then CHR ''}'' else CHR '']'') # rest) st =
    parse_loop True cap (p + length inside + 2) rest
      (after_tokens (\<lparr> tok_kind = (if b then Object else Array), tok_start = p, tok_end = p + length inside + 2 \<rparr> # ts)
        (super_of (innermost st)) (if innermost st = None then ExpDone else ExpCommaOrClose) st)"
proof -
  let ?open = "\<lparr> tok_kind = (if b then Object else Array), tok_start = p, tok_end = UNSET \<rparr>"
  let ?c = "if b then CHR ''}'' else CHR '']''"
  let ?s1 = "after_tokens [?open] (int (length (toks st))) (if b then ExpKeyOrClose else ExpValueOrClose) st"
  have d: "delimited (?c # rest)" by (simp add: delimited_def prim_delims_def)
  have closed: "last_index is_open ts = None" using assms(1,3) jtoks_parts_closed by auto
  have "\<exists>sp e. e \<in> {ExpCommaOrClose, if b then ExpKeyOrClose else ExpValueOrClose} \<and>
      parse_loop True cap (Suc p) (inside @ ?c # rest) ?s1 =
        parse_loop True cap (Suc p + length inside) (?c # rest) (after_tokens ts sp e ?s1)"
  proof (cases "inside = []")
    case True
    then show ?thesis using assms(6)
      by (intro exI [of _ "toksuper ?s1"] exI [of _ "expecting ?s1"]) (simp add: after_tokens_def)
  next
    case False
    from assms(5) [OF refl d this] show ?thesis by blast
  qed
  then obtain sp e where i: "e \<in> {ExpCommaOrClose, if b then ExpKeyOrClose else ExpValueOrClose}"
    "parse_loop True cap (Suc p) (inside @ ?c # rest) ?s1 =
        parse_loop True cap (Suc p + length inside) (?c # rest) (after_tokens ts sp e ?s1)" by blast
  have "parse_loop True cap p ((if b then CHR ''{'' else CHR ''['') # inside @ ?c # rest) st =
      parse_loop True cap (Suc p) (inside @ ?c # rest) ?s1"
    by (rule open_step [OF refl assms(4)]) (use assms(2,3) in auto)
  then show ?thesis using i(2) container_close [OF closed i(1) assms(3)] by (simp only:)
qed

declare parse_loop.simps [simp del]

lemma array_read:
  assumes "elems_read cap vs"
  shows "value_read cap (JArr vs)"
  unfolding value_read_def
proof (intro allI impI)
  fix p st rest
  assume v: "jval_wf (JArr vs)" "reads_value (JArr vs) st" "p + jlen (JArr vs) < UNSET" "length (toks st) + jsize (JArr vs) \<le> cap"
  let ?open = "\<lparr> tok_kind = Array, tok_start = p, tok_end = UNSET \<rparr>"
  have inside: "\<exists>sp. parse_loop True cap (Suc p) (jprint_elems vs @ r) s1 =
      parse_loop True cap (Suc p + length (jprint_elems vs)) r (after_tokens (jtoks_elems (Suc p) vs) sp ExpCommaOrClose s1)"
    if s: "s1 = after_tokens [\<lparr> tok_kind = (if False then Object else Array), tok_start = p, tok_end = UNSET \<rparr>]
        (int (length (toks st))) (if False then ExpKeyOrClose else ExpValueOrClose) st"
      "delimited r" "jprint_elems vs \<noteq> []" for s1 r
  proof -
    have "innermost s1 = Some (length (toks st))" "toks s1 ! length (toks st) = ?open"
      using v(3) unfolding s(1) by (simp_all add: innermost_def last_index_append is_open_def)
    then show ?thesis using assms [unfolded elems_read_def, rule_format, of r s1 "length (toks st)" "Suc p"] s v
      by (cases "vs = []") auto
  qed
  have e: "expecting st \<in> {ExpValue, ExpValueOrClose} \<or> expecting st = ExpRoot \<and> False"
    using v(2) by (auto simp: reads_value_def)
  have z: "jprint_elems vs = [] \<Longrightarrow> jtoks_elems (Suc p) vs = []"
    using v(1) by (cases vs; cases "hd vs") (auto simp: quote_def)
  show "parse_loop True cap p (jprint (JArr vs) @ rest) st =
      parse_loop True cap (p + jlen (JArr vs)) rest (after_value p (JArr vs) st)"
    using container_read [OF _ e _ _ inside z, where vs = vs and rest = rest] v(3,4)
    by (simp add: after_value_tokens is_node_def)
qed

lemma object_read:
  assumes "members_read cap ms"
  shows "value_read cap (JObj ms)"
  unfolding value_read_def
proof (intro allI impI)
  fix p st rest
  assume v: "jval_wf (JObj ms)" "reads_value (JObj ms) st" "p + jlen (JObj ms) < UNSET" "length (toks st) + jsize (JObj ms) \<le> cap"
  let ?open = "\<lparr> tok_kind = Object, tok_start = p, tok_end = UNSET \<rparr>"
  have inside: "\<exists>sp. parse_loop True cap (Suc p) (jprint_members ms @ r) s1 =
      parse_loop True cap (Suc p + length (jprint_members ms)) r (after_tokens (jtoks_members (Suc p) ms) sp ExpCommaOrClose s1)"
    if s: "s1 = after_tokens [\<lparr> tok_kind = (if True then Object else Array), tok_start = p, tok_end = UNSET \<rparr>]
        (int (length (toks st))) (if True then ExpKeyOrClose else ExpValueOrClose) st"
      "delimited r" "jprint_members ms \<noteq> []" for s1 r
  proof -
    have "innermost s1 = Some (length (toks st))" "toks s1 ! length (toks st) = ?open"
      using v(3) unfolding s(1) by (simp_all add: innermost_def last_index_append is_open_def)
    then show ?thesis using assms [unfolded members_read_def, rule_format, of r s1 "length (toks st)" "Suc p"] s v
      by (cases "ms = []") auto
  qed
  have e: "expecting st \<in> {ExpValue, ExpValueOrClose} \<or> expecting st = ExpRoot \<and> True"
    using v(2) by (auto simp: reads_value_def)
  have z: "jprint_members ms = [] \<Longrightarrow> jtoks_members (Suc p) ms = []"
    by (cases ms) (auto simp: quote_def)
  show "parse_loop True cap p (jprint (JObj ms) @ rest) st =
      parse_loop True cap (p + jlen (JObj ms)) rest (after_value p (JObj ms) st)"
    using container_read [OF _ e _ _ inside z, where ms = ms and rest = rest] v(3,4)
    by (simp add: after_value_tokens is_node_def)
qed

lemma after_value_inside: "innermost st = Some i \<Longrightarrow> after_value p v st =
    after_tokens (jtoks p v) (if is_node v then int i else toksuper st) ExpCommaOrClose st"
  by (simp add: after_value_tokens super_of_def)

lemma after_tokens_update:
  "(after_tokens ts sp e st) \<lparr> toksuper := sp', expecting := e' \<rparr> = after_tokens ts sp' e' st"
  by (cases st) (simp add: after_tokens_def)

lemma delimited_comma: "delimited (CHR '','' # cs)"
  by (simp add: delimited_def prim_delims_def)

lemma value_readD:
  "value_read cap v \<Longrightarrow> expecting st \<in> {ExpValue, ExpValueOrClose} \<Longrightarrow> jval_wf v \<Longrightarrow> delimited r \<Longrightarrow>
   p + jlen v < UNSET \<Longrightarrow> length (toks st) + jsize v \<le> cap \<Longrightarrow>
   parse_loop True cap p (jprint v @ r) st = parse_loop True cap (p + jlen v) r (after_value p v st)"
  by (simp only: value_read_def reads_value_def) blast

lemma elems_read_Cons:
  assumes "value_read cap v" "elems_read cap vs"
  shows "elems_read cap (v # vs)"
  unfolding elems_read_def
proof (intro allI impI)
  fix p st rest i
  assume a: "list_all jval_wf (v # vs)" "delimited rest" "innermost st = Some i" "tok_kind (toks st ! i) = Array"
    "toksuper st = int i" "expecting st \<in> {ExpValue, ExpValueOrClose}"
    "p + length (jprint_elems (v # vs)) < UNSET" "length (toks st) + sum_list (map jsize (v # vs)) \<le> cap"
  let ?s1 = "after_tokens (jtoks p v) (int i) ExpCommaOrClose st"
  have s1: "after_value p v st = ?s1" using after_value_inside [OF a(3)] a(5) by simp
  have one: "parse_loop True cap p (jprint v @ r) st = parse_loop True cap (p + jlen v) r ?s1" if "delimited r" for r
    using value_readD [OF assms(1) a(6) _ that, of p] a(1,7,8) unfolding s1 by (simp split: if_splits)
  show "parse_loop True cap p (jprint_elems (v # vs) @ rest) st =
      parse_loop True cap (p + length (jprint_elems (v # vs))) rest
        (after_tokens (jtoks_elems p (v # vs)) (int i) ExpCommaOrClose st)"
  proof (cases "vs = []")
    case True
    then show ?thesis using one [OF a(2)] by simp
  next
    case False
    let ?s2 = "after_tokens (jtoks p v) (int i) ExpValue st"
    have i: "innermost ?s1 = Some i" "innermost ?s2 = Some i" "i < length (toks st)"
      using a(3,7) jtoks_closed [of p v] innermost_less by auto
    have "parse_loop True cap (p + jlen v) (CHR '','' # jprint_elems vs @ rest) ?s1 =
        parse_loop True cap (Suc (p + jlen v)) (jprint_elems vs @ rest) ?s2"
      using comma_step [of ?s1 i False] i a(4) by (simp add: nth_append after_tokens_update)
    also have "\<dots> = parse_loop True cap (Suc (p + jlen v) + length (jprint_elems vs)) rest
        (after_tokens (jtoks_elems (Suc (p + jlen v)) vs) (int i) ExpCommaOrClose ?s2)"
      using assms(2) [unfolded elems_read_def, rule_format, of rest ?s2 i "Suc (p + jlen v)"] a False i
      by (simp add: nth_append)
    finally show ?thesis using one [OF delimited_comma] False by (simp add: add.assoc)
  qed
qed

text \<open>One member of an object: the key, the colon, the value.\<close>

abbreviation key_token :: "nat \<Rightarrow> bytes \<Rightarrow> token" where
  "key_token p k \<equiv> \<lparr> tok_kind = StringTok, tok_start = p + 1, tok_end = p + 1 + length k \<rparr>"

lemma member_step:
  assumes "value_read cap v" "jval_wf v" "string_body k" "innermost st = Some i" "expecting st \<in> {ExpKey, ExpKeyOrClose}"
    "p + length k + 3 + jlen v < UNSET" "length (toks st) + 1 + jsize v \<le> cap" "delimited r"
  shows "parse_loop True cap p (quote k @ CHR '':'' # jprint v @ r) st =
    parse_loop True cap (p + length k + 3 + jlen v) r
      (after_tokens (key_token p k # jtoks (p + length k + 3) v) (if is_node v then int i else int (length (toks st))) ExpCommaOrClose st)"
proof -
  let ?q = "p + length k + 3" and ?key = "key_token p k"
  let ?sk = "after_tokens [?key] (toksuper st) ExpColon st"
  let ?sc = "after_tokens [?key] (int (length (toks st))) ExpValue st"
  have i: "innermost ?sc = Some i" using assms(4,6) by (simp add: is_open_def)
  have "string_expect (expecting st) = Some ExpColon" using assms(5) by (auto simp: string_expect_def)
  then have key: "parse_loop True cap p (quote k @ CHR '':'' # cs) st = parse_loop True cap (p + length k + 2) (CHR '':'' # cs) ?sk" for cs
    by (intro string_step) (use assms in auto)
  have colon: "parse_loop True cap (p + length k + 2) (CHR '':'' # cs) ?sk = parse_loop True cap ?q cs ?sc" for cs
    by (simp add: colon_step after_tokens_update numeral_3_eq_3)
  have "parse_loop True cap ?q (jprint v @ r) ?sc = parse_loop True cap (?q + jlen v) r (after_value ?q v ?sc)"
    using value_readD [OF assms(1) _ assms(2,8), of ?sc ?q] assms(6,7) by simp
  then show ?thesis unfolding key colon using after_value_inside [OF i, of ?q v] by simp
qed

lemma members_read_Cons:
  assumes "value_read cap v" "members_read cap ms"
  shows "members_read cap ((k, v) # ms)"
  unfolding members_read_def
proof (intro allI impI)
  fix p st rest i
  assume a: "jval_wf (JObj ((k, v) # ms))" "delimited rest" "innermost st = Some i" "tok_kind (toks st ! i) = Object"
    "expecting st \<in> {ExpKey, ExpKeyOrClose}"
    "p + length (jprint_members ((k, v) # ms)) < UNSET"
    "length (toks st) + length (jtoks_members p ((k, v) # ms)) \<le> cap"
  let ?q = "p + length k + 3" and ?sp = "if is_node v then int i else int (length (toks st))"
  let ?s1 = "after_tokens (key_token p k # jtoks ?q v) ?sp ExpCommaOrClose st"
  have "last_index is_open (key_token p k # jtoks ?q v) = None" using jtoks_closed [of ?q v] a(6) by (simp add: is_open_def split: if_splits)
  then have i1: "innermost (after_tokens (key_token p k # jtoks ?q v) s e st) = Some i" for s e using a(3) by simp
  have i2: "i < length (toks st)" using a(3) by (rule innermost_less)
  have one: "parse_loop True cap p (quote k @ CHR '':'' # jprint v @ r) st = parse_loop True cap (?q + jlen v) r ?s1"
    if "delimited r" for r
    by (rule member_step [OF assms(1) _ _ a(3,5) _ _ that]) (use a(1,6,7) in \<open>auto split: if_splits\<close>)
  show "\<exists>sp. parse_loop True cap p (jprint_members ((k, v) # ms) @ rest) st =
      parse_loop True cap (p + length (jprint_members ((k, v) # ms))) rest
        (after_tokens (jtoks_members p ((k, v) # ms)) sp ExpCommaOrClose st)"
  proof (cases "ms = []")
    case True
    then show ?thesis using one [OF a(2)] by (intro exI [of _ ?sp]) (simp add: algebra_simps numeral_3_eq_3)
  next
    case False
    let ?s2 = "after_tokens (key_token p k # jtoks ?q v) (int i) ExpKey st"
    have "toksuper ?s1 = int i \<or> tok_at (toks ?s1) (toksuper ?s1) \<noteq> None \<and> \<not> is_container (super_kind ?s1)"
      by (simp add: tok_at_def super_kind_def is_container_def nth_append)
    then have "parse_loop True cap (?q + jlen v) (CHR '','' # jprint_members ms @ rest) ?s1 =
        parse_loop True cap (Suc (?q + jlen v)) (jprint_members ms @ rest) ?s2"
      using comma_step [of ?s1 i True] i1 i2 a(4) by (simp add: nth_append after_tokens_update)
    moreover obtain sp where "parse_loop True cap (Suc (?q + jlen v)) (jprint_members ms @ rest) ?s2 =
        parse_loop True cap (Suc (?q + jlen v) + length (jprint_members ms)) rest
        (after_tokens (jtoks_members (Suc (?q + jlen v)) ms) sp ExpCommaOrClose ?s2)"
      using assms(2) [unfolded members_read_def, rule_format, of rest ?s2 i "Suc (?q + jlen v)"] a False i1 i2
      by (auto simp: nth_append)
    ultimately show ?thesis using one [OF delimited_comma] False
      by (intro exI [of _ sp]) (simp add: algebra_simps numeral_3_eq_3)
  qed
qed

lemma empty_read: "elems_read cap []" "members_read cap []"
  by (simp_all add: elems_read_def members_read_def)

lemma tree_read: "value_read cap v" "elems_read cap vs" "members_read cap ms"
proof (induction v and vs and ms rule: jprint_jprint_elems_jprint_members.induct)
  case (6 v vs)
  then have "elems_read cap vs" using empty_read(1) by (cases "vs = []") blast+
  with 6(1) show ?case by (rule elems_read_Cons)
next
  case (8 k v ms)
  then have "members_read cap ms" using empty_read(2) by (cases "ms = []") blast+
  with 8(1) show ?case by (rule members_read_Cons)
qed (rule empty_read | rule array_read object_read scalar_read, (assumption | simp add: is_node_def))+

text \<open>The strict tokenizer reads the text of an object as the tokens of its tree.\<close>

lemma parse_strict_tree:
  assumes "jval_wf (JObj ms)" "jlen (JObj ms) < UNSET" "jsize (JObj ms) \<le> cap"
  shows "parse_strict cap (jprint (JObj ms)) = Inr (jtoks 0 (JObj ms), jsize (JObj ms))"
proof -
  let ?v = "JObj ms"
  have "reads_value ?v jstate_init" "delimited []" "0 + jlen ?v < UNSET" "length (toks jstate_init) + jsize ?v \<le> cap"
    using assms(2,3) by (simp_all add: reads_value_def delimited_def jstate_init_def)
  then have "parse_loop True cap 0 (jprint ?v @ []) jstate_init = parse_loop True cap (0 + jlen ?v) [] (after_value 0 ?v jstate_init)"
    using tree_read(1) [of cap ?v] assms(1) unfolding value_read_def by blast
  then have "parse_loop True cap 0 (jprint ?v) jstate_init = Inr (after_value 0 ?v jstate_init)"
    by (simp add: parse_loop.simps)
  moreover have "\<not> list_ex is_open (jtoks 0 ?v)"
    using jtoks_closed [of 0 ?v] assms(2) unfolding last_index_None by (auto simp: list_ex_iff list_all_iff)
  ultimately show ?thesis
    by (simp add: parse_strict_def parse_impl_def rbind_def after_value_def jstate_init_def del: jtoks.simps jsize.simps)
qed

end
