(* ===== verification/Json_Nodes.thy ===== *)
theory Json_Nodes
  imports Json_Tree Json
begin

text \<open>
  The nodes of a document that is the text of a tree, and the lookups of \<open>json.rs\<close> on its tokens: they
  are the lookups in the tree. The key integrity check accepts exactly the trees with distinct, plain
  keys in every object.
\<close>

section \<open>Nodes\<close>

text \<open>The value \<open>v\<close> lies at token \<open>i\<close> of a document.\<close>

definition node_at :: "json \<Rightarrow> nat \<Rightarrow> nat \<Rightarrow> jval \<Rightarrow> bool" where
  "node_at j i p v \<longleftrightarrow> (\<exists>pre post b1 b2. tokens j = pre @ jtoks p v @ post \<and> length pre = i \<and>
     buf j = b1 @ jprint v @ b2 \<and> length b1 = p \<and> list_all (\<lambda>t. p + jlen v < tok_start t) post)"

definition node :: "json \<Rightarrow> nat \<Rightarrow> jval \<Rightarrow> bool" where
  "node j i v \<longleftrightarrow> (\<exists>p. node_at j i p v)"

definition json_of :: "jval \<Rightarrow> json" where
  "json_of v = \<lparr> buf = jprint v, tokens = jtoks 0 v \<rparr>"

lemma nodeI: "tokens j = pre @ jtoks p v @ post \<Longrightarrow> length pre = i \<Longrightarrow> buf j = b1 @ jprint v @ b2 \<Longrightarrow>
    length b1 = p \<Longrightarrow> list_all (\<lambda>t. p + jlen v < tok_start t) post \<Longrightarrow> node j i v"
  unfolding node_def node_at_def by blast

lemma root_node: "node (json_of v) 0 v"
  unfolding node_def node_at_def json_of_def by (intro exI [of _ "0"] exI [of _ "[]"]) simp

lemma jsize_pos: "0 < jsize v"
  by (cases v) simp_all

lemma jtoks_Cons: "\<exists>t ts. jtoks p v = t # ts"
  using jsize_pos [of v] length_jtoks(1) [of p v] by (cases "jtoks p v") auto

lemma node_bound: "node j i v \<Longrightarrow> i < json_n j"
  using jsize_pos [of v] by (auto simp: node_def node_at_def json_n_def)

lemma node_at_tok: "node_at j i p v \<Longrightarrow> json_tok j i = hd (jtoks p v)"
  using jtoks_Cons [of p v] by (auto simp: node_at_def json_tok_def nth_append)

lemma node_kind:
  "node j i v \<Longrightarrow> tok_kind (json_tok j i) =
    (case v of JStr _ \<Rightarrow> StringTok | JPrim _ \<Rightarrow> Primitive | JArr _ \<Rightarrow> Array | JObj _ \<Rightarrow> Object)"
  by (cases v) (auto simp: node_def node_at_tok)

text \<open>Texts of nodes.\<close>

lemma token_span_within:
  "b = b1 @ s @ b2 \<Longrightarrow> token_span b \<lparr> tok_kind = k, tok_start = length b1, tok_end = length b1 + length s \<rparr> = s"
  by (simp add: token_span_def)

lemma node_span:
  assumes "node j i v"
  shows "span j i = (case v of JStr s \<Rightarrow> s | _ \<Rightarrow> jprint v)"
proof -
  obtain p where n: "node_at j i p v" using assms by (auto simp: node_def)
  then obtain b1 b2 where b: "buf j = b1 @ jprint v @ b2" "length b1 = p" by (auto simp: node_at_def)
  then have "v = JStr s \<Longrightarrow> buf j = (b1 @ [CHR 0x22]) @ s @ CHR 0x22 # b2" for s by (simp add: quote_def)
  then show ?thesis using token_span_within [of "buf j" "b1 @ [CHR 0x22]"] token_span_within [OF b(1)] b(2)
    by (cases v) (auto simp: span_def node_at_tok [OF n] simp del: jprint.simps(3,4))
qed

lemma tok_len_eq: "tok_end t = tok_start t + n \<Longrightarrow> tok_len t = u16 n"
  by (simp add: tok_len_def u16_def)

lemma node_len:
  assumes "node j i v"
  shows "tok_len (json_tok j i) = u16 (length (span j i))"
proof -
  obtain p where "node_at j i p v" using assms by (auto simp: node_def)
  then show ?thesis using node_at_tok node_span [OF assms] by (intro tok_len_eq) (cases v; simp)
qed

section \<open>Children\<close>

fun key_indexes :: "nat \<Rightarrow> (bytes \<times> jval) list \<Rightarrow> nat list" where
  "key_indexes i [] = []"
| "key_indexes i (m # ms) = i # key_indexes (i + Suc (jsize (snd m))) ms"

fun elem_indexes :: "nat \<Rightarrow> jval list \<Rightarrow> nat list" where
  "elem_indexes i [] = []"
| "elem_indexes i (v # vs) = i # elem_indexes (i + jsize v) vs"

lemma length_key_indexes [simp]: "length (key_indexes i ms) = length ms"
  by (induction ms arbitrary: i) simp_all

lemma length_elem_indexes [simp]: "length (elem_indexes i vs) = length vs"
  by (induction vs arbitrary: i) simp_all

text \<open>The walks of the lookups skip the inside of a value and stop behind the container.\<close>

lemma keys_from_skip:
  "list_all (\<lambda>t. tok_start t \<le> pv \<and> tok_start t \<le> oe) ts \<Longrightarrow>
   keys_from oe pv ti (ts @ r) = keys_from oe pv (ti + length ts) r"
proof (induction ts arbitrary: ti)
  case (Cons t ts)
  show ?case
  proof (cases "ts @ r")
    case (Cons x xs)
    then show ?thesis using Cons.IH [of "Suc ti"] Cons.prems by simp
  qed simp
qed simp

lemma elements_from_skip:
  "list_all (\<lambda>t. tok_start t \<le> pv \<and> tok_start t \<le> oe) ts \<Longrightarrow>
   elements_from oe pv ti (ts @ r) = elements_from oe pv (ti + length ts) r"
  by (induction ts arbitrary: ti) auto

lemma walk_behind:
  "list_all (\<lambda>t. oe < tok_start t) post \<Longrightarrow> keys_from oe pv ti post = []"
  "list_all (\<lambda>t. oe < tok_start t) post \<Longrightarrow> elements_from oe pv ti post = []"
  by (cases post; cases "tl post"; auto)+

lemma value_skipped:
  assumes "q + jlen v \<le> oe" "jtoks q v = t # ts"
  shows "list_all (\<lambda>x. tok_start x \<le> tok_end t \<and> tok_start x \<le> oe) (jtoks q v)"
proof -
  have "tok_start x \<le> tok_end t" if "x \<in> set (jtoks q v)" for x
  proof (cases v)
    case (JArr vs)
    then show ?thesis using jtoks_range(1) [OF that] assms(2) by auto
  next
    case (JObj ms)
    then show ?thesis using jtoks_range(1) [OF that] assms(2) by auto
  qed (use assms(2) that in auto)
  then show ?thesis using jtoks_range(1) [of _ q v] assms(1) by (fastforce simp: list_all_iff)
qed

lemma keys_from_members:
  "pv \<le> p \<Longrightarrow> p + length (jprint_members ms) \<le> oe \<Longrightarrow> list_all (\<lambda>t. oe < tok_start t) post \<Longrightarrow>
   keys_from oe pv ti (jtoks_members p ms @ post) = key_indexes ti ms"
proof (induction ms arbitrary: pv p ti)
  case Nil
  then show ?case by (simp add: walk_behind)
next
  case (Cons m ms)
  obtain k v where m: "m = (k, v)" by fastforce
  let ?q = "p + length k + 3"
  obtain t ts where t: "jtoks ?q v = t # ts" using jtoks_Cons by blast
  have e: "?q + jlen v \<le> oe" using Cons.prems(2) by (simp add: m split: if_splits)
  have "tok_end t \<le> ?q + jlen v" using jtoks_range(1) [of t ?q v] t by simp
  have "keys_from oe (tok_end t) (Suc ti) (jtoks ?q v @ jtoks_members (?q + jlen v + 1) ms @ post) =
      keys_from oe (tok_end t) (Suc ti + jsize v) (jtoks_members (?q + jlen v + 1) ms @ post)"
    using keys_from_skip [OF value_skipped [OF e t]] by simp
  also have "\<dots> = key_indexes (Suc ti + jsize v) ms"
  proof (cases "ms = []")
    case True
    then show ?thesis using Cons.prems(3) by (simp add: walk_behind)
  next
    case False
    then show ?thesis using Cons.IH [of "tok_end t" "?q + jlen v + 1"] Cons.prems \<open>tok_end t \<le> ?q + jlen v\<close>
      by (simp add: m algebra_simps numeral_3_eq_3)
  qed
  finally have "keys_from oe (tok_end t) (Suc ti) (t # ts @ jtoks_members (?q + jlen v + 1) ms @ post) =
      key_indexes (Suc ti + jsize v) ms" by (simp add: t)
  then show ?case using Cons.prems(1) e by (simp add: m t)
qed

lemma elements_from_elems:
  "pv < p \<Longrightarrow> p + length (jprint_elems vs) \<le> oe \<Longrightarrow> list_all (\<lambda>t. oe < tok_start t) post \<Longrightarrow>
   elements_from oe pv ti (jtoks_elems p vs @ post) = elem_indexes ti vs"
proof (induction vs arbitrary: pv p ti)
  case Nil
  then show ?case by (simp add: walk_behind)
next
  case (Cons v vs)
  obtain t ts where t: "jtoks p v = t # ts" using jtoks_Cons by blast
  have e: "p + jlen v \<le> oe" using Cons.prems(2) by (simp split: if_splits)
  have r: "tok_end t \<le> p + jlen v" "p \<le> tok_start t" "tok_start t \<le> tok_end t"
    using jtoks_range(1) [of t p v] t by simp_all
  have "elements_from oe (tok_end t) (Suc ti) (ts @ jtoks_elems (p + jlen v + 1) vs @ post) =
      elements_from oe (tok_end t) (ti + jsize v) (jtoks_elems (p + jlen v + 1) vs @ post)"
    using elements_from_skip [of "tok_end t" oe ts "Suc ti"] value_skipped [OF e t] length_jtoks(1) [of p v, symmetric] t by simp
  also have "\<dots> = elem_indexes (ti + jsize v) vs"
  proof (cases "vs = []")
    case True
    then show ?thesis using Cons.prems(3) by (simp add: walk_behind)
  next
    case False
    then show ?thesis using Cons.IH [of "tok_end t" "p + jlen v + 1"] Cons.prems r by simp
  qed
  finally show ?case using Cons.prems(1) e r by (simp add: t)
qed

lemma node_object_keys:
  assumes "node j i (JObj ms)"
  shows "object_keys j i = key_indexes (Suc i) ms"
proof -
  obtain p where n: "node_at j i p (JObj ms)" using assms by (auto simp: node_def)
  then obtain post where "drop (Suc i) (tokens j) = jtoks_members (Suc p) ms @ post"
    "list_all (\<lambda>t. p + jlen (JObj ms) < tok_start t) post" by (auto simp: node_at_def)
  then show ?thesis using keys_from_members [of p "Suc p" ms "p + jlen (JObj ms)" post "Suc i"]
    by (simp add: object_keys_def node_at_tok [OF n] Let_def)
qed

lemma node_array_elements:
  assumes "node j i (JArr vs)"
  shows "array_elements j i = elem_indexes (Suc i) vs"
proof -
  obtain p where n: "node_at j i p (JArr vs)" using assms by (auto simp: node_def)
  then obtain post where "drop (Suc i) (tokens j) = jtoks_elems (Suc p) vs @ post"
    "list_all (\<lambda>t. p + jlen (JArr vs) < tok_start t) post" by (auto simp: node_at_def)
  then show ?thesis using elements_from_elems [of p "Suc p" vs "p + jlen (JArr vs)" post "Suc i"]
    by (simp add: array_elements_def node_at_tok [OF n] Let_def)
qed

text \<open>A string at token \<open>i\<close>: keys, whose tokens are those of string values.\<close>

lemma members_nodes:
  "tokens j = pre @ jtoks_members p ms @ post \<Longrightarrow> length pre = i \<Longrightarrow>
   buf j = b1 @ jprint_members ms @ b2 \<Longrightarrow> length b1 = p \<Longrightarrow>
   list_all (\<lambda>t. p + length (jprint_members ms) < tok_start t) post \<Longrightarrow> n < length ms \<Longrightarrow>
   node j (Suc (key_indexes i ms ! n)) (snd (ms ! n)) \<and> node j (key_indexes i ms ! n) (JStr (fst (ms ! n)))"
proof (induction ms arbitrary: pre p i b1 n)
  case (Cons m ms)
  obtain k v where m: "m = (k, v)" by fastforce
  let ?key = "\<lparr> tok_kind = StringTok, tok_start = p + 1, tok_end = p + 1 + length k \<rparr>"
  let ?q = "p + length k + 3"
  let ?rest = "jtoks_members (?q + jlen v + 1) ms @ post"
  have t: "tokens j = pre @ ?key # jtoks ?q v @ ?rest" using Cons.prems(1) by (simp add: m)
  have r: "list_all (\<lambda>t. ?q + jlen v < tok_start t) ?rest"
    using jtoks_range(3) [of _ "?q + jlen v + 1" ms] Cons.prems(5) by (fastforce simp: m list_all_iff split: if_splits)
  have b: "buf j = b1 @ quote k @ CHR '':'' # jprint v @ (if ms = [] then b2 else CHR '','' # jprint_members ms @ b2)"
    using Cons.prems(3) by (simp add: m)
  have v: "node j (Suc i) v"
    using t r b Cons.prems(2,4) by (intro nodeI [of j "pre @ [?key]" ?q v ?rest _ "b1 @ quote k @ '':''"
        "if ms = [] then b2 else CHR '','' # jprint_members ms @ b2"]) simp_all
  have "\<forall>t \<in> set (jtoks ?q v). p + jlen (JStr k) < tok_start t" using jtoks_range(1) [of _ ?q v] by force
  then have "list_all (\<lambda>t. p + jlen (JStr k) < tok_start t) (jtoks ?q v @ ?rest)"
    using list.pred_mono_strong [OF r, of "\<lambda>t. p + jlen (JStr k) < tok_start t"] by (auto simp: list_all_iff)
  then have k: "node j i (JStr k)"
    using t b Cons.prems(2,4) by (intro nodeI [of j pre p "JStr k" "jtoks ?q v @ ?rest" _ b1
        "CHR '':'' # jprint v @ (if ms = [] then b2 else CHR '','' # jprint_members ms @ b2)"]) simp_all
  show ?case
  proof (cases n)
    case 0
    then show ?thesis using v k by (simp add: m)
  next
    case (Suc n')
    then have "ms \<noteq> []" using Cons.prems(6) by auto
    then show ?thesis
      using Cons.IH [of "pre @ ?key # jtoks ?q v" "?q + jlen v + 1" "i + Suc (jsize v)" "b1 @ quote k @ '':'' @ jprint v @ '',''" n']
        t b r Cons.prems Suc by (simp add: m numeral_3_eq_3 add.assoc)
  qed
qed simp

lemma elems_nodes:
  "tokens j = pre @ jtoks_elems p vs @ post \<Longrightarrow> length pre = i \<Longrightarrow>
   buf j = b1 @ jprint_elems vs @ b2 \<Longrightarrow> length b1 = p \<Longrightarrow>
   list_all (\<lambda>t. p + length (jprint_elems vs) < tok_start t) post \<Longrightarrow> n < length vs \<Longrightarrow>
   node j (elem_indexes i vs ! n) (vs ! n)"
proof (induction vs arbitrary: pre p i b1 n)
  case (Cons v vs)
  let ?rest = "jtoks_elems (p + jlen v + 1) vs @ post"
  have t: "tokens j = pre @ jtoks p v @ ?rest" using Cons.prems(1) by simp
  have r: "list_all (\<lambda>t. p + jlen v < tok_start t) ?rest"
    using jtoks_range(2) [of _ "p + jlen v + 1" vs] Cons.prems(5) by (fastforce simp: list_all_iff split: if_splits)
  have b: "buf j = b1 @ jprint v @ (if vs = [] then b2 else CHR '','' # jprint_elems vs @ b2)"
    using Cons.prems(3) by simp
  show ?case
  proof (cases n)
    case 0
    then show ?thesis using nodeI [OF t _ b] r Cons.prems(2,4) by simp
  next
    case (Suc n')
    then have "vs \<noteq> []" using Cons.prems(6) by auto
    then show ?thesis
      using Cons.IH [of "pre @ jtoks p v" "p + jlen v + 1" "i + jsize v" "b1 @ jprint v @ '',''" n'] t b Cons.prems Suc
      by (simp add: add.assoc)
  qed
qed simp

lemma object_children:
  assumes "node j i (JObj ms)" "n < length ms"
  shows "node j (Suc (key_indexes (Suc i) ms ! n)) (snd (ms ! n)) \<and> node j (key_indexes (Suc i) ms ! n) (JStr (fst (ms ! n)))"
proof -
  obtain p pre post b1 b2 where n: "tokens j = pre @ jtoks p (JObj ms) @ post" "length pre = i"
    "buf j = b1 @ jprint (JObj ms) @ b2" "length b1 = p" "list_all (\<lambda>t. p + jlen (JObj ms) < tok_start t) post"
    using assms(1) by (auto simp: node_def node_at_def)
  then have "list_all (\<lambda>t. Suc p + length (jprint_members ms) < tok_start t) post" by (auto simp: list_all_iff)
  then show ?thesis using members_nodes [of j "pre @ [hd (jtoks p (JObj ms))]" "Suc p" ms post "Suc i" "b1 @ ''{''" "''}'' @ b2" n] n assms(2)
    by simp
qed

lemma array_children:
  assumes "node j i (JArr vs)" "n < length vs"
  shows "node j (elem_indexes (Suc i) vs ! n) (vs ! n)"
proof -
  obtain p pre post b1 b2 where n: "tokens j = pre @ jtoks p (JArr vs) @ post" "length pre = i"
    "buf j = b1 @ jprint (JArr vs) @ b2" "length b1 = p" "list_all (\<lambda>t. p + jlen (JArr vs) < tok_start t) post"
    using assms(1) by (auto simp: node_def node_at_def)
  then have "list_all (\<lambda>t. Suc p + length (jprint_elems vs) < tok_start t) post" by (auto simp: list_all_iff)
  then show ?thesis using elems_nodes [of j "pre @ [hd (jtoks p (JArr vs))]" "Suc p" vs post "Suc i" "b1 @ ''[''" "'']'' @ b2" n] n assms(2)
    by simp
qed

section \<open>Lookups\<close>

text \<open>Looking a key up finds the value the tree has for it, at its token; elements are found by position.\<close>

lemma tree_lookup:
  assumes "json_wf j" "length key < 65536" "node j i (JObj ms)"
  shows "case map_of ms key of None \<Rightarrow> get_value j i key = Inl NoData
    | Some v \<Rightarrow> \<exists>n. get_value j i key = Inr n \<and> node j n v"
proof -
  have keys: "map (span j) (key_indexes (Suc i) ms) = map fst ms"
  proof (rule nth_equalityI)
    fix n assume n: "n < length (map (span j) (key_indexes (Suc i) ms))"
    then have "node j (key_indexes (Suc i) ms ! n) (JStr (fst (ms ! n)))" using object_children [OF assms(3)] by simp
    from node_span [OF this] show "map (span j) (key_indexes (Suc i) ms) ! n = map fst ms ! n" using n by simp
  qed simp
  have find: "get_value j i key = (case List.find (\<lambda>k. span j k = key) (key_indexes (Suc i) ms) of
      None \<Rightarrow> Inl NoData | Some k \<Rightarrow> Inr (Suc k))"
    using get_value_eq [OF assms(1,2), of i] node_bound [OF assms(3)] by (simp add: node_object_keys [OF assms(3)])
  have "case map_of ms key of None \<Rightarrow> List.find (\<lambda>k. span j k = key) ks = None
    | Some v \<Rightarrow> \<exists>k. List.find (\<lambda>k. span j k = key) ks = Some k \<and> node j (Suc k) v"
    if "map (span j) ks = map fst ms" "\<And>n. n < length ms \<Longrightarrow> node j (Suc (ks ! n)) (snd (ms ! n))" for ks ms
    using that
  proof (induction ms arbitrary: ks)
    case (Cons m ms)
    then obtain k ks' where ks: "ks = k # ks'" by (cases ks) auto
    have "n < length ms \<Longrightarrow> node j (Suc (ks' ! n)) (snd (ms ! n))" for n using Cons.prems(2) [of "Suc n"] ks by simp
    then show ?case using Cons.IH [of ks'] Cons.prems(1) Cons.prems(2) [of 0] ks
      by (cases m) (auto split: option.splits)
  qed simp
  from this [OF keys] show ?thesis using object_children [OF assms(3)] unfolding find
    by (auto split: option.splits)
qed

lemma tree_element:
  assumes "json_wf j" "node j i (JArr vs)"
  shows "get_count j i = Inr (length vs) \<and>
    (if n < length vs then \<exists>k. get_nth j i n = Inr k \<and> node j k (vs ! n) else get_nth j i n = Inl NoData)"
  using array_children [OF assms(2), of n] doc.elem_nth [OF assms(1), of i n] doc.n_elems_length [OF assms(1), of i]
    node_bound [OF assms(2)] by (auto simp: node_array_elements [OF assms(2)])

section \<open>All nodes\<close>

fun jnodes :: "nat \<Rightarrow> jval \<Rightarrow> (nat \<times> jval) list" and jnodes_elems :: "nat \<Rightarrow> jval list \<Rightarrow> (nat \<times> jval) list"
  and jnodes_members :: "nat \<Rightarrow> (bytes \<times> jval) list \<Rightarrow> (nat \<times> jval) list" where
  "jnodes i (JStr s) = [(i, JStr s)]"
| "jnodes i (JPrim w) = [(i, JPrim w)]"
| "jnodes i (JArr vs) = (i, JArr vs) # jnodes_elems (Suc i) vs"
| "jnodes i (JObj ms) = (i, JObj ms) # jnodes_members (Suc i) ms"
| "jnodes_elems i [] = []"
| "jnodes_elems i (v # vs) = jnodes i v @ jnodes_elems (i + jsize v) vs"
| "jnodes_members i [] = []"
| "jnodes_members i ((k, v) # ms) = (i, JStr k) # jnodes (Suc i) v @ jnodes_members (i + Suc (jsize v)) ms"

lemma upt_front: "[i..<i + Suc n] = i # [Suc i..<Suc i + n]"
  by (simp add: upt_conv_Cons del: upt_Suc)

lemma upt_parts: "[i..<i + (m + n)] = [i..<i + m] @ [i + m..<i + m + n]"
  unfolding add.assoc [symmetric] by (rule upt_add_eq_append) simp

lemma jnodes_indexes:
  "map fst (jnodes i v) = [i..<i + jsize v]"
  "map fst (jnodes_elems i vs) = [i..<i + sum_list (map jsize vs)]"
  "map fst (jnodes_members i ms) = [i..<i + sum_list (map (\<lambda>m. Suc (jsize (snd m))) ms)]"
proof (induction i v and i vs and i ms rule: jnodes_jnodes_elems_jnodes_members.induct)
  case (6 i v vs)
  then show ?case using upt_parts [of i "jsize v"] by (simp del: upt_Suc)
next
  case (8 i k v ms)
  then show ?case using upt_front [of i "jsize v + (\<Sum>m\<leftarrow>ms. Suc (jsize (snd m)))"]
    upt_parts [of "Suc i" "jsize v" "\<Sum>m\<leftarrow>ms. Suc (jsize (snd m))"] by (simp del: upt_Suc)
next
  case (3 i vs)
  then show ?case using upt_front [of i "sum_list (map jsize vs)"] by (simp del: upt_Suc)
next
  case (4 i ms)
  then show ?case using upt_front [of i "\<Sum>m\<leftarrow>ms. Suc (jsize (snd m))"] by (simp del: upt_Suc)
qed simp_all

lemma jnodes_are_nodes:
  "node j i v \<Longrightarrow> x \<in> set (jnodes i v) \<Longrightarrow> node j (fst x) (snd x)"
  "(\<And>n. n < length vs \<Longrightarrow> node j (elem_indexes k vs ! n) (vs ! n)) \<Longrightarrow> x \<in> set (jnodes_elems k vs) \<Longrightarrow> node j (fst x) (snd x)"
  "(\<And>n. n < length ms \<Longrightarrow> node j (Suc (key_indexes l ms ! n)) (snd (ms ! n)) \<and> node j (key_indexes l ms ! n) (JStr (fst (ms ! n)))) \<Longrightarrow>
   x \<in> set (jnodes_members l ms) \<Longrightarrow> node j (fst x) (snd x)"
proof (induction i v and k vs and l ms rule: jnodes_jnodes_elems_jnodes_members.induct)
  case (3 i vs)
  then show ?case using array_children [OF 3(2)] by auto
next
  case (4 i ms)
  then show ?case using object_children [OF 4(2)] by auto
next
  case (6 i v vs)
  have "node j i v" using 6(3) [of 0] by simp
  moreover have "\<And>n. n < length vs \<Longrightarrow> node j (elem_indexes (i + jsize v) vs ! n) (vs ! n)" using 6(3) [of "Suc n" for n] by simp
  ultimately show ?case using 6(1,2,4) by auto
next
  case (8 i k v ms)
  have "node j (Suc i) v" "node j i (JStr k)" using 8(3) [of 0] by simp_all
  moreover have "\<And>n. n < length ms \<Longrightarrow> node j (Suc (key_indexes (i + Suc (jsize v)) ms ! n)) (snd (ms ! n)) \<and>
      node j (key_indexes (i + Suc (jsize v)) ms ! n) (JStr (fst (ms ! n)))" using 8(3) [of "Suc n" for n] by simp
  ultimately show ?case using 8(1,2,4) by auto
qed auto

text \<open>The documents of trees are well formed.\<close>

lemma jsize_le:
  "jval_wf v \<Longrightarrow> jsize v \<le> jlen v"
  "list_all jval_wf vs \<Longrightarrow> sum_list (map jsize vs) \<le> length (jprint_elems vs)"
  "list_all (\<lambda>m. jval_wf (snd m)) ms \<Longrightarrow> (\<Sum>m\<leftarrow>ms. Suc (jsize (snd m))) \<le> length (jprint_members ms)"
proof (induction v and vs and ms rule: jprint_jprint_elems_jprint_members.induct)
  case (2 w)
  then show ?case by (cases w) auto
qed (auto simp: list_all_iff)

lemma json_of_wf:
  assumes "jval_wf (JObj ms)" "jlen (JObj ms) < UNSET"
  shows "json_wf (json_of (JObj ms))"
  using parse_impl_wf [of True "jsize (JObj ms)" "jprint (JObj ms)" "jtoks 0 (JObj ms)"]
    parse_strict_tree [OF assms order.refl] assms(2) jsize_le(1) [OF assms(1)]
  by (simp add: parse_strict_def json_of_def json_wf_def del: jtoks.simps jprint.simps jsize.simps)

lemma json_of_n: "json_n (json_of v) = jsize v"
  by (simp add: json_n_def json_of_def)

text \<open>Key integrity is distinct keys without escapes in every object of the tree.\<close>

fun jkeys_plain :: "jval \<Rightarrow> bool" where
  "jkeys_plain (JStr s) = True"
| "jkeys_plain (JPrim w) = True"
| "jkeys_plain (JArr vs) = list_all jkeys_plain vs"
| "jkeys_plain (JObj ms) = (distinct (map fst ms) \<and> list_all (\<lambda>m. CHR 0x5C \<notin> set (fst m) \<and> jkeys_plain (snd m)) ms)"

definition members_plain :: "jval \<Rightarrow> bool" where
  "members_plain v = (case v of JObj ms \<Rightarrow> distinct (map fst ms) \<and> list_all (\<lambda>m. CHR 0x5C \<notin> set (fst m)) ms | _ \<Rightarrow> True)"

lemma jkeys_plain_nodes:
  "jkeys_plain v \<longleftrightarrow> list_all (\<lambda>x. members_plain (snd x)) (jnodes i v)"
  "list_all jkeys_plain vs \<longleftrightarrow> list_all (\<lambda>x. members_plain (snd x)) (jnodes_elems k vs)"
  "list_all (\<lambda>m. jkeys_plain (snd m)) ms \<longleftrightarrow> list_all (\<lambda>x. members_plain (snd x)) (jnodes_members l ms)"
  by (induction i v and k vs and l ms rule: jnodes_jnodes_elems_jnodes_members.induct)
     (auto simp: members_plain_def list_all_iff)

lemma node_keys_ok:
  assumes "node j i (JObj ms)"
  shows "keys_ok j i \<longleftrightarrow> members_plain (JObj ms)"
proof -
  have "map (span j) (key_indexes (Suc i) ms) = map fst ms"
    using object_children [OF assms] node_span by (intro nth_equalityI) fastforce+
  moreover from arg_cong [OF this, of "list_all (\<lambda>b. CHR 0x5C \<notin> set b)"]
  have "list_all (\<lambda>k. CHR 0x5C \<notin> set (span j k)) (key_indexes (Suc i) ms) = list_all (\<lambda>m. CHR 0x5C \<notin> set (fst m)) ms"
    by (simp add: list.pred_map o_def)
  ultimately show ?thesis
    by (simp only: keys_ok_def members_plain_def node_object_keys [OF assms] jval.case)
qed

lemma tree_integrity: "check_key_integrity (json_of v) = Inr () \<longleftrightarrow> jkeys_plain v"
proof -
  let ?j = "json_of v"
  note nodes = jnodes_are_nodes(1) [OF root_node [of v]]
  have ix: "fst ` set (jnodes 0 v) = {0..<jsize v}" using jnodes_indexes(1) [of 0 v] by (metis list.set_map set_upt add_0)
  have one: "(tok_kind (json_tok ?j (fst x)) = Object \<longrightarrow> keys_ok ?j (fst x)) \<longleftrightarrow> members_plain (snd x)"
    if "x \<in> set (jnodes 0 v)" for x
    using node_kind [OF nodes [OF that]] node_keys_ok nodes [OF that] by (cases "snd x") (auto simp: members_plain_def)
  have "check_key_integrity ?j = Inr () \<longleftrightarrow>
      (\<forall>ob \<in> fst ` set (jnodes 0 v). tok_kind (json_tok ?j ob) = Object \<longrightarrow> keys_ok ?j ob)"
    by (auto simp: check_key_integrity_iff json_of_n ix)
  also have "\<dots> \<longleftrightarrow> list_all (\<lambda>x. members_plain (snd x)) (jnodes 0 v)" using one by (auto simp: list_all_iff)
  finally show ?thesis using jkeys_plain_nodes(1) by blast
qed

end
