(* ===== verification/Tree_Documents.thy ===== *)
theory Tree_Documents
  imports Parser Json_Nodes
begin

text \<open>
  Documents that are the text of a tree: \<open>read_json\<close> reads them, and refuses them exactly for their keys.
\<close>

lemma string_body_no_NUL: "string_body s \<Longrightarrow> NUL \<notin> set s"
proof (induction s rule: string_body.induct)
  case (2 c cs)
  have h: "\<not> is_hex NUL" by (simp add: is_hex_def is_ascii_hexdigit_def is_ascii_digit_def NUL_def)
  have e: "NUL \<notin> set escapes" "NUL \<noteq> CHR 0x5C" "NUL \<noteq> CHR ''u''" by (simp_all add: escapes_def NUL_def)
  show ?case
  proof (cases "c = CHR 0x5C")
    case True
    then obtain d ds where cs: "cs = d # ds" using 2(4) by (cases cs) auto
    show ?thesis
    proof (cases "d \<in> set escapes")
      case False
      then obtain h1 h2 h3 h4 rest where "d = CHR ''u''" "ds = h1 # h2 # h3 # h4 # rest" "string_body rest"
        "is_hex h1" "is_hex h2" "is_hex h3" "is_hex h4"
        using 2(4) True cs by (auto split: if_splits list.splits)
      then show ?thesis using 2(2) True cs False h e by auto
    qed (use 2 True cs e in auto)
  qed (use 2 in auto)
qed simp

lemma jprint_no_NUL:
  "jval_wf v \<Longrightarrow> NUL \<notin> set (jprint v)"
  "list_all jval_wf vs \<Longrightarrow> NUL \<notin> set (jprint_elems vs)"
  "list_all (\<lambda>m. string_body (fst m) \<and> jval_wf (snd m)) ms \<Longrightarrow> NUL \<notin> set (jprint_members ms)"
proof (induction v and vs and ms rule: jprint_jprint_elems_jprint_members.induct)
  case (2 w)
  then show ?case by (auto simp: list_all_iff word_byte_def)
qed (auto simp: quote_def NUL_def dest: string_body_no_NUL)

lemma read_json_tree:
  assumes "jval_wf (JObj ms)" "jlen (JObj ms) < UNSET" "jsize (JObj ms) \<le> cap"
  shows "read_json cap (jprint (JObj ms)) ps =
    (check_key_integrity (json_of (JObj ms)),
     ps \<lparr> p_tokens := jtoks 0 (JObj ms), json_len := jlen (JObj ms) \<rparr>)"
proof -
  let ?v = "JObj ms"
  have "take (jsize ?v) (jtoks 0 ?v) = jtoks 0 ?v" using length_jtoks(1) [of 0 ?v] by simp
  moreover have "hd (jtoks 0 ?v) = \<lparr> tok_kind = Object, tok_start = 0, tok_end = jlen ?v \<rparr>" "jtoks 0 ?v \<noteq> []" by simp_all
  ultimately show ?thesis using parse_strict_tree [OF assms] jprint_no_NUL(1) [OF assms(1)] jsize_pos [of ?v]
    by (simp add: read_json_def Let_def parsed_json_def json_of_def del: jtoks.simps jprint.simps jsize.simps)
qed

end
