(* ===== verification/Transfer_Tree.thy ===== *)
theory Transfer_Tree
  imports Structured_Transfer Tree_Documents Checks_Props
begin

text \<open>
  The template of a structured transfer as a tree: the text that \<open>transfer::build\<close> writes is a compact
  JSON document, whatever the accepted fields, and the values of the fields are its leaves.
\<close>

section \<open>Strings\<close>

lemma string_body_append: "string_body a \<Longrightarrow> string_body b \<Longrightarrow> string_body (a @ b)"
proof (induction a rule: string_body.induct)
  case (2 c cs)
  show ?case
  proof (cases "c = CHR 0x5C")
    case True
    then obtain d ds where cs: "cs = d # ds" using 2(4) by (cases cs) auto
    show ?thesis
    proof (cases "d \<in> set escapes")
      case False
      then obtain h1 h2 h3 h4 rest where "d = CHR ''u''" "ds = h1 # h2 # h3 # h4 # rest" "string_body rest"
        "is_hex h1" "is_hex h2" "is_hex h3" "is_hex h4"
        using 2(4) True cs by (auto split: if_splits list.splits)
      then show ?thesis using 2(2) 2(5) True cs False by auto
    qed (use 2 True cs in auto)
  qed (use 2 in auto)
qed simp

lemma safe_string: "list_all safe_byte s \<Longrightarrow> string_body s"
  by (induction s) (auto simp: safe_byte_def)

lemma BQ_body: "string_body BQ"
  by (simp add: BQ_def escapes_def)

section \<open>The tree\<close>

definition is_coin :: "bytes list \<Rightarrow> bool" where
  "is_coin f \<longleftrightarrow> f ! NAMESPACE = [] \<or> f ! MODULE = []"

definition transfer_fun :: "nat \<Rightarrow> bytes" where
  "transfer_fun ty = (if ty = TX_TYPE_TRANSFER then ''.transfer''
     else if ty = TX_TYPE_TRANSFER_CREATE then ''.transfer-create'' else ''.transfer-crosschain'')"

definition transfer_code :: "bytes list \<Rightarrow> nat \<Rightarrow> bytes \<Rightarrow> bytes" where
  "transfer_code f ty addr = ''('' @ concat (nsmod f) @ transfer_fun ty @ '' '' @ BQ @ ''k:'' @ addr @ BQ @ '' '' @ BQ @
     ''k:'' @ f ! RECIPIENT @ BQ @ (if ty \<noteq> TX_TYPE_TRANSFER then '' (read-keyset '' @ BQ @ ''ks'' @ BQ @ '')'' else []) @
     (if ty = TX_TYPE_TRANSFER_CROSSCHAIN then '' '' @ BQ @ f ! RECIPIENT_CHAIN @ BQ else []) @ '' '' @ f ! AMOUNT @ '')''"

definition transfer_data :: "bytes list \<Rightarrow> nat \<Rightarrow> jval" where
  "transfer_data f ty = JObj (if ty = TX_TYPE_TRANSFER then []
     else [(''ks'', JObj [(''pred'', JStr ''keys-all''), (''keys'', JArr [JStr (f ! RECIPIENT)])])])"

definition transfer_args :: "bytes list \<Rightarrow> nat \<Rightarrow> bytes \<Rightarrow> jval list" where
  "transfer_args f ty addr = [JStr (''k:'' @ addr), JStr (''k:'' @ f ! RECIPIENT), JPrim (f ! AMOUNT)] @
     (if ty = TX_TYPE_TRANSFER_CROSSCHAIN then [JStr (f ! RECIPIENT_CHAIN)] else [])"

definition transfer_cap :: "bytes list \<Rightarrow> nat \<Rightarrow> bytes \<Rightarrow> jval" where
  "transfer_cap f ty addr = JObj [(''args'', JArr (transfer_args f ty addr)), (''name'', JStr (concat (nsmod f) @ ''.TRANSFER'' @
     (if ty = TX_TYPE_TRANSFER_CROSSCHAIN then ''_XCHAIN'' else [])))]"

definition gas_cap :: jval where
  "gas_cap = JObj [(''args'', JArr []), (''name'', JStr ''coin.GAS'')]"

definition transfer_signer :: "bytes list \<Rightarrow> nat \<Rightarrow> bytes \<Rightarrow> jval" where
  "transfer_signer f ty addr = JObj [(''pubKey'', JStr addr), (''clist'', JArr [transfer_cap f ty addr, gas_cap])]"

definition meta_members :: "bytes list \<Rightarrow> bytes \<Rightarrow> (bytes \<times> jval) list" where
  "meta_members f addr = [(''creationTime'', JPrim (f ! CREATION_TIME)), (''ttl'', JPrim (f ! TTL)),
     (''gasLimit'', JPrim (f ! GAS_LIMIT)), (''chainId'', JStr (f ! CHAIN_ID)), (''gasPrice'', JPrim (f ! GAS_PRICE)),
     (''sender'', JStr (''k:'' @ addr))]"

definition transfer_members :: "bytes list \<Rightarrow> nat \<Rightarrow> bytes \<Rightarrow> (bytes \<times> jval) list" where
  "transfer_members f ty addr = [(''networkId'', JStr (f ! NETWORK)),
     (''payload'', JObj [(''exec'', JObj [(''data'', transfer_data f ty), (''code'', JStr (transfer_code f ty addr))])]),
     (''signers'', JArr [transfer_signer f ty addr]), (''meta'', JObj (meta_members f addr)), (''nonce'', JStr (f ! NONCE))]"

abbreviation transfer_tree :: "bytes list \<Rightarrow> nat \<Rightarrow> bytes \<Rightarrow> jval" where
  "transfer_tree f ty addr \<equiv> JObj (transfer_members f ty addr)"

lemmas tree_defs = transfer_members_def meta_members_def transfer_signer_def gas_cap_def transfer_cap_def
  transfer_args_def transfer_data_def

lemma template_is_tree:
  "ty \<in> {TX_TYPE_TRANSFER, TX_TYPE_TRANSFER_CREATE, TX_TYPE_TRANSFER_CROSSCHAIN} \<Longrightarrow>
   concat (format_pieces f ty addr) = jprint (transfer_tree f ty addr)"
  by (auto simp: format_pieces_def tree_defs transfer_code_def transfer_fun_def quote_def BQ_def tx_type_defs)

section \<open>It is well formed\<close>

lemma digit_word: "is_ascii_digit b \<Longrightarrow> word_byte b"
  by (auto simp: is_ascii_digit_def word_byte_def prim_delims_def)

lemma digits_word: "list_all is_ascii_digit v \<Longrightarrow> list_all word_byte v"
  by (auto simp: list_all_iff digit_word)

lemma digit_start: "is_ascii_digit b \<Longrightarrow> word_start b"
  by (auto simp: is_ascii_digit_def word_start_def)

lemma punct_word: "word_byte (CHR ''.'')" "word_byte (CHR ''e'')" "word_byte (CHR ''E'')" "word_byte (CHR ''+'')" "word_byte (CHR ''-'')"
  by (simp_all add: word_byte_def prim_delims_def)

definition word_ok :: "bytes \<Rightarrow> bool" where
  "word_ok w \<longleftrightarrow> w \<noteq> [] \<and> list_all word_byte w \<and> word_start (hd w)"

lemma decimal_word: "is_decimal w \<Longrightarrow> word_ok w"
proof -
  assume "is_decimal w"
  then obtain a b where w: "w = a \<or> w = a @ CHR ''.'' # b" "all_digits a" "w = a \<or> all_digits b"
    unfolding is_decimal_iff decimal_text_def by blast
  then have "list_all word_byte w" using digits_word punct_word by (auto simp: all_digits_def)
  moreover have "w \<noteq> [] \<and> is_ascii_digit (hd w)" using w(1,2) by (cases a) (auto simp: all_digits_def)
  ultimately show "word_ok w" using digit_start by (simp add: word_ok_def)
qed

lemma json_number_word:
  assumes "is_json_number w"
  shows "word_ok w"
proof (cases "list_ex is_exp_char w")
  case True
  then obtain a x t where v: "w = a @ x # t" "is_exp_char x" "\<forall>y \<in> set a. \<not> is_exp_char y"
    by (auto simp: list_ex_iff dest!: split_list_first_prop)
  with assms have "is_decimal a"
    and "digits_p (if t \<noteq> [] \<and> (hd t = CHR ''+'' \<or> hd t = CHR ''-'') then tl t else t) = Some []"
    using is_json_number_exp by simp_all
  moreover from this(2) have "list_all word_byte t"
    by (cases t) (auto simp: digits_p_all punct_word all_digits_def digit_word dest: digits_word split: if_splits)
  moreover have "word_byte x" using v(2) by (auto simp: is_exp_char_def punct_word)
  ultimately show ?thesis using v(1) decimal_word by (simp add: word_ok_def)
qed (use assms decimal_word in \<open>simp add: is_json_number_def\<close>)

text \<open>What the checks of \<open>build\<close> say of each field.\<close>

lemma contents_fields:
  assumes "contents_ok f ty"
  shows "i < FIELDS \<Longrightarrow> list_all safe_byte (f ! i)"
    and "word_ok (f ! AMOUNT)" "word_ok (f ! GAS_LIMIT)" "word_ok (f ! CREATION_TIME)" "word_ok (f ! TTL)" "word_ok (f ! GAS_PRICE)"
    and "list_all (\<lambda>b. is_ascii_digit b \<or> 97 \<le> byte_val b \<and> byte_val b \<le> 102) (f ! RECIPIENT)"
    and "all_digits (f ! CHAIN_ID)"
    and "ty = TX_TYPE_TRANSFER_CROSSCHAIN \<Longrightarrow> all_digits (f ! RECIPIENT_CHAIN)"
proof -
  have c: "\<And>i. i < FIELDS \<Longrightarrow> field_allowed i (f ! i) ty" using assms by (simp add: contents_ok_def list_all_iff)
  show "i < FIELDS \<Longrightarrow> list_all safe_byte (f ! i)" using c field_allowed_safe by blast
  show "word_ok (f ! AMOUNT)" "word_ok (f ! GAS_LIMIT)" "word_ok (f ! CREATION_TIME)" "word_ok (f ! TTL)" "word_ok (f ! GAS_PRICE)"
    "list_all (\<lambda>b. is_ascii_digit b \<or> 97 \<le> byte_val b \<and> byte_val b \<le> 102) (f ! RECIPIENT)"
    "all_digits (f ! CHAIN_ID)" "ty = TX_TYPE_TRANSFER_CROSSCHAIN \<Longrightarrow> all_digits (f ! RECIPIENT_CHAIN)"
    using c [of AMOUNT] c [of GAS_LIMIT] c [of CREATION_TIME] c [of TTL] c [of GAS_PRICE] c [of RECIPIENT] c [of CHAIN_ID]
      c [of RECIPIENT_CHAIN] decimal_word json_number_word
    by (auto simp: field_allowed_def field_defs FIELDS_def digits_p_all)
qed

lemma hex_lower_lower: "list_all (\<lambda>b. is_ascii_digit b \<or> 97 \<le> byte_val b \<and> byte_val b \<le> 102) (hex_lower pk)"
proof -
  have "list_all (\<lambda>b. is_ascii_digit b \<or> 97 \<le> byte_val b \<and> byte_val b \<le> 102) HEX_LOWER" by code_simp
  then have "i < 16 \<Longrightarrow> is_ascii_digit (HEX_LOWER ! i) \<or> 97 \<le> byte_val (HEX_LOWER ! i) \<and> byte_val (HEX_LOWER ! i) \<le> 102" for i
    by (simp add: list_all_length HEX_LOWER_def)
  moreover have "byte_val b div 16 < 16" for b
    using byte_val_less [of b] by (simp add: less_mult_imp_div_less del: byte_val_less)
  ultimately show ?thesis by (auto simp: hex_lower_def hex_pair_def list_all_iff)
qed

lemma lower_safe: "list_all (\<lambda>b. is_ascii_digit b \<or> 97 \<le> byte_val b \<and> byte_val b \<le> 102) v \<Longrightarrow> list_all safe_byte v"
  unfolding list_all_iff using digit_safe hex_safe by blast

lemma literal_bodies: "list_all string_body [''networkId'', ''payload'', ''exec'', ''data'', ''code'', ''ks'', ''pred'', ''keys'',
    ''keys-all'', ''signers'', ''pubKey'', ''clist'', ''args'', ''name'', ''coin.GAS'', ''meta'', ''creationTime'', ''ttl'',
    ''gasLimit'', ''chainId'', ''gasPrice'', ''sender'', ''nonce'', ''('', '')'', '' '', ''k:'', ''.'', ''coin'', ''.TRANSFER'', ''_XCHAIN'',
    ''.transfer'', ''.transfer-create'', ''.transfer-crosschain'', '' (read-keyset '', []]"
  by code_simp

lemma transfer_tree_wf:
  assumes "contents_ok f ty" "list_all safe_byte addr"
  shows "jval_wf (transfer_tree f ty addr)"
proof -
  note c = contents_fields [OF assms(1)]
  have s: "string_body (f ! i)" if "i < FIELDS" for i using c(1) [OF that] by (rule safe_string)
  note l = literal_bodies [unfolded list.pred_inject]
  have ns: "string_body (concat (nsmod f))"
    using l s [of NAMESPACE] s [of MODULE] by (auto simp: nsmod_def field_defs FIELDS_def intro!: string_body_append)
  have code: "string_body (transfer_code f ty addr)"
    unfolding transfer_code_def transfer_fun_def
    using l ns s [of RECIPIENT] s [of RECIPIENT_CHAIN] s [of AMOUNT] safe_string [OF assms(2)] BQ_body
    by (auto simp: field_defs FIELDS_def intro!: string_body_append)
  show ?thesis using l ns code c(2-6) s [of NETWORK] s [of RECIPIENT] s [of RECIPIENT_CHAIN] s [of CHAIN_ID] s [of NONCE]
      safe_string [OF assms(2)]
    by (auto simp: tree_defs field_defs FIELDS_def word_ok_def intro!: string_body_append)
qed

lemma transfer_tree_keys: "jkeys_plain (transfer_tree f ty addr)"
  by (simp add: tree_defs)

lemma transfer_tree_size: "jsize (transfer_tree f ty addr) \<le> 57"
  by (simp add: tree_defs)

lemma transfer_tree_length:
  assumes "lengths_ok f" "length addr = 64" "ty \<in> {TX_TYPE_TRANSFER, TX_TYPE_TRANSFER_CREATE, TX_TYPE_TRANSFER_CROSSCHAIN}"
  shows "jlen (transfer_tree f ty addr) < UNSET"
  using template_length [OF assms(1,2), of ty] by (simp add: template_is_tree [OF assms(3)] UNSET_def del: jprint.simps)

end
