(* ===== verification/Transfer_Review.thy ===== *)
theory Transfer_Review
  imports Transfer_Tree Parser_Props
begin

text \<open>
  The review of a structured transfer of coins: for all accepted fields it consists of the values of
  the fields, and nothing in it needs blind signing.
\<close>

section \<open>Lookups in the document\<close>

definition transfer_doc :: "json \<Rightarrow> bytes list \<Rightarrow> nat \<Rightarrow> bytes \<Rightarrow> bool" where
  "transfer_doc j f ty addr \<longleftrightarrow> j = json_of (transfer_tree f ty addr) \<and> lengths_ok f \<and> contents_ok f ty \<and>
     ty \<in> {TX_TYPE_TRANSFER, TX_TYPE_TRANSFER_CREATE, TX_TYPE_TRANSFER_CROSSCHAIN} \<and>
     length addr = 64 \<and> list_all (\<lambda>b. is_ascii_digit b \<or> 97 \<le> byte_val b \<and> byte_val b \<le> 102) addr"

lemma transfer_doc_wf:
  assumes "transfer_doc j f ty addr"
  shows "json_wf j" "node j 0 (transfer_tree f ty addr)"
proof -
  have "list_all safe_byte addr" using assms lower_safe by (simp add: transfer_doc_def)
  then show "json_wf j" "node j 0 (transfer_tree f ty addr)"
    using assms root_node json_of_wf transfer_tree_wf transfer_tree_length by (auto simp: transfer_doc_def)
qed

lemma node_value:
  "json_wf j \<Longrightarrow> node j i (JObj ms) \<Longrightarrow> map_of ms key = Some v \<Longrightarrow> length key < 65536 \<Longrightarrow>
   \<exists>n. get_value j i key = Inr n \<and> node j n v"
  using tree_lookup [of j key i ms] by auto

lemma node_no_value:
  "json_wf j \<Longrightarrow> node j i (JObj ms) \<Longrightarrow> map_of ms key = None \<Longrightarrow> length key < 65536 \<Longrightarrow> get_value j i key = Inl NoData"
  using tree_lookup [of j key i ms] by simp

lemma node_element:
  "json_wf j \<Longrightarrow> node j i (JArr vs) \<Longrightarrow> n < length vs \<Longrightarrow> \<exists>k. get_nth j i n = Inr k \<and> node j k (vs ! n)"
  using tree_element [of j i vs n] by auto

lemma node_count: "json_wf j \<Longrightarrow> node j i (JArr vs) \<Longrightarrow> get_count j i = Inr (length vs)"
  using tree_element [of j i vs 0] by simp

lemma node_JStr: "node j i (JStr s) \<Longrightarrow> span j i = s \<and> tok_kind (json_tok j i) = StringTok"
  using node_span node_kind by fastforce

lemma node_JPrim: "node j i (JPrim s) \<Longrightarrow> span j i = s \<and> tok_kind (json_tok j i) = Primitive"
  using node_span node_kind by fastforce

lemma node_not_null: "node j i (JObj ms) \<Longrightarrow> \<not> is_null j i" "node j i (JArr vs) \<Longrightarrow> \<not> is_null j i"
  using node_span by (fastforce simp: is_null_def)+

lemma node_extent: "node j i (JStr s) \<Longrightarrow> int (tok_end (json_tok j i)) - int (tok_start (json_tok j i)) = int (length s)"
  by (auto simp: node_def node_at_tok)

lemma safe_unescaped: "node j i (JStr s) \<Longrightarrow> list_all safe_byte s \<Longrightarrow> shown_unescaped j i = Inr ()"
  using node_JStr by (fastforce simp: shown_unescaped_def list_all_iff safe_byte_def)

lemma node_clist:
  assumes "json_wf j" "node j e (JObj ms)" "map_of ms ''clist'' = Some (JArr vs)" "vs \<noteq> []"
  shows "\<exists>c. get_valid_clist j e = Inr (c, length vs) \<and> node j c (JArr vs) \<and> get_value j e ''clist'' = Inr c"
proof -
  obtain c where c: "get_value j e ''clist'' = Inr c" "node j c (JArr vs)"
    using node_value [OF assms(1-3)] by auto
  then have "object_get_value j e ''clist'' 0 = (Inr (), c)"
    by (cases "object_get_value j e ''clist'' 0"; cases "fst (object_get_value j e ''clist'' 0)") (auto simp: get_value_def)
  then have "get_valid_clist j e = Inr (c, length vs)"
    using node_not_null(2) [OF c(2)] node_count [OF assms(1) c(2)] assms(4)
    by (simp add: get_valid_clist_def get_valid_clist_out_def)
  then show ?thesis using c by blast
qed

section \<open>The texts of a review\<close>

definition entry_text :: "json \<Rightarrow> entry \<Rightarrow> item_key \<times> item_render \<times> bytes option \<times> bool" where
  "entry_text j e = (case e of (k, r, t, d) \<Rightarrow> (k, r, map_option (span j) t, d))"

lemma entry_text_simps [simp]:
  "entry_text j (plain_entry k r) = (k, r, None, True)" "entry_text j (tok_entry k r t) = (k, r, Some (span j t), True)"
  by (simp_all add: entry_text_def plain_entry_def tok_entry_def)

section \<open>The capabilities\<close>

lemma key_principal:
  assumes "length b = 64" "list_all (\<lambda>c. is_ascii_digit c \<or> 97 \<le> byte_val c \<and> byte_val c \<le> 102) b"
  shows "is_principal (''k:'' @ b)"
proof -
  have "list_all is_ascii_hexdigit b"
    using assms(2) by (auto simp: list_all_iff is_ascii_hexdigit_def)
  then show ?thesis using assms(1) by (auto simp: is_principal_grammar principal_grammar_def)
qed

definition transfer_texts :: "bytes list \<Rightarrow> nat \<Rightarrow> bytes \<Rightarrow> (item_key \<times> item_render \<times> bytes option \<times> bool) list" where
  "transfer_texts f ty addr =
     [(KTransfer, if ty = TX_TYPE_TRANSFER_CROSSCHAIN then RCrossTransfer else RTransfer, None, True),
      (KFrom, RStd, Some (''k:'' @ addr), True), (KTo, RStd, Some (''k:'' @ f ! RECIPIENT), True),
      (KAmount, RAmount, Some (f ! AMOUNT), True)] @
     (if ty = TX_TYPE_TRANSFER_CROSSCHAIN then [(KToChain, RStd, Some (f ! RECIPIENT_CHAIN), True)] else [])"

text \<open>The arguments of the transfer capability, and the entries they give.\<close>

lemma transfer_args_review:
  assumes "transfer_doc j f ty addr" "is_amount (f ! AMOUNT)" "node j a (JArr (transfer_args f ty addr))"
  shows "\<exists>es. (if ty = TX_TYPE_TRANSFER_CROSSCHAIN then cross_review j a else transfer_review j a) = Inr es \<and>
    map (entry_text j) es = transfer_texts f ty addr"
proof -
  note wf = transfer_doc_wf(1) [OF assms(1)]
  obtain x0 where x0: "get_nth j a 0 = Inr x0" "node j x0 (JStr (''k:'' @ addr))"
    using node_element [OF wf assms(3), of 0] by (auto simp: transfer_args_def)
  obtain x1 where x1: "get_nth j a (Suc 0) = Inr x1" "node j x1 (JStr (''k:'' @ f ! RECIPIENT))"
    using node_element [OF wf assms(3), of 1] by (auto simp: transfer_args_def)
  obtain x2 where x2: "get_nth j a 2 = Inr x2" "node j x2 (JPrim (f ! AMOUNT))"
    using node_element [OF wf assms(3), of 2] by (auto simp: transfer_args_def)
  have safe: "list_all safe_byte (''k:'' @ addr)" "list_all safe_byte (''k:'' @ f ! RECIPIENT)"
    "list_all safe_byte (f ! RECIPIENT_CHAIN)"
    using assms(1) lower_safe contents_fields(1) [of f ty RECIPIENT] contents_fields(1) [of f ty RECIPIENT_CHAIN]
    by (auto simp: transfer_doc_def field_defs FIELDS_def safe_byte_def)
  have "is_principal (''k:'' @ f ! RECIPIENT)"
    by (rule key_principal) (use assms(1) lengths_okD contents_fields(7) in \<open>auto simp: transfer_doc_def\<close>)
  then have receiver: "receiver_review j a = Inr []"
    using x1 node_JStr [OF x1(2)] by (simp add: receiver_review_def)
  have amount: "check_amount j a = Inr x2"
    using x2 node_JPrim [OF x2(2)] assms(2) by (simp add: check_amount_def)
  note texts = node_JStr [OF x0(2)] node_JStr [OF x1(2)] node_JPrim [OF x2(2)]
  note plain = safe_unescaped [OF x0(2) safe(1)] safe_unescaped [OF x1(2) safe(2)]
  show ?thesis
  proof (cases "ty = TX_TYPE_TRANSFER_CROSSCHAIN")
    case True
    obtain x3 where x3: "get_nth j a 3 = Inr x3" "node j x3 (JStr (f ! RECIPIENT_CHAIN))"
      using node_element [OF wf assms(3), of 3] by (auto simp: transfer_args_def True)
    show ?thesis using True x0 x1 x2 x3 receiver amount texts plain safe_unescaped [OF x3(2) safe(3)] node_JStr [OF x3(2)]
      by (simp add: cross_review_def transfer_texts_def)
  next
    case False
    then show ?thesis using x0 x1 x2 receiver amount texts plain by (simp add: transfer_review_def transfer_texts_def)
  qed
qed

lemma transfer_cap_review:
  assumes "transfer_doc j f ty addr" "is_coin f" "is_amount (f ! AMOUNT)" "node j c (transfer_cap f ty addr)"
  shows "(\<exists>es. cap_review j c = Inr es \<and> map (entry_text j) es = transfer_texts f ty addr) \<and>
    (\<exists>n. get_value j c ''name'' = Inr n \<and> CHR 0x5C \<notin> set (span j n)) \<and>
    (\<exists>a. get_value j c ''args'' = Inr a \<and> node j a (JArr (transfer_args f ty addr)))"
proof -
  note wf = transfer_doc_wf(1) [OF assms(1)]
  let ?x = "ty = TX_TYPE_TRANSFER_CROSSCHAIN"
  have c: "node j c (JObj [(''args'', JArr (transfer_args f ty addr)),
      (''name'', JStr (''coin.TRANSFER'' @ (if ?x then ''_XCHAIN'' else [])))])"
    using assms(2,4) by (auto simp: transfer_cap_def nsmod_def is_coin_def)
  obtain a where a: "get_value j c ''args'' = Inr a" "node j a (JArr (transfer_args f ty addr))"
    using node_value [OF wf c, of "''args''"] by auto
  obtain n where n: "get_value j c ''name'' = Inr n" "node j n (JStr (''coin.TRANSFER'' @ (if ?x then ''_XCHAIN'' else [])))"
    using node_value [OF wf c, of "''name''"] by auto
  have name: "get_tx_name j c = (if ?x then NameTxTransferXchain else NameTxTransfer)"
    using n(1) node_JStr [OF n(2)] node_len [OF n(2)] node_kind [OF c] by (auto simp: get_tx_name_def Let_def)
  have count: "get_count j a = Inr (if ?x then 4 else 3)" using node_count [OF wf a(2)] by (simp add: transfer_args_def)
  have "\<exists>es. cap_review j c = Inr es \<and> map (entry_text j) es = transfer_texts f ty addr"
    using transfer_args_review [OF assms(1,3) a(2)] name node_kind [OF c] a(1) count
    by (cases ?x) (simp_all add: cap_review_def)
  then show ?thesis using a n(1) node_JStr [OF n(2)] by auto
qed

lemma gas_cap_review:
  assumes "json_wf j" "node j c gas_cap"
  shows "cap_review j c = Inr [] \<and> get_tx_name j c = NameGas \<and> (\<exists>n. get_value j c ''name'' = Inr n \<and> CHR 0x5C \<notin> set (span j n))"
proof -
  have c: "node j c (JObj [(''args'', JArr []), (''name'', JStr ''coin.GAS'')])" using assms(2) by (simp add: gas_cap_def)
  obtain n where n: "get_value j c ''name'' = Inr n" "node j n (JStr ''coin.GAS'')"
    using node_value [OF assms(1) c, of "''name''"] by auto
  have "get_tx_name j c = NameGas"
    using n(1) node_JStr [OF n(2)] node_len [OF n(2)] node_kind [OF c] by (simp add: get_tx_name_def Let_def)
  then show ?thesis using n(1) node_kind [OF c] node_JStr [OF n(2)] by (simp add: cap_review_def)
qed

section \<open>The signer entry\<close>

lemma signer_parts:
  assumes "transfer_doc j f ty addr" "is_coin f" "is_amount (f ! AMOUNT)" "node j e (transfer_signer f ty addr)"
  shows "\<exists>pk es. get_value j e ''pubKey'' = Inr pk \<and> node j pk (JStr addr) \<and> get_value j e ''addr'' = Inl NoData \<and>
    signer_review j e pk = Inr [] \<and> transfers_review j e = Inr es \<and> map (entry_text j) es = transfer_texts f ty addr \<and>
    (\<exists>cl. get_value j e ''clist'' = Inr cl \<and> tok_kind (json_tok j cl) = Array \<and> get_count j cl = Inr 2 \<and>
      check_cap_names j cl [0..<2] = Inr ())"
proof -
  note wf = transfer_doc_wf(1) [OF assms(1)]
  have e: "node j e (JObj [(''pubKey'', JStr addr), (''clist'', JArr [transfer_cap f ty addr, gas_cap])])"
    using assms(4) by (simp add: transfer_signer_def)
  obtain pk where pk: "get_value j e ''pubKey'' = Inr pk" "node j pk (JStr addr)"
    using node_value [OF wf e, of "''pubKey''"] by auto
  have noaddr: "get_value j e ''addr'' = Inl NoData" by (rule node_no_value [OF wf e]) simp_all
  obtain cl where cl: "get_valid_clist j e = Inr (cl, 2)" "node j cl (JArr [transfer_cap f ty addr, gas_cap])"
      "get_value j e ''clist'' = Inr cl"
    using node_clist [OF wf e, of "[transfer_cap f ty addr, gas_cap]"] by (auto simp: numeral_2_eq_2)
  obtain c0 where c0: "get_nth j cl 0 = Inr c0" "node j c0 (transfer_cap f ty addr)"
    using node_element [OF wf cl(2), of 0] by auto
  obtain c1 where c1: "get_nth j cl (Suc 0) = Inr c1" "node j c1 gas_cap"
    using node_element [OF wf cl(2), of 1] by auto
  obtain es n0 a0 where t: "cap_review j c0 = Inr es" "map (entry_text j) es = transfer_texts f ty addr"
    "get_value j c0 ''name'' = Inr n0" "CHR 0x5C \<notin> set (span j n0)"
    "get_value j c0 ''args'' = Inr a0" "node j a0 (JArr (transfer_args f ty addr))"
    using transfer_cap_review [OF assms(1-3) c0(2)] by blast
  obtain n1 where g: "cap_review j c1 = Inr []" "get_tx_name j c1 = NameGas" "get_value j c1 ''name'' = Inr n1"
    "CHR 0x5C \<notin> set (span j n1)" using gas_cap_review [OF wf c1(2)] by blast
  have two: "[0..<2] = [0, Suc 0]" by (simp add: upt_rec)
  obtain x0 where x0: "get_nth j a0 0 = Inr x0" "node j x0 (JStr (''k:'' @ addr))"
    using node_element [OF wf t(6), of 0] by (auto simp: transfer_args_def)
  have "args_name_key j addr a0 [0..<length (transfer_args f ty addr)]"
    using x0 node_JStr [OF x0(2)] by (simp add: transfer_args_def upt_conv_Cons strip_k_def)
  then have "is_ok (find_pubkey_in_clist j e pk)"
    using cl(1) c0(1) t(5) node_count [OF wf t(6)] node_JStr [OF pk(2)]
    by (simp add: find_pubkey_in_clist_def two)
  then have "signer_review j e pk = Inr []"
    using cl(1) c0(1) c1(1) g(2) by (simp add: signer_review_def two)
  moreover have "transfers_review j e = Inr es"
    using cl(1) c0(1) c1(1) t(1) g(1) by (simp add: transfers_review_def two)
  moreover have "check_cap_names j cl [0..<2] = Inr ()"
    using c0(1) c1(1) t(3,4) g(3,4) by (simp add: two)
  ultimately show ?thesis using pk noaddr cl t(2) node_kind [OF cl(2)] node_count [OF wf cl(2)] by auto
qed

lemma transfer_signer_found:
  assumes "transfer_doc j f ty addr" "is_coin f" "is_amount (f ! AMOUNT)"
  shows "\<exists>e. find_device_signer j addr = Inr (e, 1) \<and> node j e (transfer_signer f ty addr)"
proof -
  note wf = transfer_doc_wf [OF assms(1)]
  obtain sg where sg: "get_value j 0 ''signers'' = Inr sg" "node j sg (JArr [transfer_signer f ty addr])"
    using node_value [OF wf, of "''signers''"] by (auto simp: transfer_members_def)
  obtain e where e: "get_nth j sg 0 = Inr e" "node j e (transfer_signer f ty addr)"
    using node_element [OF wf(1) sg(2), of 0] by auto
  obtain pk cl where p: "get_value j e ''pubKey'' = Inr pk" "node j pk (JStr addr)" "get_value j e ''addr'' = Inl NoData"
    "get_value j e ''clist'' = Inr cl" "tok_kind (json_tok j cl) = Array" "get_count j cl = Inr 2"
    "check_cap_names j cl [0..<2] = Inr ()" using signer_parts [OF assms e(2)] by blast
  have "CHR 0x5C \<notin> set addr" using assms(1) lower_safe [of addr] by (auto simp: transfer_doc_def list_all_iff safe_byte_def)
  then have "names_device j addr e = Inr True"
    using p(1-3) node_JStr [OF p(2)] by (simp add: names_device_def names_field_def eq_ignore_ascii_case_def)
  moreover have "tok_kind (json_tok j e) = Object" using node_kind [OF e(2)] by (simp add: transfer_signer_def)
  ultimately show ?thesis using sg(1) node_kind [OF sg(2)] node_count [OF wf(1) sg(2)] e p node_JStr [OF p(2)]
    by (simp add: find_device_signer_def)
qed

section \<open>The \<open>meta\<close> object\<close>

lemma transfer_meta_valid:
  assumes "json_wf j" "get_value j 0 ''meta'' = Inr mt" "node j mt (JObj (meta_members f addr))"
  shows "validate_meta_field j = Inr ()"
proof -
  let ?ks = "object_keys j mt"
  have ks: "?ks = key_indexes (Suc mt) (meta_members f addr)" by (rule node_object_keys [OF assms(3)])
  have len: "length ?ks = 6" by (simp add: ks meta_members_def)
  have key: "snd (object_get_nth_key j mt i) = ?ks ! i" "node j (?ks ! i) (JStr (META_KEYWORDS ! i))" if "i < 6" for i
  proof -
    show "snd (object_get_nth_key j mt i) = ?ks ! i"
      using get_nth_key_eq [OF assms(1), of mt i] node_bound [OF assms(3)] that len
      by (cases "object_get_nth_key j mt i"; cases "fst (object_get_nth_key j mt i)") auto
    have "fst (meta_members f addr ! i) = META_KEYWORDS ! i"
      using that by (auto simp: meta_members_def META_KEYWORDS_def numeral_eq_Suc less_Suc_eq)
    then show "node j (?ks ! i) (JStr (META_KEYWORDS ! i))"
      using object_children [OF assms(3), of i] that by (simp add: ks meta_members_def)
  qed
  have "int (tok_end (json_tok j (?ks ! i))) - int (tok_start (json_tok j (?ks ! i))) < 40"
    "span j (?ks ! i) = META_KEYWORDS ! i" if "i < 6" for i
    using node_extent [OF key(2) [OF that]] node_JStr [OF key(2) [OF that]] that
    by (auto simp: META_KEYWORDS_def numeral_eq_Suc less_Suc_eq)
  then have step: "meta_keys j mt (i # is) present =
      (if and present (push_bit i 1) = 0 then meta_keys j mt is (or present (push_bit i 1)) else Inl InvalidMetaField)"
    if "i < 6" "position_from 0 META_KEYWORDS (META_KEYWORDS ! i) = Some i" for i "is" present
    using key(1) [OF that(1)] that by (fastforce simp: Let_def)
  have six: "[0..<6] = [0, 1, 2, 3, 4, 5 :: nat]" by code_simp
  have "meta_keys j mt [0..<6] 0 = Inr 63"
    unfolding six by (simp add: step META_KEYWORDS_def push_bit_eq_mult del: meta_keys.simps) (simp add: push_bit_eq_mult)
  then show ?thesis
    using assms node_kind [OF assms(3)] node_not_null(1) [OF assms(3)] get_member_count_eq [OF assms(1), of mt]
      node_bound [OF assms(3)] len by (simp add: validate_meta_field_def)
qed


definition integers_ok :: "bytes list \<Rightarrow> bool" where
  "integers_ok f \<longleftrightarrow> list_all (\<lambda>i. list_all is_ascii_digit (f ! i)) [CREATION_TIME, TTL, GAS_LIMIT]"

lemma transfer_meta_review:
  assumes "transfer_doc j f ty addr" "integers_ok f"
  shows "meta_has_sender j \<and> (\<exists>mt ch gl gp sn. meta_review j = Inr [tok_entry KOnChain RStd ch, tok_entry KUsingGas RGas mt,
      tok_entry KMaxFee RMaxFee mt, tok_entry KPayingAccount RStd sn] \<and>
    span j ch = f ! CHAIN_ID \<and> span j sn = ''k:'' @ addr \<and>
    get_value j mt ''gasLimit'' = Inr gl \<and> span j gl = f ! GAS_LIMIT \<and>
    get_value j mt ''gasPrice'' = Inr gp \<and> span j gp = f ! GAS_PRICE)"
proof -
  note wf = transfer_doc_wf [OF assms(1)]
  have c: "contents_ok f ty" "list_all safe_byte addr" using assms(1) lower_safe by (auto simp: transfer_doc_def)
  obtain mt where mt: "get_value j 0 ''meta'' = Inr mt" "node j mt (JObj (meta_members f addr))"
    using node_value [OF wf, of "''meta''"] by (auto simp: transfer_members_def)
  note vals = node_value [OF wf(1) mt(2)]
  obtain ct where ct: "get_value j mt ''creationTime'' = Inr ct" "node j ct (JPrim (f ! CREATION_TIME))"
    using vals [of "''creationTime''"] by (auto simp: meta_members_def)
  obtain tl where tl: "get_value j mt ''ttl'' = Inr tl" "node j tl (JPrim (f ! TTL))"
    using vals [of "''ttl''"] by (auto simp: meta_members_def)
  obtain gl where gl: "get_value j mt ''gasLimit'' = Inr gl" "node j gl (JPrim (f ! GAS_LIMIT))"
    using vals [of "''gasLimit''"] by (auto simp: meta_members_def)
  obtain ch where ch: "get_value j mt ''chainId'' = Inr ch" "node j ch (JStr (f ! CHAIN_ID))"
    using vals [of "''chainId''"] by (auto simp: meta_members_def)
  obtain gp where gp: "get_value j mt ''gasPrice'' = Inr gp" "node j gp (JPrim (f ! GAS_PRICE))"
    using vals [of "''gasPrice''"] by (auto simp: meta_members_def)
  obtain sn where sn: "get_value j mt ''sender'' = Inr sn" "node j sn (JStr (''k:'' @ addr))"
    using vals [of "''sender''"] by (auto simp: meta_members_def)
  have ints: "check_integer_meta j mt = Inr ()"
    using ct(1) tl(1) gl(1) node_JPrim [OF ct(2)] node_JPrim [OF tl(2)] node_JPrim [OF gl(2)] contents_fields(3-5) [OF c(1)] assms(2)
    by (simp add: check_integer_meta_def plain_integer_def integers_ok_def word_ok_def)
  have "all_digits (f ! CHAIN_ID)" by (rule contents_fields(8) [OF c(1)])
  then have "\<not> is_null j ch" "shown_unescaped j ch = Inr ()"
    using node_JStr [OF ch(2)] safe_unescaped [OF ch(2)] contents_fields(1) [OF c(1), of CHAIN_ID]
    by (auto simp: is_null_def all_digits_def is_ascii_digit_def field_defs FIELDS_def)
  moreover have "shown_unescaped j sn = Inr ()"
    by (rule safe_unescaped [OF sn(2)]) (use c(2) in \<open>simp add: safe_byte_def\<close>)
  ultimately have "meta_review j = Inr [tok_entry KOnChain RStd ch, tok_entry KUsingGas RGas mt,
      tok_entry KMaxFee RMaxFee mt, tok_entry KPayingAccount RStd sn]"
    using transfer_meta_valid [OF wf(1) mt] ints mt(1) node_not_null(1) [OF mt(2)] ch(1) sn(1)
    by (simp add: meta_review_def chain_review_def gas_review_def fee_review_def)
  moreover have "meta_has_sender j" using mt(1) node_kind [OF mt(2)] sn(1) by (simp add: meta_has_sender_def)
  ultimately show ?thesis using ch gl gp sn node_JStr [OF ch(2)] node_JStr [OF sn(2)] node_JPrim [OF gl(2)] node_JPrim [OF gp(2)]
    by blast
qed

section \<open>The review\<close>

lemma transfer_network:
  assumes "transfer_doc j f ty addr"
  shows "\<exists>es. network_review j = Inr es \<and>
    map (entry_text j) es = (if f ! NETWORK = ''null'' then [] else [(KOnNetwork, RStd, Some (f ! NETWORK), True)])"
proof -
  note wf = transfer_doc_wf [OF assms]
  obtain n where n: "get_value j 0 ''networkId'' = Inr n" "node j n (JStr (f ! NETWORK))"
    using node_value [OF wf, of "''networkId''"] by (auto simp: transfer_members_def)
  have "list_all safe_byte (f ! NETWORK)"
    using contents_fields(1) [of f ty NETWORK] assms by (simp add: transfer_doc_def field_defs FIELDS_def)
  moreover have "is_null j n \<longleftrightarrow> f ! NETWORK = ''null''"
    using node_JStr [OF n(2)] length_span_le [OF wf(1), of n] by (auto simp: is_null_def)
  ultimately show ?thesis using n node_JStr [OF n(2)] safe_unescaped [OF n(2)] by (simp add: network_review_def)
qed

text \<open>The value the renderer writes for an entry, whatever array the entry is in.\<close>

definition renders :: "json \<Rightarrow> entry \<Rightarrow> bytes \<Rightarrow> bool" where
  "renders j e v \<longleftrightarrow> (\<forall>a h address i. item_shows (arr_items a ! i) e \<longrightarrow> render a j h address i = Inr v)"

lemma renders_plain:
  assumes "\<forall>a h. fixed_value a h r = Some v" "length v \<le> VALUE_BUF" "entry_text j e = (k, r, None, True)"
  shows "renders j e v"
  using assms fixed_value_eq(1) [where t = v] by (cases e) (auto simp: renders_def entry_text_def w_puts_fits)

lemma renders_text:
  assumes "json_wf j" "entry_text j e = (k, RStd, Some v, True)" "v \<noteq> []" "length v < VALUE_BUF"
  shows "renders j e v"
proof -
  obtain t where t: "e = (k, RStd, Some t, True)" "span j t = v" using assms(2) by (cases e) (auto simp: entry_text_def)
  then have "tok_len (json_tok j t) = length v" using length_span_le [OF assms(1), of t] by simp
  then show ?thesis using t assms(3,4)
    by (auto simp: renders_def render_def Let_def render_std_def w_puts_fits)
qed

lemma renders_amount:
  assumes "json_wf j" "entry_text j e = (k, RAmount, Some v, True)" "v \<noteq> []" "length v + 5 \<le> VALUE_BUF"
  shows "renders j e (''KDA '' @ v)"
proof -
  obtain t where t: "e = (k, RAmount, Some t, True)" "span j t = v" using assms(2) by (cases e) (auto simp: entry_text_def)
  then have "tok_len (json_tok j t) = length v" using length_span_le [OF assms(1), of t] by simp
  then show ?thesis using t assms(3,4)
    by (auto simp: renders_def render_def Let_def render_amount_def w_puts_fits)
qed

lemma renders_gas:
  assumes "json_wf j" "get_value j mt ''gasLimit'' = Inr gl" "get_value j mt ''gasPrice'' = Inr gp"
    "length (span j gl) + length (span j gp) < 280"
  shows "renders j (tok_entry k RGas mt) (''at most '' @ span j gl @ '' at price '' @ span j gp)"
    and "max_fee (span j gl) (span j gp) 295 = Some fee \<Longrightarrow> renders j (tok_entry k RMaxFee mt) (''KDA '' @ fee)"
  using assms length_span_le [OF assms(1), symmetric]
  by (auto simp: renders_def tok_entry_def render_def Let_def render_gas_def render_max_fee_def w_puts_fits w_put_fits VALUE_BUF_def)

end
