(* ===== verification/Transfer_Session.thy ===== *)
theory Transfer_Session
  imports Transfer_Review Sessions
begin

text \<open>
  The session of a structured transfer of coins: for every accepted body the last chunk leads to a review that
  needs no blind signing, and its pages are the fields of the body.
\<close>

section \<open>The pages\<close>

definition transfer_pages :: "bytes list \<Rightarrow> nat \<Rightarrow> bytes \<Rightarrow> bytes \<Rightarrow> (bytes \<times> bytes) list" where
  "transfer_pages f ty addr fee =
     [(''Signing'', ''Transaction'')] @
     (if f ! NETWORK = ''null'' then [] else [(''On Network'', f ! NETWORK)]) @
     [(''Requiring'', ''Capabilities''), (''Of Key'', addr),
      (''Transfer 1'', if ty = TX_TYPE_TRANSFER_CROSSCHAIN then ''Cross-chain Transfer'' else ''Normal Transfer''),
      (''From'', ''k:'' @ addr), (''To'', ''k:'' @ f ! RECIPIENT), (''Amount'', ''KDA '' @ f ! AMOUNT)] @
     (if ty = TX_TYPE_TRANSFER_CROSSCHAIN then [(''To Chain'', f ! RECIPIENT_CHAIN)] else []) @
     [(''On Chain'', f ! CHAIN_ID),
      (''Using Gas'', ''at most '' @ f ! GAS_LIMIT @ '' at price '' @ f ! GAS_PRICE),
      (''Max fee'', ''KDA '' @ fee), (''Paying account'', ''k:'' @ addr)]"

text \<open>The keys of the items, in order.\<close>

definition transfer_keys :: "bytes list \<Rightarrow> nat \<Rightarrow> item_key list" where
  "transfer_keys f ty = [KSigning] @ (if f ! NETWORK = ''null'' then [] else [KOnNetwork]) @
     [KRequiring, KOfKey, KTransfer, KFrom, KTo, KAmount] @
     (if ty = TX_TYPE_TRANSFER_CROSSCHAIN then [KToChain] else []) @ [KOnChain, KUsingGas, KMaxFee, KPayingAccount]"

text \<open>A transfer of coins whose amount and integers are written the plain way.\<close>

definition plain_transfer :: "nat \<Rightarrow> bytes list \<Rightarrow> bool" where
  "plain_transfer ty f \<longleftrightarrow> transfer_fields_ok ty f \<and> is_coin f \<and> is_amount (f ! AMOUNT) \<and> integers_ok f \<and> f ! NETWORK \<noteq> []"

section \<open>The entries\<close>

lemma texts_render:
  assumes "map (entry_text j) es = ts" "list_all2 (\<lambda>t v. \<forall>e. entry_text j e = t \<longrightarrow> renders j e v) ts vs"
  shows "list_all2 (renders j) es vs"
  using assms(2) unfolding assms(1) [symmetric] list_all2_map1 by (rule list_all2_mono) blast

lemma fst_entry_text [simp]: "fst (entry_text j e) = fst e"
  by (cases e) (simp add: entry_text_def)

lemma blind_entry_text: "blind_entry e \<longleftrightarrow> blind_render (fst (snd (entry_text j e)))"
  by (cases e) (simp add: entry_text_def blind_entry_def)

lemma hidden_entry_text: "hidden_entry e \<longleftrightarrow> \<not> snd (snd (snd (entry_text j e)))"
  by (cases e) (simp add: entry_text_def hidden_entry_def)

lemma map_text_list_ex:
  "map (entry_text j) es = ts \<Longrightarrow> list_ex blind_entry es \<longleftrightarrow> list_ex (\<lambda>t. blind_render (fst (snd t))) ts"
  "map (entry_text j) es = ts \<Longrightarrow> list_ex hidden_entry es \<longleftrightarrow> list_ex (\<lambda>t. \<not> snd (snd (snd t))) ts"
  "map (entry_text j) es = ts \<Longrightarrow> map fst es = map fst ts"
  by (induction es arbitrary: ts) (auto simp: blind_entry_text [of _ j] hidden_entry_text [of _ j])

lemma transfer_text_renders:
  assumes "transfer_doc j f ty addr" "is_amount (f ! AMOUNT)"
  shows "list_all2 (\<lambda>t v. \<forall>e. entry_text j e = t \<longrightarrow> renders j e v) (transfer_texts f ty addr)
    ([if ty = TX_TYPE_TRANSFER_CROSSCHAIN then ''Cross-chain Transfer'' else ''Normal Transfer'', ''k:'' @ addr, ''k:'' @ f ! RECIPIENT,
      ''KDA '' @ f ! AMOUNT] @ (if ty = TX_TYPE_TRANSFER_CROSSCHAIN then [f ! RECIPIENT_CHAIN] else []))"
proof -
  have l: "lengths_ok f" "contents_ok f ty" "length addr = 64" using assms(1) by (simp_all add: transfer_doc_def)
  note wf = transfer_doc_wf(1) [OF assms(1)]
  have "f ! AMOUNT \<noteq> []" using contents_fields(2) [OF l(2)] by (simp add: word_ok_def)
  moreover have "ty = TX_TYPE_TRANSFER_CROSSCHAIN \<Longrightarrow> f ! RECIPIENT_CHAIN \<noteq> []"
    using contents_fields(9) [OF l(2)] by (simp add: all_digits_def)
  ultimately show ?thesis using lengths_okD [OF l(1)] l(3)
    by (auto simp: transfer_texts_def VALUE_BUF_def fixed_value_def
        intro!: renders_text [OF wf] renders_amount [OF wf, simplified] elim!: renders_plain [rotated 2])
qed

text \<open>The entries of the review, from the parts the document gives.\<close>

definition transfer_list :: "entry list \<Rightarrow> nat \<Rightarrow> entry list \<Rightarrow> nat \<Rightarrow> nat \<Rightarrow> nat \<Rightarrow> entry list" where
  "transfer_list ns pk ts ch mt sn =
     [plain_entry KSigning RSigning] @ ns @ [plain_entry KRequiring RRequiring, tok_entry KOfKey RStd pk] @ ts @
     [tok_entry KOnChain RStd ch, tok_entry KUsingGas RGas mt, tok_entry KMaxFee RMaxFee mt, tok_entry KPayingAccount RStd sn]"

lemma transfer_body:
  assumes "transfer_doc j f ty addr" "plain_transfer ty f"
  shows "\<exists>e pk ts ns mt ch gl gp sn. find_device_signer j addr = Inr (e, 1) \<and>
    body_review j e 1 = Inr (transfer_list ns pk ts ch mt sn) \<and> node j pk (JStr addr) \<and>
    map (entry_text j) ts = transfer_texts f ty addr \<and>
    map (entry_text j) ns = (if f ! NETWORK = ''null'' then [] else [(KOnNetwork, RStd, Some (f ! NETWORK), True)]) \<and>
    span j ch = f ! CHAIN_ID \<and> span j sn = ''k:'' @ addr \<and> get_value j mt ''gasLimit'' = Inr gl \<and> span j gl = f ! GAS_LIMIT \<and>
    get_value j mt ''gasPrice'' = Inr gp \<and> span j gp = f ! GAS_PRICE"
proof -
  have p: "is_coin f" "is_amount (f ! AMOUNT)" "integers_ok f" using assms(2) by (simp_all add: plain_transfer_def)
  obtain e where e: "find_device_signer j addr = Inr (e, 1)" "node j e (transfer_signer f ty addr)"
    using transfer_signer_found [OF assms(1) p(1,2)] by blast
  obtain pk ts where s: "get_value j e ''pubKey'' = Inr pk" "node j pk (JStr addr)" "signer_review j e pk = Inr []"
    "transfers_review j e = Inr ts" "map (entry_text j) ts = transfer_texts f ty addr"
    using signer_parts [OF assms(1) p(1,2) e(2)] by blast
  obtain ns where n: "network_review j = Inr ns"
    "map (entry_text j) ns = (if f ! NETWORK = ''null'' then [] else [(KOnNetwork, RStd, Some (f ! NETWORK), True)])"
    using transfer_network [OF assms(1)] by blast
  obtain mt ch gl gp sn where m: "meta_has_sender j" "meta_review j = Inr [tok_entry KOnChain RStd ch, tok_entry KUsingGas RGas mt,
      tok_entry KMaxFee RMaxFee mt, tok_entry KPayingAccount RStd sn]"
    "span j ch = f ! CHAIN_ID" "span j sn = ''k:'' @ addr"
    "get_value j mt ''gasLimit'' = Inr gl" "span j gl = f ! GAS_LIMIT"
    "get_value j mt ''gasPrice'' = Inr gp" "span j gp = f ! GAS_PRICE"
    using transfer_meta_review [OF assms(1) p(3)] by blast
  have "body_review j e 1 = Inr (transfer_list ns pk ts ch mt sn)" using s n m by (simp add: body_review_def transfer_list_def)
  then show ?thesis using e(1) s(2,5) n(2) m(3-8) by blast
qed

text \<open>No entry is hidden or asks for blind signing.\<close>

lemma transfer_list_flags:
  assumes "map (entry_text j) ts = transfer_texts f ty addr"
    "map (entry_text j) ns = (if f ! NETWORK = ''null'' then [] else [(KOnNetwork, RStd, Some (f ! NETWORK), True)])"
  shows "\<not> list_ex hidden_entry (transfer_list ns pk ts ch mt sn)" "\<not> list_ex blind_entry (transfer_list ns pk ts ch mt sn)"
    "map fst (transfer_list ns pk ts ch mt sn) = transfer_keys f ty"
  unfolding transfer_list_def list_ex_append map_append map_text_list_ex [OF assms(1)] map_text_list_ex [OF assms(2)]
  by (simp_all add: transfer_texts_def hidden_entry_def blind_entry_def plain_entry_def tok_entry_def blind_render_def transfer_keys_def)

lemma transfer_list_renders:
  assumes "transfer_doc j f ty addr" "plain_transfer ty f" "max_fee (f ! GAS_LIMIT) (f ! GAS_PRICE) 295 = Some fee"
    and "map (entry_text j) ts = transfer_texts f ty addr" "node j pk (JStr addr)"
    and "map (entry_text j) ns = (if f ! NETWORK = ''null'' then [] else [(KOnNetwork, RStd, Some (f ! NETWORK), True)])"
    and "span j ch = f ! CHAIN_ID" "span j sn = ''k:'' @ addr" "get_value j mt ''gasLimit'' = Inr gl" "span j gl = f ! GAS_LIMIT"
    and "get_value j mt ''gasPrice'' = Inr gp" "span j gp = f ! GAS_PRICE"
  shows "list_all2 (renders j) (transfer_list ns pk ts ch mt sn) (map snd (transfer_pages f ty addr fee))"
proof -
  note wf = transfer_doc_wf(1) [OF assms(1)]
  have p: "is_amount (f ! AMOUNT)" "f ! NETWORK \<noteq> []" "lengths_ok f" "contents_ok f ty"
    using assms(2) by (simp_all add: plain_transfer_def transfer_fields_ok_def)
  have addr: "length addr = 64" using assms(1) by (simp add: transfer_doc_def)
  note len = lengths_okD [OF p(3)]
  note gas = renders_gas [OF wf assms(9,11)]
  have chain: "f ! CHAIN_ID \<noteq> []" using contents_fields(8) [OF p(4)] by (simp add: all_digits_def)
  have net: "list_all2 (renders j) ns (if f ! NETWORK = ''null'' then [] else [f ! NETWORK])"
    by (rule texts_render [OF assms(6)]) (use p(2) len in \<open>auto simp: VALUE_BUF_def intro!: renders_text [OF wf]\<close>)
  have plain: "renders j (plain_entry KSigning RSigning) ''Transaction''" "renders j (plain_entry KRequiring RRequiring) ''Capabilities''"
    by (rule renders_plain; simp add: fixed_value_def VALUE_BUF_def)+
  have std: "renders j (tok_entry KOfKey RStd pk) addr" "renders j (tok_entry KOnChain RStd ch) (f ! CHAIN_ID)"
    "renders j (tok_entry KPayingAccount RStd sn) (''k:'' @ addr)"
    using node_JStr [OF assms(5)] assms(7,8) chain addr len by (auto simp: VALUE_BUF_def intro!: renders_text [OF wf])
  have fees: "renders j (tok_entry KUsingGas RGas mt) (''at most '' @ f ! GAS_LIMIT @ '' at price '' @ f ! GAS_PRICE)"
    "renders j (tok_entry KMaxFee RMaxFee mt) (''KDA '' @ fee)"
    using gas(1) gas(2) [where fee = fee] assms(3,10,12) len by simp_all
  have vals: "map snd (transfer_pages f ty addr fee) = [''Transaction''] @ (if f ! NETWORK = ''null'' then [] else [f ! NETWORK]) @
      [''Capabilities'', addr] @
      ([if ty = TX_TYPE_TRANSFER_CROSSCHAIN then ''Cross-chain Transfer'' else ''Normal Transfer'', ''k:'' @ addr, ''k:'' @ f ! RECIPIENT,
        ''KDA '' @ f ! AMOUNT] @ (if ty = TX_TYPE_TRANSFER_CROSSCHAIN then [f ! RECIPIENT_CHAIN] else [])) @
      [f ! CHAIN_ID, ''at most '' @ f ! GAS_LIMIT @ '' at price '' @ f ! GAS_PRICE, ''KDA '' @ fee, ''k:'' @ addr]"
    by (simp add: transfer_pages_def)
  show ?thesis unfolding vals transfer_list_def
    by (intro list_all2_appendI net texts_render [OF assms(4) transfer_text_renders [OF assms(1) p(1)]]) (use plain std fees in simp_all)
qed

lemma transfer_entries:
  assumes "transfer_doc j f ty addr" "plain_transfer ty f" "max_fee (f ! GAS_LIMIT) (f ! GAS_PRICE) 295 = Some fee"
  shows "\<exists>e es. find_device_signer j addr = Inr (e, 1) \<and> tx_review j e 1 = Inr es \<and>
    list_all2 (renders j) es (map snd (transfer_pages f ty addr fee)) \<and> map fst es = transfer_keys f ty \<and> \<not> list_ex blind_entry es"
proof -
  obtain e pk ts ns mt ch gl gp sn where b: "find_device_signer j addr = Inr (e, 1)"
    "body_review j e 1 = Inr (transfer_list ns pk ts ch mt sn)" "node j pk (JStr addr)"
    "map (entry_text j) ts = transfer_texts f ty addr"
    "map (entry_text j) ns = (if f ! NETWORK = ''null'' then [] else [(KOnNetwork, RStd, Some (f ! NETWORK), True)])"
    "span j ch = f ! CHAIN_ID" "span j sn = ''k:'' @ addr" "get_value j mt ''gasLimit'' = Inr gl" "span j gl = f ! GAS_LIMIT"
    "get_value j mt ''gasPrice'' = Inr gp" "span j gp = f ! GAS_PRICE" using transfer_body [OF assms(1,2)] by blast
  note flags = transfer_list_flags [OF b(4,5)]
  have "tx_review j e 1 = Inr (transfer_list ns pk ts ch mt sn)" using b(2) flags(1,2) by (simp add: tx_review_def)
  then show ?thesis using b(1) flags(2,3) transfer_list_renders [OF assms b(4,3,5-11)] by blast
qed

section \<open>The pages of a stored review\<close>

text \<open>The titles of items with the given keys; transfers are numbered.\<close>

definition titles :: "item_key list \<Rightarrow> bytes list" where
  "titles ks = map (\<lambda>i. w_puts TITLE_BUF (key_text (ks ! i) # (if ks ! i = KTransfer
     then [u32_digits (u8 (length (filter (\<lambda>k. k = KTransfer) (take i (drop 1 ks)))))] else []))) [0..<length ks]"

lemma title_of_keys:
  assumes "review_shown a es" "i < arr_num a"
  shows "title a i = titles (map fst es) ! i"
proof -
  have n: "length es = arr_num a" "arr_num a < length (arr_items a)"
    using review_shown_length [OF assms(1)] assms(1) by (auto simp: review_shown_def array_ok_def)
  have key: "i_key (arr_items a ! k) = fst (es ! k)" if "k < arr_num a" for k
    using shown_item [OF assms(1) that] by (cases "es ! k") auto
  have "map i_key (take i (drop 1 (arr_items a))) = take i (drop 1 (map fst es))"
    by (rule nth_equalityI) (use n assms(2) key in auto)
  then have "length (filter (\<lambda>it. i_key it = KTransfer) (take i (drop 1 (arr_items a)))) =
      length (filter (\<lambda>k. k = KTransfer) (take i (drop 1 (map fst es))))"
    by (metis (no_types, lifting) filter_map length_map comp_apply filter_cong)
  then show ?thesis using assms(2) n key [OF assms(2)] by (simp add: titles_def title_def Let_def)
qed

lemma pages_of_review:
  assumes "review_shown (p_items ps) es" "list_all2 (renders (parsed_json ps bs)) es vs"
  shows "map (parsed_item ps address bs) [0..<num_items ps] = map Inr (zip (titles (map fst es)) vs)"
proof -
  have n: "length es = num_items ps" "length vs = num_items ps"
    using review_shown_length [OF assms(1)] list_all2_lengthD [OF assms(2)] by (simp_all add: num_items_def)
  have "parsed_item ps address bs i = Inr (titles (map fst es) ! i, vs ! i)" if i: "i < num_items ps" for i
  proof -
    have "renders (parsed_json ps bs) (es ! i) (vs ! i)" using assms(2) i n by (simp add: list_all2_nthD)
    then have "render (p_items ps) (parsed_json ps bs) (b64 ps) address i = Inr (vs ! i)"
      using shown_item [OF assms(1)] i by (simp add: renders_def num_items_def)
    then show ?thesis using title_of_keys [OF assms(1)] i by (simp add: parsed_item_def num_items_def)
  qed
  then show ?thesis using n by (auto simp: titles_def intro!: nth_equalityI)
qed

lemma digit_one: "byte_of 49 = CHR ''1''"
  by code_simp

lemma transfer_titles: "titles (transfer_keys f ty) = map fst (transfer_pages f ty addr fee)"
  by (simp add: titles_def transfer_keys_def transfer_pages_def w_puts_def w_put_def TITLE_BUF_def upt_rec u32_digits.simps
      digit_byte_def digit_one)

section \<open>The parse\<close>

text \<open>What a session needs besides the body: room for the tokens, a fee that fits, a hash.\<close>

lemma transfer_parsed:
  assumes "plain_transfer ty f" "length addr = 64"
    "list_all (\<lambda>b. is_ascii_digit b \<or> 97 \<le> byte_val b \<and> byte_val b \<le> 102) addr" "57 \<le> cap"
  shows "\<exists>ts. read_json cap (concat (format_pieces f ty addr)) ps =
      (Inr (), ps \<lparr> p_tokens := ts, json_len := length (concat (format_pieces f ty addr)) \<rparr>) \<and>
    transfer_doc (parsed_json (ps \<lparr> p_tokens := ts, json_len := length (concat (format_pieces f ty addr)) \<rparr>)
      (concat (format_pieces f ty addr))) f ty addr"
proof -
  have t: "ty \<in> {TX_TYPE_TRANSFER, TX_TYPE_TRANSFER_CREATE, TX_TYPE_TRANSFER_CROSSCHAIN}" "lengths_ok f" "contents_ok f ty"
    using assms(1) by (auto simp: plain_transfer_def transfer_fields_ok_def tx_type_defs)
  let ?v = "transfer_tree f ty addr"
  note json_text = template_is_tree [OF t(1), of f addr]
  have wf: "jval_wf ?v" by (rule transfer_tree_wf [OF t(3) lower_safe [OF assms(3)]])
  have "jsize ?v \<le> cap" using transfer_tree_size [of f ty addr] assms(4) by linarith
  from read_json_tree [OF wf transfer_tree_length [OF t(2) assms(2) t(1)] this, of ps]
  have r: "read_json cap (jprint ?v) ps = (Inr (), ps \<lparr> p_tokens := jtoks 0 ?v, json_len := jlen ?v \<rparr>)"
    using tree_integrity [of ?v] transfer_tree_keys [of f ty addr] by simp
  have "parsed_json (ps \<lparr> p_tokens := jtoks 0 ?v, json_len := jlen ?v \<rparr>) (jprint ?v) = json_of ?v"
    by (simp add: parsed_json_def json_of_def del: jtoks.simps jprint.simps)
  then have "transfer_doc (parsed_json (ps \<lparr> p_tokens := jtoks 0 ?v, json_len := jlen ?v \<rparr>) (jprint ?v)) f ty addr"
    using t assms(2,3) by (simp add: transfer_doc_def)
  then show ?thesis using r unfolding json_text by blast
qed

lemma transfer_stored:
  assumes "plain_transfer ty f" "max_fee (f ! GAS_LIMIT) (f ! GAS_PRICE) 295 = Some fee"
    "transfer_doc (parsed_json ps bs) f ty (hex_lower pk)" "json_len ps = length bs" "bl bs = Some digest"
  shows "\<exists>ps'. store_items (Some pk) bl TxTransfer bs hin False ps = (Inr (), ps') \<and>
    map (parsed_item ps' (Some pk) bs) [0..<num_items ps'] = map Inr (transfer_pages f ty (hex_lower pk) fee) \<and>
    validate ps' (Some pk) bs = Inr () \<and> \<not> needs_blind (p_items ps') \<and> p_tx_type ps' = TxTransfer"
proof -
  let ?j = "parsed_json ps bs" and ?pages = "transfer_pages f ty (hex_lower pk) fee"
  obtain e es where e: "find_device_signer ?j (hex_lower pk) = Inr (e, 1)" "tx_review ?j e 1 = Inr es"
    "list_all2 (renders ?j) es (map snd ?pages)" "map fst es = transfer_keys f ty" "\<not> list_ex blind_entry es"
    using transfer_entries [OF assms(3,1,2)] by blast
  have full: "full_review TxTransfer ?j e 1 False = Inr es" using e(2) by (simp add: full_review_def cat_def)
  note wf = transfer_doc_wf [OF assms(3)]
  have nov: "get_value ?j 0 ''verifiers'' = Inl NoData"
    by (rule node_no_value [OF wf]) (simp_all add: transfer_members_def)
  have "length es = length (transfer_keys f ty)" using e(4) by (metis length_map)
  then have "length es < MAX_ITEMS" by (simp add: transfer_keys_def MAX_ITEMS_def)
  then obtain ps' where st: "store_items (Some pk) bl TxTransfer bs hin False ps = (Inr (), ps')"
    using store_items_run [of TxTransfer ps bs pk e 1 False es bl digest hin] nov e(1) full assms(4,5) by auto
  from store_items_json [OF st] have r: "review_shown (p_items ps') es" "parsed_json ps' bs = ?j" "p_tx_type ps' = TxTransfer"
    using e(1) full by auto
  have pages: "map (parsed_item ps' (Some pk) bs) [0..<num_items ps'] = map Inr ?pages"
    using pages_of_review [OF r(1), of bs "map snd ?pages"] e(3) r(2)
    by (simp add: e(4) transfer_titles [of f ty "hex_lower pk" fee] zip_map_fst_snd)
  have "is_ok (parsed_item ps' (Some pk) bs i)" if "i < num_items ps'" for i
  proof -
    have "parsed_item ps' (Some pk) bs i \<in> set (map Inr ?pages)" unfolding pages [symmetric] using that by simp
    then show ?thesis by (auto simp: is_ok_iff)
  qed
  then show ?thesis using st pages needs_blind_iff [OF r(1)] e(5) r(3) by (auto simp: validate_iff list_all_iff)
qed

lemma transfer_parse:
  assumes "plain_transfer ty f" "max_fee (f ! GAS_LIMIT) (f ! GAS_PRICE) 295 = Some fee"
    "device_wf (dev m)" "tx (dev m) = byte_of ty # encode_fields f" "public_key env (sign_path m) = Some pk"
    "os_blake2b env (concat (format_pieces f ty (hex_lower pk))) = Some digest" "\<not> dev_expert env" "57 \<le> cap"
  shows "\<exists>ps. tx_parse env cap TxTransfer (length (tx (dev m))) m =
      (Inr False, m \<lparr> dev := template_store (dev m) (concat (format_pieces f ty (hex_lower pk))), app_parsed := ps \<rparr>) \<and>
    map (parsed_item ps (Some pk) (concat (format_pieces f ty (hex_lower pk)))) [0..<num_items ps] =
      map Inr (transfer_pages f ty (hex_lower pk) fee) \<and> p_tx_type ps = TxTransfer"
proof -
  let ?t = "concat (format_pieces f ty (hex_lower pk))"
  have pk: "length pk = 32" using public_key_length [OF assms(5)] .
  have build: "transfer_build (tx (dev m)) (Some pk) = Inr ?t"
    using assms(1,4) pk by (subst transfer_build_iff) (auto simp: plain_transfer_def)
  then have store: "tx (template_store (dev m) ?t) = tx (dev m)" "template (template_store (dev m) ?t) = ?t"
    using template_built [OF assms(3), of env "sign_path m" ?t] assms(5) by simp_all
  have "length (hex_lower pk) = 64" using pk by (simp add: length_hex_lower)
  from transfer_parsed [OF assms(1) this hex_lower_lower assms(8)] obtain ts where
    r: "read_json cap ?t (app_parsed m) = (Inr (), (app_parsed m) \<lparr> p_tokens := ts, json_len := length ?t \<rparr>)"
    "transfer_doc (parsed_json ((app_parsed m) \<lparr> p_tokens := ts, json_len := length ?t \<rparr>) ?t) f ty (hex_lower pk)" by blast
  obtain ps where ps: "store_items (Some pk) (os_blake2b env) TxTransfer ?t None False
      ((app_parsed m) \<lparr> p_tokens := ts, json_len := length ?t \<rparr>) = (Inr (), ps)"
    "map (parsed_item ps (Some pk) ?t) [0..<num_items ps] = map Inr (transfer_pages f ty (hex_lower pk) fee)"
    "validate ps (Some pk) ?t = Inr ()" "\<not> needs_blind (p_items ps)" "p_tx_type ps = TxTransfer"
    using transfer_stored [where bl = "os_blake2b env" and hin = None, OF assms(1,2) r(2) _ assms(6)] by auto
  have "tx_parse env cap TxTransfer (length (tx (dev m))) m =
      (Inr False, m \<lparr> dev := template_store (dev m) ?t, app_parsed := ps \<rparr>)"
    using assms(4,5,7) build store r(1) ps(1,3,4)
    by (simp add: tx_parse_def bnd_def reads_def thn_eq tx_tokenize_def on_parsed_def modifies_def lifts_def
        json_source_def blind_gate_def Let_def)
  then show ?thesis using ps(2,5) by blast
qed

section \<open>The session\<close>

lemma transfer_last:
  assumes "minv m" "cap < UNSET" "57 \<le> cap" "os_pin_validated env" "\<not> dev_expert env"
    "app_stream m = Modern INS_SIGN_TRANSFER" "tx (dev m) @ data = byte_of ty # encode_fields f"
    "plain_transfer ty f" "max_fee (f ! GAS_LIMIT) (f ! GAS_PRICE) 295 = Some fee"
    "public_key env (sign_path m) = Some pk"
    "os_blake2b env (concat (format_pieces f ty (hex_lower pk))) = Some digest"
  shows "\<exists>m'. handle env cap 0 INS_SIGN_TRANSFER P1_LAST p2 data m = (ReviewTx False, m') \<and>
    app_pending m' = PendingSign (SignModern TxTransfer) \<and> sign_path m' = sign_path m \<and>
    tx (dev m') = byte_of ty # encode_fields f \<and>
    template (dev m') = concat (format_pieces f ty (hex_lower pk)) \<and>
    map (review_item env m') [0..<review_len m'] = map Inr (transfer_pages f ty (hex_lower pk) fee)"
proof -
  let ?t = "concat (format_pieces f ty (hex_lower pk))" and ?c = "closed_with data m"
  have ins: "INS_SIGN_TRANSFER \<in> modern_ins" "stream_type INS_SIGN_TRANSFER = TxTransfer"
    by (simp_all add: modern_ins_def stream_type_def ins_defs)
  have wf: "device_wf (dev m)" using assms(1) by (simp add: minv_def)
  have f: "transfer_fields_ok ty f" using assms(8) by (simp add: plain_transfer_def)
  have pk: "length pk = 32" using public_key_length [OF assms(10)] .
  have "length (byte_of ty # encode_fields f) \<le> FLASH_CAP"
    using encode_fields_length [OF lengths_ok_short [of f]] f by (simp add: transfer_fields_ok_def FLASH_CAP_def FIELDS_def)
  then have ok: "fst (tx_append (dev m) data)"
    using tx_append_spec(2) [OF wf, of data] by (simp flip: assms(7))
  have c: "tx (dev ?c) = byte_of ty # encode_fields f" "sign_path ?c = sign_path m" "device_wf (dev ?c)"
    using tx_append_spec(1,3) [OF wf, of data] ok assms(7) by (simp_all add: closed_with_def)
  obtain ps where p: "tx_parse env cap TxTransfer (length (tx (dev ?c))) ?c =
      (Inr False, ?c \<lparr> dev := template_store (dev ?c) ?t, app_parsed := ps \<rparr>)"
    "map (parsed_item ps (Some pk) ?t) [0..<num_items ps] = map Inr (transfer_pages f ty (hex_lower pk) fee)"
    "p_tx_type ps = TxTransfer"
    using transfer_parse [OF assms(8,9) c(3,1) _ assms(11,5,3)] c(2) assms(10) by auto
  have "transfer_build (tx (dev ?c)) (public_key env (sign_path m)) = Inr ?t"
    using f c(1) pk assms(10) by (subst transfer_build_iff) auto
  note built = template_built [OF c(3) this]
  have "handle env cap 0 INS_SIGN_TRANSFER P1_LAST p2 data m =
      (ReviewTx False, (?c \<lparr> dev := template_store (dev ?c) ?t, app_parsed := ps \<rparr>) \<lparr> app_pending := PendingSign (SignModern TxTransfer) \<rparr>)"
    using last_step [OF ins(1) assms(4,6) ok] p(1) by (simp add: ins(2))
  then show ?thesis using p(2,3) built c assms(10)
    by (simp add: review_len_def review_item_def [abs_def] review_json_def)
qed

section \<open>A body that is no transfer\<close>

text \<open>Why a body is refused, on whole bodies: the first check of the code that fails.\<close>

inductive refused_for :: "bytes \<Rightarrow> parser_error \<Rightarrow> bool" where
  empty_body: "refused_for [] InitContextEmpty"
| unknown_type: "2 < byte_val b \<Longrightarrow> refused_for (b # r) UnexpectedValue"
| cut_off: "byte_val b \<le> 2 \<Longrightarrow>
    \<nexists>f rest. length f = FIELDS \<and> list_all (\<lambda>x. length x < 256) f \<and> r = encode_fields f @ rest \<Longrightarrow>
    refused_for (b # r) UnexpectedBufferEnd"
| trailing: "byte_val b \<le> 2 \<Longrightarrow> length f = FIELDS \<Longrightarrow> list_all (\<lambda>x. length x < 256) f \<Longrightarrow> rest \<noteq> [] \<Longrightarrow>
    refused_for (b # encode_fields f @ rest) UnexpectedUnparsedBytes"
| bad_length: "byte_val b \<le> 2 \<Longrightarrow> length f = FIELDS \<Longrightarrow> list_all (\<lambda>x. length x < 256) f \<Longrightarrow> \<not> lengths_ok f \<Longrightarrow>
    refused_for (b # encode_fields f) ValueOutOfRange"
| bad_content: "byte_val b \<le> 2 \<Longrightarrow> length f = FIELDS \<Longrightarrow> lengths_ok f \<Longrightarrow> \<not> contents_ok f (byte_val b) \<Longrightarrow>
    refused_for (b # encode_fields f) UnexpectedCharacters"

lemma read_fields_error: "read_fields k r = Inl e \<Longrightarrow> e = UnexpectedBufferEnd"
  by (induction k arbitrary: r)
     (auto simp: reader_byte_def reader_bytes_def Let_def rbind_def split: if_splits list.splits sum.splits)

text \<open>A body that is not accepted is refused, with a reason that fits it.\<close>

lemma transfer_build_refused:
  assumes "\<nexists>ty f. transfer_fields_ok ty f \<and> input = byte_of ty # encode_fields f" "input \<noteq> []"
  shows "\<exists>e. transfer_build input address = Inl e \<and> refused_for input e"
proof -
  obtain b r where i: "input = b # r" using assms(2) by (cases input) auto
  show ?thesis
  proof (cases "byte_val b \<le> 2")
    case False
    then show ?thesis using i
      by (auto simp: transfer_build_def reader_byte_def Let_def tx_type_le intro: unknown_type)
  next
    case ty: True
    show ?thesis
    proof (cases "read_fields FIELDS r")
      case (Inl e)
      then have "\<nexists>f rest. length f = FIELDS \<and> list_all (\<lambda>x. length x < 256) f \<and> r = encode_fields f @ rest"
        by (metis read_fields_iff Inl_Inr_False)
      then show ?thesis using Inl ty i read_fields_error [OF Inl]
        by (auto simp: transfer_build_def reader_byte_def Let_def tx_type_le intro: cut_off)
    next
      case (Inr q)
      then obtain f rest where f: "read_fields FIELDS r = Inr (f, rest)" by (cases q) auto
      then have e: "length f = FIELDS" "list_all (\<lambda>x. length x < 256) f" "r = encode_fields f @ rest"
        by (simp_all add: read_fields_iff)
      have "rest = [] \<Longrightarrow> lengths_ok f \<Longrightarrow> \<not> contents_ok f (byte_val b)"
        using assms(1) ty e i by (force simp: transfer_fields_ok_def)
      then show ?thesis using f e ty i trailing [OF ty e(1,2)] bad_length [OF ty e(1,2)] bad_content [OF ty e(1)]
        by (auto simp: transfer_build_def reader_byte_def Let_def tx_type_le)
    qed
  qed
qed

lemma transfer_last_refused:
  assumes "device_wf (dev m)" "os_pin_validated env" "app_stream m = Modern INS_SIGN_TRANSFER"
    "length (tx (dev m) @ data) \<le> FLASH_CAP"
    "\<nexists>ty f. transfer_fields_ok ty f \<and> tx (dev m) @ data = byte_of ty # encode_fields f"
  shows "\<exists>e. handle env cap 0 INS_SIGN_TRANSFER P1_LAST p2 data m =
      (Reply (reply_with [description e] DATA_INVALID), closed_with data m) \<and> refused_for (tx (dev m) @ data) e"
proof -
  let ?c = "closed_with data m"
  have ins: "INS_SIGN_TRANSFER \<in> modern_ins" "stream_type INS_SIGN_TRANSFER = TxTransfer"
    by (simp_all add: modern_ins_def stream_type_def ins_defs)
  have ok: "fst (tx_append (dev m) data)" using assms(4) tx_append_spec(2) [OF assms(1)] by simp
  have c: "tx (dev ?c) = tx (dev m) @ data" using tx_append_spec(3) [OF assms(1)] ok by (simp add: closed_with_def)
  obtain e where e: "tx_parse env cap TxTransfer (length (tx (dev ?c))) ?c = (Inl e, ?c)" "refused_for (tx (dev ?c)) e"
  proof (cases "tx (dev ?c) = []")
    case True
    then show ?thesis using that empty_body by (simp add: tx_parse_def fails_def)
  next
    case False
    then show ?thesis
      using that transfer_build_refused [of "tx (dev ?c)" "public_key env (sign_path ?c)"] assms(5) c
      by (auto simp: tx_parse_def tx_tokenize_def bnd_def reads_def thn_eq lifts_def)
  qed
  have "e \<noteq> BlindsignModeRequired" using e(2) by (auto elim: refused_for.cases)
  then show ?thesis using last_step [OF ins(1) assms(2,3) ok] e c by (auto simp: ins(2) error_with_message_def)
qed

end
