(* ===== verification/Screens.thy ===== *)
theory Screens
  imports App "HOL-Library.Sublist"
begin

text \<open>
  The screens (\<open>ui.rs\<close>) and the main loop (\<open>main.rs\<close>): how titles and values become screen fields,
  how a review is shown batch after batch, and one turn of the loop. The text measurement of the
  NBGL library and the user are parameters; the text is printable ASCII with line breaks, so that a
  character is one byte.
\<close>

section \<open>Text on Nano screens\<close>

text \<open>
  The NBGL calls: how many bytes of a text fit a number of lines, breaking at words or anywhere, and
  how many lines a title takes. \<open>value_lines\<close> is \<open>NB_MAX_LINES - 1\<close>.
\<close>

record font =
  text_len :: "bytes \<Rightarrow> nat \<Rightarrow> bool \<Rightarrow> nat"
  title_lines :: "bytes \<Rightarrow> nat"
  value_lines :: nat

definition WINDOW :: nat where "WINDOW = 256"

definition NEWLINE :: byte where "NEWLINE = CHR 0x0A"

definition measure_text :: "font \<Rightarrow> bytes \<Rightarrow> nat \<Rightarrow> bool \<Rightarrow> nat" where
  "measure_text f txt lines wrapping =
     (let n = min (length txt) WINDOW;
          shown_bytes = map (\<lambda>b. if b = NUL then CHR '' '' else b) (take n txt)
      in min (text_len f shown_bytes lines wrapping) n)"

definition page_len :: "font \<Rightarrow> bytes \<Rightarrow> nat \<Rightarrow> nat" where
  "page_len f txt lines = measure_text f txt lines True"

definition fits_one_page :: "font \<Rightarrow> bytes \<Rightarrow> nat \<Rightarrow> bool" where
  "fits_one_page f txt lines \<longleftrightarrow> length txt \<le> WINDOW \<and> page_len f txt lines \<ge> length txt"

definition title_fits :: "font \<Rightarrow> bytes \<Rightarrow> bool" where
  "title_fits f t \<longleftrightarrow> title_lines f (map (\<lambda>b. if b = NUL then CHR '' '' else b) t) \<le> 1"

text \<open>\<open>hard_wrap\<close>: the lines, at least one character each, with a line break between them.\<close>

function wrap_lines :: "font \<Rightarrow> bytes \<Rightarrow> bytes list" where
  "wrap_lines f rest =
     (if rest = [] then []
      else (let len = max 1 (measure_text f rest 1 False)
            in take len rest # wrap_lines f (drop len rest)))"
  by pat_completeness auto
termination
  by (relation "measure (\<lambda>(f, rest). length rest)") auto

declare wrap_lines.simps [simp del]

fun join_lines :: "bytes list \<Rightarrow> bytes" where
  "join_lines [] = []"
| "join_lines [l] = l"
| "join_lines (l # ls) = l @ NEWLINE # join_lines ls"

definition hard_wrap :: "font \<Rightarrow> bytes \<Rightarrow> bytes" where
  "hard_wrap f txt = join_lines (wrap_lines f txt)"

text \<open>A page break takes one space; further spaces before it start the next page.\<close>

fun trim_take :: "bytes \<Rightarrow> nat \<Rightarrow> nat" where
  "trim_take rest k =
     (if k < length rest \<and> k > 1 \<and> rest ! (k - 1) = CHR '' '' then trim_take rest (k - 1) else k)"

declare trim_take.simps [simp del]

definition page_break :: "font \<Rightarrow> bytes \<Rightarrow> nat \<Rightarrow> nat \<times> nat" where
  "page_break f rest lines = (let len = max 1 (page_len f rest lines) in (len, trim_take rest len))"

definition strip_newline :: "bytes \<Rightarrow> bytes" where
  "strip_newline rest = (case rest of [] \<Rightarrow> [] | c # cs \<Rightarrow> if c = NEWLINE then cs else rest)"

lemma trim_take_bounds: "trim_take rest k \<le> k" "0 < k \<Longrightarrow> 0 < trim_take rest k"
  by (induction rest k rule: trim_take.induct) (subst trim_take.simps, auto)+

lemma strip_newline_length: "length (strip_newline rest) \<le> length rest"
  by (simp add: strip_newline_def split: list.split)

function pages :: "font \<Rightarrow> bytes \<Rightarrow> nat \<Rightarrow> bytes list" where
  "pages f rest lines =
     (if rest = [] then []
      else (let (len, k) = page_break f rest lines;
                after = drop k rest
            in take k rest # pages f (strip_newline (if k < len then drop 1 after else after)) lines))"
  by pat_completeness auto
termination
proof (relation "measure (\<lambda>(f, rest, lines). length rest)")
  fix f rest lines len k and x :: "nat \<times> nat" and after :: bytes
  assume r: "rest \<noteq> []" "x = page_break f rest lines" "(len, k) = x" "after = drop k rest"
  then have "0 < k" using trim_take_bounds(2) [of "max 1 (page_len f rest lines)" rest]
    by (simp add: page_break_def Let_def)
  then have "length (if k < len then drop 1 after else after) < length rest" using r by (cases rest) auto
  then show "((f, strip_newline (if k < len then drop 1 after else after), lines), (f, rest, lines))
      \<in> measure (\<lambda>(f, rest, lines). length rest)"
    using strip_newline_length [of "if k < len then drop 1 after else after"] by simp
qed simp

declare pages.simps [simp del]

text \<open>\<open>split_title\<close>: the longest prefix all of whose prefixes fit, back to its last space.\<close>

function fit_prefix :: "font \<Rightarrow> bytes \<Rightarrow> nat \<Rightarrow> nat" where
  "fit_prefix f t i =
     (if i < length t \<and> title_fits f (take (Suc i) t) then fit_prefix f t (Suc i) else i)"
  by pat_completeness auto
termination
  by (relation "measure (\<lambda>(f, t, i). length t - i)") auto

declare fit_prefix.simps [simp del]

fun last_space :: "bytes \<Rightarrow> nat \<Rightarrow> nat option" where
  "last_space t 0 = None"
| "last_space t (Suc i) = (if t ! i = CHR '' '' then Some i else last_space t i)"

definition is_ascii_space :: "byte \<Rightarrow> bool" where
  "is_ascii_space b \<longleftrightarrow> b = CHR '' '' \<or> (9 \<le> byte_val b \<and> byte_val b \<le> 13)"

definition title_cut :: "font \<Rightarrow> bytes \<Rightarrow> nat" where
  "title_cut f t =
     (let cut = fit_prefix f t 0 in
      case last_space t cut of Some sp \<Rightarrow> if sp > 0 then sp else cut | None \<Rightarrow> cut)"

definition split_title :: "font \<Rightarrow> bytes \<Rightarrow> bytes \<times> bytes option" where
  "split_title f t =
     (if title_fits f t then (t, None)
      else (let cut = title_cut f t in
        if cut = 0 then (t, None)
        else (take cut t, Some (dropWhile is_ascii_space (drop cut t)))))"

section \<open>Screen fields\<close>

type_synonym field = "bytes \<times> bytes"

text \<open>\<open>(i/n)\<close>\<close>

definition page_mark :: "nat \<Rightarrow> nat \<Rightarrow> bytes" where
  "page_mark i n = ''('' @ u32_digits i @ ''/'' @ u32_digits n @ '')''"

definition marked_title :: "bytes \<Rightarrow> nat \<Rightarrow> nat \<Rightarrow> bytes" where
  "marked_title head i n = head @ '' '' @ page_mark i n"

definition marked_text :: "bytes option \<Rightarrow> nat \<Rightarrow> nat \<Rightarrow> bytes \<Rightarrow> bytes" where
  "marked_text tail i n pg =
     (case tail of Some t \<Rightarrow> t @ '' '' @ page_mark i n | None \<Rightarrow> page_mark i n) @ NEWLINE # pg"

definition marked_texts :: "bytes option \<Rightarrow> bytes list \<Rightarrow> bytes list" where
  "marked_texts tail pgs = map (\<lambda>(i, pg). marked_text tail (Suc i) (length pgs) pg) (enumerate 0 pgs)"

text \<open>Fewer and fewer value lines, until every page fits with its mark.\<close>

fun marked_layout :: "font \<Rightarrow> bytes \<Rightarrow> bytes option \<Rightarrow> bytes \<Rightarrow> nat list \<Rightarrow> field list option" where
  "marked_layout f head tail v [] = None"
| "marked_layout f head tail v (lines # ls) =
     (let texts = marked_texts tail (pages f v lines) in
      if list_all (\<lambda>t. fits_one_page f t (value_lines f)) texts
      then Some (map (\<lambda>t. (head, t)) texts)
      else marked_layout f head tail v ls)"

definition nano_fields :: "font \<Rightarrow> bytes \<Rightarrow> bytes \<Rightarrow> field list" where
  "nano_fields f title0 value0 =
     (let v = (if CHR '' '' \<in> set value0 \<or> NEWLINE \<in> set value0 then value0 else hard_wrap f value0);
          vl = value_lines f;
          (head, tail) = split_title f title0;
          one = (case tail of Some t \<Rightarrow> t @ NEWLINE # v | None \<Rightarrow> v);
          pgs = pages f v vl;
          n = length pgs
      in if fits_one_page f one vl then [(head, one)]
         else if tail = None \<and> list_all (\<lambda>i. title_fits f (marked_title head i n)) [1..<Suc n]
         then map (\<lambda>(i, pg). (marked_title head (Suc i) n, pg)) (enumerate 0 pgs)
         else (case marked_layout f head tail v (rev [1..<vl]) of
                 Some fs \<Rightarrow> fs
               | None \<Rightarrow> map (\<lambda>pg. (head, pg)) (pages f one vl)))"

text \<open>Touch screens show a title and its whole value.\<close>

datatype target = Touch | Nano font

definition screen_fields :: "target \<Rightarrow> bytes \<Rightarrow> bytes \<Rightarrow> field list" where
  "screen_fields tgt t v = (case tgt of Touch \<Rightarrow> [(t, v)] | Nano f \<Rightarrow> nano_fields f t v)"

text \<open>The fields of a review item: title and value as screen text.\<close>

definition item_fields :: "target \<Rightarrow> bytes \<times> bytes \<Rightarrow> field list" where
  "item_fields tgt tv = screen_fields tgt (display_text (fst tv)) (display_text (snd tv))"

section \<open>Reviews\<close>

definition BATCH_BYTES :: nat where "BATCH_BYTES = 1200"
definition FIELD_OVERHEAD :: nat where "FIELD_OVERHEAD = 32"
definition BATCH_ITEMS :: nat where "BATCH_ITEMS = 16"

definition fields_cost :: "field list \<Rightarrow> nat" where
  "fields_cost fs = sum_list (map (\<lambda>(t, v). length t + length v + FIELD_OVERHEAD) fs)"

text \<open>
  \<open>batch\<close>: the fields of the items from \<open>i\<close> on and the first item left out. The review items are
  given by \<open>item\<close> and their number \<open>len\<close>; an item that does not render ends the review.
\<close>

type_synonym item_source = "nat \<Rightarrow> items_error + (bytes \<times> bytes)"

function batch_loop :: "target \<Rightarrow> item_source \<Rightarrow> nat \<Rightarrow> field list \<Rightarrow> nat \<Rightarrow> nat \<Rightarrow> (field list \<times> nat) option" where
  "batch_loop tgt item len out used i =
     (if i < len \<and> length out < BATCH_ITEMS then
        (case item i of
           Inl _ \<Rightarrow> None
         | Inr tv \<Rightarrow>
             (let fs = item_fields tgt tv; cost = fields_cost fs in
              if out \<noteq> [] \<and> used + cost > BATCH_BYTES then Some (out, i)
              else batch_loop tgt item len (out @ fs) (used + cost) (Suc i)))
      else Some (out, i))"
  by pat_completeness auto
termination
  by (relation "measure (\<lambda>(tgt, item, len, out, used, i). len - i)") auto

declare batch_loop.simps [simp del]

definition batch :: "target \<Rightarrow> item_source \<Rightarrow> nat \<Rightarrow> nat \<Rightarrow> (field list \<times> nat) option" where
  "batch tgt item len i =
     (case batch_loop tgt item len [] 0 i of None \<Rightarrow> None | Some (fs, k) \<Rightarrow> Some (fs, k - i))"

text \<open>
  What is put on the screen, and the user: an answer to each screen, who has seen all the screens
  before. The flag of the first and last review screen is the blind-signing variant (the warning, and
  ``Accept risk and sign transaction?''), the first flag of the status an address, that of the home
  screen its settings page.
\<close>

datatype screen =
    StartReview bool
  | ShowFields "field list"
  | FinishReview bool
  | ShowAddress bytes "bytes option"
  | BlindSignSetting
  | ShowStatus bool bool
  | HomeScreen bool

type_synonym user = "screen list \<Rightarrow> bool"

lemma batch_loop_le: "batch_loop tgt item len out used i = Some (fs, k) \<Longrightarrow> i \<le> k"
proof (induction tgt item len out used i arbitrary: fs k rule: batch_loop.induct)
  case (1 tgt item len out used i)
  note run = 1(2) [unfolded batch_loop.simps [of tgt item len out used i]]
  show ?case
  proof (cases "i < len \<and> length out < BATCH_ITEMS")
    case True
    then obtain tv where tv: "item i = Inr tv" using run by (cases "item i") auto
    then show ?thesis using run True 1(1) [OF True tv refl refl]
      by (cases "out \<noteq> [] \<and> used + fields_cost (item_fields tgt tv) > BATCH_BYTES") (auto simp: Let_def)
  next
    case False
    then show ?thesis using run by (auto simp: if_not_P)
  qed
qed

lemma batch_progress:
  assumes "batch tgt item len i = Some (fs, n)" "i < len"
  shows "0 < n"
proof -
  obtain k where "batch_loop tgt item len [] 0 i = Some (fs, k)" "n = k - i"
    using assms(1) by (auto simp: batch_def split: option.splits)
  note run = this(1) [unfolded batch_loop.simps [of tgt item len "[]" 0 i]] and n = this(2)
  from run assms(2) obtain tv where tv: "item i = Inr tv" by (cases "item i") (auto simp: BATCH_ITEMS_def)
  then have "batch_loop tgt item len (item_fields tgt tv) (fields_cost (item_fields tgt tv)) (Suc i) = Some (fs, k)"
    using run assms(2) by (simp add: Let_def BATCH_ITEMS_def)
  then show ?thesis using batch_loop_le n by force
qed

text \<open>The loop of \<open>review_tx\<close>: batch after batch, each one accepted by the user, then the last screen.\<close>

function review_loop :: "target \<Rightarrow> item_source \<Rightarrow> nat \<Rightarrow> bool \<Rightarrow> user \<Rightarrow> screen list \<Rightarrow> nat \<Rightarrow> bool \<times> screen list" where
  "review_loop tgt item len blind user hist i =
     (if i < len then
        (case batch tgt item len i of
           None \<Rightarrow> (False, hist)
         | Some (fs, n) \<Rightarrow>
             (let h = hist @ [ShowFields fs] in
              if \<not> user h then (False, h) else review_loop tgt item len blind user h (i + n)))
      else (let h = hist @ [FinishReview blind] in (user h, h)))"
  by pat_completeness auto
termination
  by (relation "measure (\<lambda>(tgt, item, len, blind, user, hist, i). len - i)") (auto dest: batch_progress)

declare review_loop.simps [simp del]

definition review_tx :: "target \<Rightarrow> item_source \<Rightarrow> nat \<Rightarrow> bool \<Rightarrow> user \<Rightarrow> bool \<times> screen list" where
  "review_tx tgt item len blind user =
     (let h = [StartReview blind] in
      if \<not> user h then (False, h) else review_loop tgt item len blind user h 0)"

text \<open>\<open>hex\<close> of \<open>ui.rs\<close>: the screen and the transfer template write a key alike.\<close>

definition hex_text :: "bytes \<Rightarrow> bytes" where
  "hex_text bs = concat (map (hex_pair ''0123456789abcdef'') bs)"

lemma hex_text_lower [simp]: "hex_text bs = hex_lower bs"
  by (simp add: hex_text_def hex_lower_def HEX_LOWER_def)

definition review_address :: "os_env \<Rightarrow> user \<Rightarrow> machine \<Rightarrow> bool \<times> screen list" where
  "review_address env user m =
     (case address_review m of
        None \<Rightarrow> (False, [])
      | Some pk \<Rightarrow>
          (let h = [ShowAddress (hex_text pk)
                 (if dev_expert env then Some (path_to_str (hd_path m)) else None)]
           in (user h, h)))"

section \<open>The main loop\<close>

text \<open>One turn: a command, its screens, the reply.\<close>

definition main_turn :: "os_env \<Rightarrow> nat \<Rightarrow> target \<Rightarrow> user \<Rightarrow> nat \<Rightarrow> nat \<Rightarrow> nat \<Rightarrow> nat \<Rightarrow> bytes \<Rightarrow> machine \<Rightarrow>
    reply \<times> screen list \<times> machine" where
  "main_turn env cap tgt user cla ins p1 p2 data m =
     (case handle env cap cla ins p1 p2 data m of
        (Reply r, m1) \<Rightarrow> (r, [], m1)
      | (ReviewAddress, m1) \<Rightarrow>
          (let (approved, h) = review_address env user m1;
               (r, m2) = address_done approved m1
           in (r, h @ [ShowStatus True approved, HomeScreen False], m2))
      | (ReviewTx blind, m1) \<Rightarrow>
          (let (approved, h) = review_tx tgt (review_item env m1) (review_len m1) blind user;
               (r, m2) = sign_done env approved m1
           in (r, h @ [ShowStatus False (approved \<and> reply_sw r = SW_OK), HomeScreen False], m2))
      | (BlindSignRequired r, m1) \<Rightarrow>
          (let settings = user [BlindSignSetting] in (r, [BlindSignSetting, HomeScreen settings], m1)))"

text \<open>The loop: a sequence of commands, each with the device and the user at that time.\<close>

record apdu =
  apdu_cla :: nat
  apdu_ins :: nat
  apdu_p1 :: nat
  apdu_p2 :: nat
  apdu_data :: bytes

fun main_loop :: "nat \<Rightarrow> target \<Rightarrow> (os_env \<times> user \<times> apdu) list \<Rightarrow> machine \<Rightarrow> (reply \<times> screen list) list \<times> machine" where
  "main_loop cap tgt [] m = ([], m)"
| "main_loop cap tgt ((env, user, c) # cs) m =
     (let (r, h, m1) = main_turn env cap tgt user (apdu_cla c) (apdu_ins c) (apdu_p1 c) (apdu_p2 c) (apdu_data c) m;
          (out, m2) = main_loop cap tgt cs m1
      in ((r, h) # out, m2))"

end
