(* ===== verification/Screen_Props.thy ===== *)
theory Screen_Props
  imports Screens
begin

text \<open>
  What reaches the user: paging and wrapping lose no visible character, a title is never shortened,
  a review that ends with an approval has shown the fields of every item in order.
\<close>

section \<open>Pages and lines\<close>

definition visible :: "byte \<Rightarrow> bool" where
  "visible b \<longleftrightarrow> b \<noteq> CHR '' '' \<and> b \<noteq> NEWLINE"

lemma visible_simps [simp]: "\<not> visible (CHR '' '')" "\<not> visible NEWLINE"
  by (simp_all add: visible_def)

lemma trim_take_space: "trim_take rest k < k \<Longrightarrow> rest ! trim_take rest k = CHR '' ''"
proof (induction rest k rule: trim_take.induct)
  case (1 rest k)
  then have c: "k < length rest \<and> k > 1 \<and> rest ! (k - 1) = CHR '' ''"
    by (subst (asm) (2) trim_take.simps) (auto split: if_splits)
  then have t: "trim_take rest k = trim_take rest (k - 1)" by (subst trim_take.simps) simp
  show ?case
  proof (cases "trim_take rest (k - 1) < k - 1")
    case True
    then show ?thesis using 1(1) [OF c] t by simp
  next
    case False
    then have "trim_take rest (k - 1) = k - 1" using trim_take_bounds(1) [of rest "k - 1"] by simp
    then show ?thesis using t c by simp
  qed
qed

lemma filter_strip: "filter visible (strip_newline r) = filter visible r"
  by (simp add: strip_newline_def split: list.split)

lemma page_break_bounds:
  assumes "page_break f rest lines = (len, k)"
  shows "0 < k" "k \<le> len" "k < len \<Longrightarrow> rest ! k = CHR '' ''" "k < len \<Longrightarrow> k < length rest"
proof -
  have k: "k = trim_take rest len" "0 < len" using assms by (auto simp: page_break_def Let_def)
  show "0 < k" "k \<le> len" using k trim_take_bounds by auto
  show "rest ! k = CHR '' ''" if "k < len" using that k trim_take_space by simp
  show "k < length rest" if "k < len"
    using that k(1) trim_take.simps [of rest len] trim_take_bounds(1) [of rest "len - 1"] by (auto split: if_splits)
qed

text \<open>No visible character is lost, repeated or moved by paging.\<close>

lemma pages_visible: "filter visible (concat (pages f rest lines)) = filter visible rest"
proof (induction f rest lines rule: pages.induct)
  case (1 f rest lines)
  show ?case
  proof (cases "rest = []")
    case True
    then show ?thesis by (simp add: pages.simps)
  next
    case False
    obtain len k where b: "page_break f rest lines = (len, k)" by fastforce
    note kb = page_break_bounds [OF b]
    let ?after = "drop k rest" and ?next = "strip_newline (if k < len then drop 1 (drop k rest) else drop k rest)"
    have ih: "filter visible (concat (pages f ?next lines)) = filter visible ?next"
      using 1 [OF False b [symmetric] refl refl] by simp
    have "filter visible (if k < len then drop 1 ?after else ?after) = filter visible ?after"
      using kb(3,4) Cons_nth_drop_Suc [of k rest] by (cases "k < len") (auto simp flip: Cons_nth_drop_Suc)
    then have "filter visible ?next = filter visible ?after" by (simp add: filter_strip)
    moreover have "pages f rest lines = take k rest # pages f ?next lines"
      using False b by (subst pages.simps) (simp add: Let_def)
    ultimately have "filter visible (concat (pages f rest lines)) = filter visible (take k rest @ ?after)"
      using ih by (simp only: concat.simps filter_append)
    then show ?thesis by simp
  qed
qed

lemma wrap_lines_concat: "concat (wrap_lines f rest) = rest"
proof (induction f rest rule: wrap_lines.induct)
  case (1 f rest)
  then show ?case by (subst wrap_lines.simps) (simp add: Let_def)
qed

lemma join_lines_filter: "\<not> P NEWLINE \<Longrightarrow> filter P (join_lines ls) = filter P (concat ls)"
  by (induction ls rule: join_lines.induct) simp_all

lemma hard_wrap_visible: "filter visible (hard_wrap f v) = filter visible v"
  using join_lines_filter [of visible "wrap_lines f v"] by (simp add: hard_wrap_def wrap_lines_concat)

section \<open>Fields on Nano screens\<close>

lemma subseq_filter_mono: "subseq a b \<Longrightarrow> subseq (filter P a) b"
  by (rule subseq_order.order_trans [OF subseq_filter_left])

lemma subseq_concat_append: "length as = length bs \<Longrightarrow> subseq (concat bs) (concat (map2 (@) as bs))"
  by (induction as bs rule: list_induct2) (auto intro: list_emb_append_mono list_emb_append2)

lemma marked_texts_subseq: "subseq (concat pgs) (concat (marked_texts tail pgs))"
proof -
  have "\<exists>as. length as = length pgs \<and> marked_texts tail pgs = map2 (@) as pgs"
    by (intro exI [of _ "map (\<lambda>i. (case tail of Some t \<Rightarrow> t @ '' '' @ page_mark (Suc i) (length pgs)
        | None \<Rightarrow> page_mark (Suc i) (length pgs)) @ [NEWLINE]) [0..<length pgs]"])
       (auto simp: marked_texts_def marked_text_def enumerate_eq_zip zip_map1 intro!: nth_equalityI)
  then show ?thesis using subseq_concat_append by metis
qed

lemma marked_layout_SomeD:
  "marked_layout f head tail v ls = Some fs \<Longrightarrow>
   \<exists>lines. fs = map (\<lambda>t. (head, t)) (marked_texts tail (pages f v lines)) \<and>
     list_all (\<lambda>t. fits_one_page f t (value_lines f)) (map snd fs)"
  by (induction ls) (auto simp: Let_def o_def split: if_splits)


text \<open>\<open>split_title\<close>: the head and what is left over make up the title; the head fits one line.\<close>

lemma fit_prefix_fits: "i < n \<Longrightarrow> n \<le> fit_prefix f t i \<Longrightarrow> title_fits f (take n t) \<and> n \<le> length t"
proof (induction f t i arbitrary: n rule: fit_prefix.induct)
  case (1 f t i)
  show ?case
  proof (cases "i < length t \<and> title_fits f (take (Suc i) t)")
    case True
    then have "fit_prefix f t i = fit_prefix f t (Suc i)" by (subst fit_prefix.simps) simp
    then show ?thesis using 1 True by (cases "n = Suc i") auto
  next
    case False
    then have "fit_prefix f t i = i" by (subst fit_prefix.simps) auto
    then show ?thesis using 1(2,3) by simp
  qed
qed

lemma fit_prefix_pos: "t \<noteq> [] \<Longrightarrow> title_fits f (take 1 t) \<Longrightarrow> 0 < fit_prefix f t 0"
proof -
  have mono: "i \<le> fit_prefix f t i" for i
    by (induction f t i rule: fit_prefix.induct) (subst fit_prefix.simps, auto)
  assume "t \<noteq> []" "title_fits f (take 1 t)"
  then have "fit_prefix f t 0 = fit_prefix f t 1" by (subst fit_prefix.simps) simp
  then show ?thesis using mono [of 1] by simp
qed

lemma last_space_less: "last_space t n = Some i \<Longrightarrow> i < n"
  by (induction t n rule: last_space.induct) (auto split: if_splits)

lemma title_cut_bounds:
  assumes "0 < title_cut f t"
  shows "title_fits f (take (title_cut f t) t)"
proof -
  have "title_cut f t \<le> fit_prefix f t 0"
    by (auto simp: title_cut_def Let_def dest: last_space_less split: option.splits)
  then show ?thesis using fit_prefix_fits [of 0 "title_cut f t" f t] assms by simp
qed

lemma split_title_head:
  assumes "split_title f t = (head, tail)" "t = [] \<or> title_fits f (take 1 t)" "title_fits f []"
  shows "title_fits f head"
proof -
  have "0 < title_cut f t" if "t \<noteq> []"
    using fit_prefix_pos [OF that] assms(2) that by (auto simp: title_cut_def Let_def split: option.splits)
  then show ?thesis using assms title_cut_bounds [of f t]
    by (cases "t = []") (auto simp: split_title_def Let_def split: if_splits)
qed

lemma drop_spaces_visible: "list_all (\<lambda>b. b = CHR '' '' \<or> printable b) t \<Longrightarrow>
    filter visible (dropWhile is_ascii_space t) = filter visible t"
  by (induction t) (auto simp: is_ascii_space_def printable_def visible_def)

lemma split_title_visible:
  assumes "split_title f t = (head, tail)" "list_all printable t"
  shows "filter visible t = filter visible (head @ (case tail of Some r \<Rightarrow> r | None \<Rightarrow> []))"
proof (cases tail)
  case None
  then show ?thesis using assms(1) by (auto simp: split_title_def Let_def split: if_splits)
next
  case (Some r)
  then have r: "head = take (title_cut f t) t" "r = dropWhile is_ascii_space (drop (title_cut f t) t)"
    using assms(1) by (auto simp: split_title_def Let_def split: if_splits)
  have "list_all printable (drop (title_cut f t) t)"
    using assms(2) by (auto simp: list_all_iff dest: in_set_dropD)
  then have "filter visible r = filter visible (drop (title_cut f t) t)"
    unfolding r(2) by (intro drop_spaces_visible) (auto simp: list_all_iff)
  moreover have "filter visible t = filter visible (take (title_cut f t) t) @ filter visible (drop (title_cut f t) t)"
    by (simp flip: filter_append)
  ultimately show ?thesis by (simp add: Some r(1))
qed

text \<open>The four layouts of an item.\<close>

definition wrapped :: "font \<Rightarrow> bytes \<Rightarrow> bytes" where
  "wrapped f v = (if CHR '' '' \<in> set v \<or> NEWLINE \<in> set v then v else hard_wrap f v)"

lemma wrapped_visible [simp]: "filter visible (wrapped f v) = filter visible v"
  by (simp add: wrapped_def hard_wrap_visible)

definition with_tail :: "bytes option \<Rightarrow> bytes \<Rightarrow> bytes" where
  "with_tail tail v = (case tail of Some t \<Rightarrow> t @ NEWLINE # v | None \<Rightarrow> v)"

lemma nano_fields_cases:
  assumes "split_title f t = (head, tail)"
  obtains (one) "nano_fields f t v0 = [(head, with_tail tail (wrapped f v0))]"
      "fits_one_page f (with_tail tail (wrapped f v0)) (value_lines f)"
    | (titled) n pgs where "tail = None" "pgs = pages f (wrapped f v0) (value_lines f)" "n = length pgs"
      "nano_fields f t v0 = map (\<lambda>(i, pg). (marked_title head (Suc i) n, pg)) (enumerate 0 pgs)"
      "list_all (\<lambda>i. title_fits f (marked_title head i n)) [1..<Suc n]"
    | (marked) lines where "nano_fields f t v0 =
        map (\<lambda>x. (head, x)) (marked_texts tail (pages f (wrapped f v0) lines))"
      "list_all (\<lambda>x. fits_one_page f x (value_lines f)) (map snd (nano_fields f t v0))"
    | (plain) "nano_fields f t v0 = map (\<lambda>pg. (head, pg)) (pages f (with_tail tail (wrapped f v0)) (value_lines f))"
proof -
  let ?v = "wrapped f v0" and ?vl = "value_lines f"
  let ?pgs = "pages f ?v ?vl"
  have nf: "nano_fields f t v0 =
     (if fits_one_page f (with_tail tail ?v) ?vl then [(head, with_tail tail ?v)]
      else if tail = None \<and> list_all (\<lambda>i. title_fits f (marked_title head i (length ?pgs))) [1..<Suc (length ?pgs)]
      then map (\<lambda>(i, pg). (marked_title head (Suc i) (length ?pgs), pg)) (enumerate 0 ?pgs)
      else (case marked_layout f head tail ?v (rev [1..<?vl]) of
              Some fs \<Rightarrow> fs | None \<Rightarrow> map (\<lambda>pg. (head, pg)) (pages f (with_tail tail ?v) ?vl)))"
    by (simp only: nano_fields_def wrapped_def [symmetric] with_tail_def [symmetric] Let_def assms prod.case)
  show thesis
  proof (cases "fits_one_page f (with_tail tail ?v) ?vl")
    case True
    then show ?thesis using one nf by simp
  next
    case c1: False
    show ?thesis
    proof (cases "tail = None \<and> list_all (\<lambda>i. title_fits f (marked_title head i (length ?pgs))) [1..<Suc (length ?pgs)]")
      case True
      have "nano_fields f t v0 = map (\<lambda>(i, pg). (marked_title head (Suc i) (length ?pgs), pg)) (enumerate 0 ?pgs)"
        by (simp only: nf if_not_P [OF c1] if_P [OF True])
      then show ?thesis using True titled [OF _ refl refl] by blast
    next
      case c2: False
      have nf2: "nano_fields f t v0 = (case marked_layout f head tail ?v (rev [1..<?vl]) of
          Some fs \<Rightarrow> fs | None \<Rightarrow> map (\<lambda>pg. (head, pg)) (pages f (with_tail tail ?v) ?vl))"
        by (simp only: nf if_not_P [OF c1] if_not_P [OF c2])
      show ?thesis
      proof (cases "marked_layout f head tail ?v (rev [1..<?vl])")
        case None
        then show ?thesis using nf2 plain by simp
      next
        case (Some fs)
        then show ?thesis using nf2 marked marked_layout_SomeD [OF Some] by auto
      qed
    qed
  qed
qed

lemma subseq_visible: "filter visible a = filter visible b \<Longrightarrow> subseq (filter visible a) b"
  by simp

text \<open>Every visible character of the value reaches the screen, in order.\<close>

lemma nano_fields_value: "subseq (filter visible v0) (concat (map snd (nano_fields f t v0)))"
proof -
  obtain head tail where s: "split_title f t = (head, tail)" by fastforce
  let ?v = "wrapped f v0"
  have w: "subseq (filter visible v0) (with_tail tail ?v)" for tail
    using subseq_visible [of v0 ?v] by (auto simp: with_tail_def split: option.split intro: list_emb_append2)
  have p: "subseq (filter visible v0) (concat (pages f ?v n))" for n
    by (rule subseq_visible) (simp add: pages_visible)
  show ?thesis
  proof (cases rule: nano_fields_cases [OF s, of v0, case_names one titled marked plain])
    case one
    then show ?thesis using w by simp
  next
    case (titled n pgs)
    then have "map snd (nano_fields f t v0) = pgs" by (simp add: split_beta o_def)
    then show ?thesis using p titled(2) by simp
  next
    case (marked lines)
    then have "map snd (nano_fields f t v0) = marked_texts tail (pages f ?v lines)" by (simp add: o_def)
    then show ?thesis using p marked_texts_subseq subseq_order.order_trans by metis
  next
    case plain
    have "subseq (filter visible (with_tail tail ?v)) (concat (map snd (nano_fields f t v0)))"
      using subseq_visible [of "with_tail tail ?v" "concat (pages f (with_tail tail ?v) (value_lines f))"]
      by (simp add: plain o_def pages_visible)
    moreover have "subseq (filter visible v0) (filter visible (with_tail tail ?v))"
      using subseq_filter [OF w, of visible tail] by simp
    ultimately show ?thesis using subseq_order.order_trans by blast
  qed
qed

text \<open>A title is on one line of its own in every field, so that NBGL does not shorten it.\<close>

lemma nano_fields_title:
  assumes "t = [] \<or> title_fits f (take 1 t)" "title_fits f []"
  shows "list_all (\<lambda>fd. title_fits f (fst fd)) (nano_fields f t v0)"
proof -
  obtain head tail where s: "split_title f t = (head, tail)" by fastforce
  note h = split_title_head [OF s assms]
  show ?thesis
  proof (cases rule: nano_fields_cases [OF s, of v0, case_names one titled marked plain])
    case (titled n pgs)
    have "title_fits f (marked_title head (Suc i) n)" if "i < n" for i
    proof -
      have "Suc i \<in> set [1..<Suc n]" using that by auto
      then show ?thesis using titled(5) unfolding list_all_iff by blast
    qed
    then show ?thesis by (auto simp: titled(3,4) list_all_iff in_set_enumerate_eq split_beta)
  qed (use h in \<open>auto simp: list_all_iff\<close>)
qed


section \<open>Batches and reviews\<close>

lemma batch_loop_SomeD:
  "batch_loop tgt item len out used i = Some (fs, k) \<Longrightarrow> i \<le> len \<Longrightarrow> used = fields_cost out \<Longrightarrow>
   i \<le> k \<and> k \<le> len \<and> (\<exists>tvs. map item [i..<k] = map Inr tvs \<and> fs = out @ concat (map (item_fields tgt) tvs)) \<and>
   (fields_cost out \<le> BATCH_BYTES \<and> out \<noteq> [] \<longrightarrow> fields_cost fs \<le> BATCH_BYTES)"
proof (induction tgt item len out used i arbitrary: fs k rule: batch_loop.induct)
  case (1 tgt item len out used i)
  note run = 1(2) [unfolded batch_loop.simps [of tgt item len out used i]]
  show ?case
  proof (cases "i < len \<and> length out < BATCH_ITEMS")
    case True
    then obtain tv where tv: "item i = Inr tv" using run by (cases "item i") auto
    let ?fs = "item_fields tgt tv"
    show ?thesis
    proof (cases "out \<noteq> [] \<and> used + fields_cost ?fs > BATCH_BYTES")
      case True
      then show ?thesis using run \<open>i < len \<and> _\<close> tv by (auto simp: Let_def)
    next
      case False
      then have "batch_loop tgt item len (out @ ?fs) (used + fields_cost ?fs) (Suc i) = Some (fs, k)"
        using run True tv by (auto simp: Let_def)
      from 1(1) [OF True tv refl refl False this] obtain tvs where
        ih: "Suc i \<le> k" "k \<le> len" "map item [Suc i..<k] = map Inr tvs"
        "fs = (out @ ?fs) @ concat (map (item_fields tgt) tvs)"
        "fields_cost (out @ ?fs) \<le> BATCH_BYTES \<and> out @ ?fs \<noteq> [] \<longrightarrow> fields_cost fs \<le> BATCH_BYTES"
        using True 1(4) by (auto simp: fields_cost_def)
      then have "map item [i..<k] = map Inr (tv # tvs)" by (simp add: upt_conv_Cons tv)
      moreover have "fields_cost fs \<le> BATCH_BYTES" if "fields_cost out \<le> BATCH_BYTES" "out \<noteq> []"
        using ih(5) False that 1(4) by (auto simp: fields_cost_def)
      ultimately show ?thesis using ih by (intro conjI exI [of _ "tv # tvs"]) auto
    qed
  next
    case False
    then show ?thesis using run 1(3) by (auto simp: if_not_P)
  qed
qed

text \<open>The fields the user has been shown.\<close>

definition shown_fields :: "screen list \<Rightarrow> field list" where
  "shown_fields h = concat (map (\<lambda>s. case s of ShowFields fs \<Rightarrow> fs | _ \<Rightarrow> []) h)"

lemma shown_fields_simps [simp]:
  "shown_fields (h @ [ShowFields fs]) = shown_fields h @ fs"
  "shown_fields (h @ [FinishReview b]) = shown_fields h" "shown_fields [StartReview b] = []"
  "shown_fields (h @ [ShowStatus a b, HomeScreen c]) = shown_fields h"
  by (simp_all add: shown_fields_def)

lemma map_inr_append:
  "map item [i..<j] = map Inr xs \<Longrightarrow> map item [j..<k] = map Inr ys \<Longrightarrow> i \<le> j \<Longrightarrow> j \<le> k \<Longrightarrow>
   map item [i..<k] = map Inr (xs @ ys)"
  using upt_add_eq_append [of i j "k - j"] by simp

text \<open>An approved review has shown all the items from \<open>i\<close> on, and every screen was accepted.\<close>

lemma review_loop_approved:
  "review_loop tgt item len blind user hist i = (True, h) \<Longrightarrow> i \<le> len \<Longrightarrow>
   (\<exists>tvs. map item [i..<len] = map Inr tvs \<and>
      shown_fields h = shown_fields hist @ concat (map (item_fields tgt) tvs)) \<and>
   (\<exists>t. h = hist @ t \<and> last t = FinishReview blind \<and> t \<noteq> [] \<and>
      (\<forall>n. length hist < n \<and> n \<le> length h \<longrightarrow> user (take n h)))"
proof (induction tgt item len blind user hist i rule: review_loop.induct)
  case (1 tgt item len blind user hist i)
  note run = 1(2) [unfolded review_loop.simps [of tgt item len blind user hist i]]
  show ?case
  proof (cases "i < len")
    case True
    then obtain fs n where b: "batch tgt item len i = Some (fs, n)"
      using run by (cases "batch tgt item len i") auto
    let ?h = "hist @ [ShowFields fs]"
    have u: "user ?h" "review_loop tgt item len blind user ?h (i + n) = (True, h)"
      using run True b by (auto simp: Let_def split: if_splits)
    obtain k where k: "batch_loop tgt item len [] 0 i = Some (fs, k)" "n = k - i"
      using b by (auto simp: batch_def split: option.splits)
    from batch_loop_SomeD [OF k(1)] True obtain tvs where tvs: "i \<le> k" "k \<le> len"
      "map item [i..<k] = map Inr tvs" "fs = concat (map (item_fields tgt) tvs)"
      by (auto simp: fields_cost_def)
    have "\<not> \<not> user ?h" using u by simp
    from 1(1) [OF True b refl refl this u(2)] tvs k(2) obtain us t where
      ih: "map item [k..<len] = map Inr us" "shown_fields h = shown_fields ?h @ concat (map (item_fields tgt) us)"
      "h = ?h @ t" "last t = FinishReview blind" "t \<noteq> []"
      "\<And>m. length ?h < m \<Longrightarrow> m \<le> length h \<Longrightarrow> user (take m h)"
      by auto
    have "user (take m h)" if "length hist < m" "m \<le> length h" for m
      using that ih(3,6) u(1) by (cases "m = length ?h") auto
    moreover have "map item [i..<len] = map Inr (tvs @ us)" using map_inr_append [OF tvs(3) ih(1) tvs(1,2)] .
    moreover have "shown_fields h = shown_fields hist @ concat (map (item_fields tgt) (tvs @ us))"
      by (simp add: ih(2) tvs(4))
    ultimately show ?thesis using ih(3-5) by (intro conjI exI [of _ "tvs @ us"] exI [of _ "ShowFields fs # t"]) auto
  next
    case False
    then have h: "h = hist @ [FinishReview blind]" "user h" using run by (auto simp: Let_def)
    have "user (take m h)" if "length hist < m" "m \<le> length h" for m using that h by auto
    then show ?thesis using False 1(3) h(1) by (intro conjI exI [of _ "[]"] exI [of _ "[FinishReview blind]"]) auto
  qed
qed

lemma review_tx_approved:
  assumes "review_tx tgt item len blind user = (True, h)"
  shows "(\<exists>tvs. map item [0..<len] = map Inr tvs \<and> shown_fields h = concat (map (item_fields tgt) tvs)) \<and>
    h \<noteq> [] \<and> hd h = StartReview blind \<and> last h = FinishReview blind \<and> (\<forall>n. 0 < n \<and> n \<le> length h \<longrightarrow> user (take n h))"
proof -
  have u: "user [StartReview blind]" "review_loop tgt item len blind user [StartReview blind] 0 = (True, h)"
    using assms by (auto simp: review_tx_def Let_def split: if_splits)
  from review_loop_approved [OF u(2)] obtain tvs t where
    r: "map item [0..<len] = map Inr tvs" "shown_fields h = concat (map (item_fields tgt) tvs)"
    "h = [StartReview blind] @ t" "last t = FinishReview blind" "t \<noteq> []"
    "\<And>m. 1 < m \<Longrightarrow> m \<le> length h \<Longrightarrow> user (take m h)" by auto
  have "user (take n h)" if "0 < n" "n \<le> length h" for n
    using that r(3,6) u(1) by (cases "n = 1") auto
  then show ?thesis using r by auto
qed

text \<open>A batch that is over the budget takes nothing more.\<close>

lemma batch_loop_full:
  assumes "batch_loop tgt item len out used i = Some (fs, k)" "out \<noteq> []" "used > BATCH_BYTES"
  shows "fs = out \<and> k = i"
proof (cases "i < len \<and> length out < BATCH_ITEMS")
  case True
  then show ?thesis using assms(1) [unfolded batch_loop.simps [of tgt item len out used i]] assms(2,3)
    by (cases "item i") (auto simp: Let_def)
next
  case False
  then show ?thesis using assms(1) [unfolded batch_loop.simps [of tgt item len out used i]] by (auto simp: if_not_P)
qed

section \<open>A review can always be completed\<close>

lemma batch_loop_total:
  assumes "\<And>k. k < len \<Longrightarrow> is_ok (item k)"
  shows "\<exists>r. batch_loop tgt item len out used i = Some r"
  using assms
proof (induction tgt item len out used i rule: batch_loop.induct)
  case (1 tgt item len out used i)
  show ?case
  proof (cases "i < len \<and> length out < BATCH_ITEMS")
    case True
    then obtain tv where tv: "item i = Inr tv" using 1(2) [of i] by (auto simp: is_ok_def split: sum.splits)
    then show ?thesis using 1(1) [OF True tv refl refl] 1(2) True
      by (subst batch_loop.simps) (auto simp: Let_def)
  next
    case False
    then show ?thesis by (subst batch_loop.simps) (auto simp: if_not_P)
  qed
qed

lemma review_loop_accepts:
  assumes "\<And>k. k < len \<Longrightarrow> is_ok (item k)" "user = (\<lambda>h. True)"
  shows "\<exists>h. review_loop tgt item len blind user hist i = (True, h)"
  using assms
proof (induction tgt item len blind user hist i rule: review_loop.induct)
  case (1 tgt item len blind user hist i)
  show ?case
  proof (cases "i < len")
    case True
    obtain fs n where b: "batch tgt item len i = Some (fs, n)"
      using batch_loop_total [of len item tgt "[]" 0 i] 1(2) by (auto simp: batch_def)
    then show ?thesis using 1(1) [OF True b refl refl _ 1(2,3)] 1(3) True
      by (subst review_loop.simps) (auto simp: Let_def)
  next
    case False
    then show ?thesis using 1(3) by (subst review_loop.simps) (simp add: Let_def)
  qed
qed

lemma review_tx_accepts:
  assumes "\<And>k. k < len \<Longrightarrow> is_ok (item k)" "user = (\<lambda>h. True)"
  shows "\<exists>h. review_tx tgt item len blind user = (True, h)"
  using review_loop_accepts [OF assms(1) refl] by (simp add: review_tx_def Let_def assms(2))

section \<open>A review ends\<close>

lemma review_loop_length:
  "length (snd (review_loop tgt item len blind user hist i)) \<le> length hist + (len - i) + 1"
proof (induction tgt item len blind user hist i rule: review_loop.induct)
  case (1 tgt item len blind user hist i)
  show ?case
  proof (cases "i < len")
    case True
    show ?thesis
    proof (cases "batch tgt item len i")
      case (Some x)
      then obtain fs n where b: "batch tgt item len i = Some (fs, n)" by (cases x) auto
      show ?thesis using 1 [OF True b refl refl] batch_progress [OF b True] True b
        by (subst review_loop.simps) (auto simp: Let_def)
    qed (use True in \<open>simp add: review_loop.simps\<close>)
  qed (simp add: review_loop.simps Let_def)
qed

end
