(* ===== verification/Screen_Claims.thy ===== *)
theory Screen_Claims
  imports Screen_Props Doc_Review
begin

text \<open>
  The properties of the screens and of the main loop: what is signed has been seen whole and accepted
  screen by screen, a pending review can always be completed, no visible character of a value and no
  part of a title is lost on the small screens, and nothing stays pending between commands.
\<close>

section \<open>Address replies\<close>

lemma address_reply:
  assumes "cap < UNSET" "same_device E" "reachable E cap m" "env \<in> E"
    and "address_done approved m = (r, m')" "reply_sw r = SW_OK"
  shows "approved \<and> prefix_ok (hd_path m) \<and> (\<exists>pk legacy. app_pending m = PendingAddress pk legacy \<and>
    address_review m = Some pk \<and> public_key env (hd_path m) = Some pk \<and>
    payload r = (if legacy then [byte_of 32] else []) @ pk)"
proof -
  have no: "reply_sw (reply_only COMMAND_NOT_ALLOWED) \<noteq> SW_OK" by (simp add: reply_only_def sw_distinct)
  obtain pk legacy where p: "approved" "app_pending m = PendingAddress pk legacy"
    "r = (if legacy then reply_with [[byte_of 32], pk] SW_OK else reply_with [pk] SW_OK)"
    using assms(5,6) no by (auto simp: address_done_def split: pending.splits bool.splits)
  obtain rev where k: "prefix_ok (hd_path m)" "rev \<in> E" "public_key rev (hd_path m) = Some pk"
    using reachable_address [OF assms(1,3) p(2)] by blast
  have "length pk = 32" using k(3) by (rule public_key_length)
  then have "w_puts REPLY_MAX [[byte_of 32], pk] = byte_of 32 # pk" "w_puts REPLY_MAX [pk] = pk"
    using w_puts_fits [of "[[byte_of 32], pk]" REPLY_MAX] w_puts_fits [of "[pk]" REPLY_MAX]
    by (simp_all add: REPLY_MAX_def)
  then show ?thesis using p k same_device_key [OF assms(2) k(2) assms(4)]
    by (auto simp: address_review_def reply_with_def)
qed

section \<open>Turns of the main loop\<close>

lemma main_turn_reachable:
  assumes "cap < UNSET" "reachable E cap m" "env \<in> E" "main_turn env cap tgt user cla ins p1 p2 data m = (r, h, m')"
  shows "reachable E cap m' \<and> app_pending m' = PendingNone"
proof -
  obtain a m1 where h: "handle env cap cla ins p1 p2 data m = (a, m1)" by fastforce
  have o: "outcome env cap a m1" and m1: "reachable E cap m1"
    using handle_outcome [OF _ assms(1) h] reachable_invariant [OF assms(1,2)] reachable.command [OF assms(2,3) h]
    by blast+
  have d: "app_pending (snd (address_done b m1)) = PendingNone" "app_pending (snd (sign_done env b m1)) = PendingNone"
    for b by (simp_all add: address_done_def sign_done_def)
  show ?thesis
  proof (cases a)
    case ReviewAddress
    then obtain b where "address_done b m1 = (r, m')" using assms(4) h by (auto simp: main_turn_def split: prod.splits)
    then show ?thesis using reachable.address_decision [OF m1] d by (metis snd_conv)
  next
    case (ReviewTx blind)
    then obtain b where "sign_done env b m1 = (r, m')" using assms(4) h by (auto simp: main_turn_def split: prod.splits)
    then show ?thesis using reachable.sign_decision [OF m1 assms(3)] d by (metis snd_conv)
  qed (use assms(4) h o m1 in \<open>auto simp: main_turn_def outcome_def\<close>)
qed

lemma review_renders:
  assumes "cap < UNSET" "same_device E" "reachable E cap m" "env \<in> E" "app_pending m = PendingSign kind" "i < review_len m"
  shows "is_ok (review_item env m i)"
  using pending_shown [OF assms] by (auto simp: shown_whole_def review_item_def)

text \<open>An accepting user.\<close>

lemma accepted_review:
  assumes "cap < UNSET" "same_device E" "reachable E cap m" "env \<in> E" "app_pending m = PendingSign kind"
  shows "\<exists>h. review_tx tgt (review_item env m) (review_len m) blind (\<lambda>h. True) = (True, h)"
  by (rule review_tx_accepts [OF _ refl]) (rule review_renders [OF assms])

lemma hash_turn:
  "\<exists>m m1 h m'. reachable {sample_env} 100 m \<and>
     handle sample_env 100 0 INS_SIGN_HASH P1_LAST 0 (replicate 32 NUL) m = (ReviewTx True, m1) \<and>
     main_turn sample_env 100 tgt (\<lambda>h. True) 0 INS_SIGN_HASH P1_LAST 0 (replicate 32 NUL) m =
       (\<lparr> payload = replicate 64 NUL, reply_sw = SW_OK \<rparr>, h, m')"
proof -
  let ?h = "replicate 32 NUL"
  have c: "(100::nat) < UNSET" "20 \<le> length sample_path" "length ?h = HASH_LEN" "length (?h @ ?h) \<le> REPLY_MAX"
    by (simp_all add: UNSET_def sample_path_ok HASH_LEN_def REPLY_MAX_def)
  obtain m1 m2 m3 where m:
    "handle sample_env 100 0 INS_SIGN_HASH P1_INIT 0 sample_path machine_new = (Reply (reply_only SW_OK), m1)"
    "handle sample_env 100 0 INS_SIGN_HASH P1_LAST 0 ?h m1 = (ReviewTx True, m2)"
    "app_pending m2 = PendingSign (SignModern TxHash)"
    "sign_done sample_env True m2 = (\<lparr> payload = ?h @ ?h, reply_sw = SW_OK \<rparr>, m3)"
    using hash_session [OF minv_new c(1) env_pins(1) env_settings(1) c(2) sample_path_ok(2) env_keys(1) c(3)
        env_sign(1) c(4), of 0] by blast
  have r: "reachable {sample_env} 100 m1" by (rule reachable.command [OF reachable.start _ m(1)]) simp
  then have "reachable {sample_env} 100 m2" by (rule reachable.command [OF _ _ m(2)]) simp
  from accepted_review [OF c(1) singleton_device this singletonI m(3)] obtain h where
    "review_tx tgt (review_item sample_env m2) (review_len m2) True (\<lambda>h. True) = (True, h)" by blast
  moreover have "?h @ ?h = replicate 64 NUL" by (simp flip: replicate_add)
  ultimately have "main_turn sample_env 100 tgt (\<lambda>h. True) 0 INS_SIGN_HASH P1_LAST 0 ?h m1 =
    (\<lparr> payload = replicate 64 NUL, reply_sw = SW_OK \<rparr>, h @ [ShowStatus False True, HomeScreen False], m3)"
    using m(2,4) by (simp add: main_turn_def)
  then show ?thesis using r m(2) by blast
qed

section \<open>Reviews on the screen\<close>

text \<open>C1: What is signed has been seen and accepted. If a command starts a review and the turn of the main
  loop that handles it returns a signature, then the user was shown the screen that starts the review,
  then screens whose fields are, in order and with none left out, those of every item of the review,
  then the screen that asks for the signature, accepted every one of them after having seen the ones
  before, and the signature is over the digest of the bytes pending at the time of the review.\<close>

theorem signed_was_seen:
  assumes "handle env cap cla ins p1 p2 data m = (ReviewTx blind, m1)"
    and "main_turn env cap tgt user cla ins p1 p2 data m = (r, h, m')" "reply_sw r = SW_OK"
  shows "\<exists>tvs seen kind d sig extra. h = seen @ [ShowStatus False True, HomeScreen False] \<and>
    map (review_item env m1) [0..<review_len m1] = map Inr tvs \<and>
    shown_fields seen = concat (map (item_fields tgt) tvs) \<and>
    hd seen = StartReview blind \<and> last seen = FinishReview blind \<and>
    (\<forall>n. 0 < n \<and> n \<le> length seen \<longrightarrow> user (take n seen)) \<and>
    app_pending m1 = PendingSign kind \<and> signed_digest env (kind_type kind) (kind_bytes kind (dev m1)) = Some d \<and>
    dev_sign env (sign_path m1) d = Some sig \<and> payload r = w_puts REPLY_MAX (sig # extra)"
proof -
  obtain approved seen where s: "review_tx tgt (review_item env m1) (review_len m1) blind user = (approved, seen)"
    by fastforce
  then have t: "sign_done env approved m1 = (r, m')" "h = seen @ [ShowStatus False (approved \<and> reply_sw r = SW_OK), HomeScreen False]"
    using assms(1,2) by (auto simp: main_turn_def split: prod.splits)
  from sign_done_ok [OF t(1) assms(3)] obtain kind sig extra d where k: "approved" "app_pending m1 = PendingSign kind"
    "signed_digest env (kind_type kind) (kind_bytes kind (dev m1)) = Some d" "dev_sign env (sign_path m1) d = Some sig"
    "payload r = w_puts REPLY_MAX (sig # extra)" by blast
  from s k(1) have v: "review_tx tgt (review_item env m1) (review_len m1) blind user = (True, seen)" by simp
  show ?thesis using review_tx_approved [OF v] k t(2) assms(3) by blast
qed

theorem signed_was_seen_witness:
  "\<exists>m m1 tvs seen kind d. handle sample_env 100 0 INS_SIGN_HASH P1_LAST 0 (replicate 32 NUL) m = (ReviewTx True, m1) \<and>
     map (review_item sample_env m1) [0..<review_len m1] = map Inr tvs \<and>
     shown_fields seen = concat (map (item_fields Touch) tvs) \<and> app_pending m1 = PendingSign kind \<and>
     signed_digest sample_env (kind_type kind) (kind_bytes kind (dev m1)) = Some d"
proof -
  obtain m m1 h m' where t: "handle sample_env 100 0 INS_SIGN_HASH P1_LAST 0 (replicate 32 NUL) m = (ReviewTx True, m1)"
    "main_turn sample_env 100 Touch (\<lambda>h. True) 0 INS_SIGN_HASH P1_LAST 0 (replicate 32 NUL) m =
       (\<lparr> payload = replicate 64 NUL, reply_sw = SW_OK \<rparr>, h, m')" using hash_turn [of Touch] by blast
  have "reply_sw \<lparr> payload = replicate 64 NUL, reply_sw = SW_OK \<rparr> = SW_OK" by simp
  from signed_was_seen [OF t this] show ?thesis using t(1) by blast
qed

text \<open>C8: A review can be completed. In every reachable state, if a command starts a transaction review
  then every item of it reaches the screen: a user who accepts every screen is shown all of them and
  gets the reply of an approved decision.\<close>

theorem review_completes:
  assumes "cap < UNSET" "same_device E" "reachable E cap m" "env \<in> E"
    and "handle env cap cla ins p1 p2 data m = (ReviewTx blind, m1)"
  shows "\<exists>h tvs. main_turn env cap tgt (\<lambda>h. True) cla ins p1 p2 data m =
      (fst (sign_done env True m1), h, snd (sign_done env True m1)) \<and>
    map (review_item env m1) [0..<review_len m1] = map Inr tvs \<and>
    shown_fields h = concat (map (item_fields tgt) tvs)"
proof -
  have "outcome env cap (ReviewTx blind) m1"
    using handle_outcome [OF _ assms(1,5)] reachable_invariant [OF assms(1,3)] by blast
  then obtain kind where p: "app_pending m1 = PendingSign kind" by (auto simp: outcome_def sign_pending_def)
  have "reachable E cap m1" by (rule reachable.command [OF assms(3,4,5)])
  from accepted_review [OF assms(1,2) this assms(4) p] obtain h where
    h: "review_tx tgt (review_item env m1) (review_len m1) blind (\<lambda>h. True) = (True, h)" by blast
  then show ?thesis using review_tx_approved [OF h] assms(5)
    by (auto simp: main_turn_def split: prod.splits)
qed

theorem review_completes_witness:
  "\<exists>m m1 h m'. main_turn sample_env 100 Touch (\<lambda>h. True) 0 INS_SIGN_HASH P1_LAST 0 (replicate 32 NUL) m =
     (fst (sign_done sample_env True m1), h, m')"
proof -
  obtain m m1 where t: "reachable {sample_env} 100 m"
    "handle sample_env 100 0 INS_SIGN_HASH P1_LAST 0 (replicate 32 NUL) m = (ReviewTx True, m1)"
    using hash_turn by blast
  have "(100::nat) < UNSET" by (simp add: UNSET_def)
  from review_completes [OF this singleton_device t(1) singletonI t(2), of Touch] show ?thesis by blast
qed

text \<open>C10: An address reply is the key the user saw. If a command starts an address review and the turn
  that handles it replies with success, then the only screen of the review showed the hex of the
  public key of the requested path (in expert mode with the whole path), the user accepted it, the path has the
  accepted prefix, and the reply is that key (after its length byte in the legacy family).\<close>

theorem address_was_seen:
  assumes "cap < UNSET" "same_device E" "reachable E cap m" "env \<in> E"
    and "handle env cap cla ins p1 p2 data m = (ReviewAddress, m1)"
    and "main_turn env cap tgt user cla ins p1 p2 data m = (r, h, m')" "reply_sw r = SW_OK"
  shows "\<exists>pk seen. h = [seen, ShowStatus True True, HomeScreen False] \<and> user [seen] \<and> prefix_ok (hd_path m1) \<and>
    seen = ShowAddress (hex_lower pk) (if dev_expert env then Some (path_to_str (hd_path m1)) else None) \<and>
    public_key env (hd_path m1) = Some pk \<and> payload r \<in> {pk, byte_of 32 # pk}"
proof -
  obtain approved seen where s: "review_address env user m1 = (approved, seen)" by fastforce
  then have t: "address_done approved m1 = (r, m')" "h = seen @ [ShowStatus True approved, HomeScreen False]"
    using assms(5,6) by (auto simp: main_turn_def split: prod.splits)
  have "reachable E cap m1" by (rule reachable.command [OF assms(3,4,5)])
  from address_reply [OF assms(1,2) this assms(4) t(1) assms(7)] s t(2) show ?thesis
    by (auto simp: review_address_def Let_def)
qed

theorem address_was_seen_witness:
  "\<exists>m' r seen. main_turn sample_env 100 Touch (\<lambda>h. True) 0 INS_GET_ADDR 1 0 sample_path machine_new =
      (r, [ShowAddress (hex_lower sample_pk) seen, ShowStatus True True, HomeScreen False], m') \<and> payload r = sample_pk"
proof -
  let ?m = "machine_new \<lparr> hd_path := path_of sample_path, app_pending := PendingAddress sample_pk False \<rparr>"
  have "app_stream machine_new = StreamNone" by (simp add: machine_new_def app_new_def app.defs)
  then have h: "handle sample_env 100 0 INS_GET_ADDR 1 0 sample_path machine_new = (ReviewAddress, ?m)"
    by (intro address_session) (simp_all add: env_pins env_keys sample_path_ok)
  obtain r s m' where t: "main_turn sample_env 100 Touch (\<lambda>h. True) 0 INS_GET_ADDR 1 0 sample_path machine_new = (r, s, m')"
    by (cases "main_turn sample_env 100 Touch (\<lambda>h. True) 0 INS_GET_ADDR 1 0 sample_path machine_new") auto
  then have r: "r = reply_with [sample_pk] SW_OK"
    using h by (simp add: main_turn_def review_address_def address_review_def address_done_def split: prod.splits)
  have c: "(100::nat) < UNSET" "reply_sw r = SW_OK" by (simp_all add: UNSET_def r reply_with_def)
  have "payload r = sample_pk" 
    using public_key_length [OF env_keys(1)] w_puts_fits [of "[sample_pk]" REPLY_MAX] by (simp add: r reply_with_def REPLY_MAX_def)
  then show ?thesis
    using address_was_seen [OF c(1) singleton_device reachable.start singletonI h t c(2)] t env_keys(1) by auto
qed

lemma main_loop_reachable:
  assumes "cap < UNSET" "reachable E cap m0" "app_pending m0 = PendingNone"
    and "fst ` set cs \<subseteq> E" "main_loop cap tgt cs m0 = (out, m)"
  shows "length out = length cs \<and> app_pending m = PendingNone \<and> reachable E cap m"
  using assms(2-5)
proof (induction cs arbitrary: m0 out)
  case (Cons x cs)
  obtain env user c where x: "x = (env, user, c)" by (cases x)
  obtain r h m1 where t: "main_turn env cap tgt user (apdu_cla c) (apdu_ins c) (apdu_p1 c) (apdu_p2 c) (apdu_data c) m0 =
    (r, h, m1)" by (metis prod_cases3)
  obtain out' where o: "main_loop cap tgt cs m1 = (out', m)" "out = (r, h) # out'"
    using Cons.prems(4) by (auto simp: x t split: prod.splits)
  have "env \<in> E" using Cons.prems(3) by (auto simp: x)
  from main_turn_reachable [OF assms(1) Cons.prems(1) this t] Cons.IH [OF _ _ _ o(1)] Cons.prems(3) o(2)
  show ?case by auto
qed simp

text \<open>C16: The main loop keeps its invariant and answers every command. From power-on, after any sequence of
  commands and user decisions, with settings that may change between them, every command has had
  exactly one reply, nothing is pending, and the machine is in a state satisfying the invariant of the
  command state machine.\<close>

theorem main_loop_invariant:
  assumes "cap < UNSET" "fst ` set cs \<subseteq> E"
    and "main_loop cap tgt cs machine_new = (out, m)"
  shows "length out = length cs \<and> app_pending m = PendingNone \<and> minv m \<and> reachable E cap m"
proof -
  have "app_pending machine_new = PendingNone" by (simp add: machine_new_def app_new_def app.defs)
  from main_loop_reachable [OF assms(1) reachable.start this assms(2,3)] show ?thesis
    using reachable_invariant [OF assms(1)] by blast
qed

theorem main_loop_invariant_witness:
  "\<exists>out m. main_loop 100 Touch [(sample_env, \<lambda>h. True, \<lparr> apdu_cla = 0, apdu_ins = INS_GET_ADDR, apdu_p1 = 1,
      apdu_p2 = 0, apdu_data = sample_path \<rparr>)] machine_new = (out, m) \<and> length out = 1 \<and> app_pending m = PendingNone"
proof -
  let ?cs = "[(sample_env, \<lambda>h. True, \<lparr> apdu_cla = 0, apdu_ins = INS_GET_ADDR, apdu_p1 = 1,
      apdu_p2 = 0, apdu_data = sample_path \<rparr>)]"
  obtain out m where l: "main_loop 100 Touch ?cs machine_new = (out, m)" by fastforce
  have "(100::nat) < UNSET" by (simp add: UNSET_def)
  from main_loop_invariant [OF this _ l, of "{sample_env}"] l show ?thesis by auto
qed

section \<open>Values, titles and batches\<close>

text \<open>C28: Nothing of a value is lost on the way to the screen. A Touch screen shows title and value whole.
  On a Nano screen, whatever the font, the visible characters of the value text are shown in order over
  the fields of the item, however it is wrapped, cut into pages and marked.\<close>

theorem value_reaches_screen:
  "item_fields Touch (t, v) = [(display_text t, display_text v)] \<and>
   subseq (filter visible (display_text v)) (concat (map snd (item_fields (Nano f) (t, v))))"
  using nano_fields_value by (simp add: item_fields_def screen_fields_def)

text \<open>C29: A title is never shortened. If the font draws every single printable character on one line, the
  title of every field of every item on a Nano screen fits the title line, page marks included.\<close>

theorem titles_never_shortened:
  assumes "title_fits f []" "\<And>c. printable c \<Longrightarrow> title_fits f [c]"
  shows "list_all (\<lambda>fd. title_fits f (fst fd)) (item_fields (Nano f) (t, v))"
proof -
  have "list_all printable (display_text t)" by (rule display_text_printable)
  then have "display_text t = [] \<or> title_fits f (take 1 (display_text t))"
    using assms(2) by (cases "display_text t") auto
  then show ?thesis using nano_fields_title assms(1) by (simp add: item_fields_def screen_fields_def)
qed

theorem titles_never_shortened_witness:
  "list_all (\<lambda>fd. length (fst fd) \<le> 20) (item_fields (Nano \<lparr> text_len = \<lambda>t n w. 20 * n,
      title_lines = \<lambda>t. if length t \<le> 20 then 1 else 2, value_lines = 3 \<rparr>)
    (''WARNING: a long title of many words'', replicate 100 CHR ''a''))"
proof -
  let ?f = "\<lparr> text_len = \<lambda>t n w. 20 * n, title_lines = \<lambda>t. if length t \<le> 20 then 1 else 2, value_lines = 3 \<rparr>"
  have "title_fits ?f x \<longleftrightarrow> length x \<le> 20" for x by (simp add: title_fits_def)
  then show ?thesis using titles_never_shortened [of ?f "''WARNING: a long title of many words''" "replicate 100 CHR ''a''"]
    by simp
qed

text \<open>C40: A review ends. Whatever the screen target, the items and the answers of the user, a review is over
  after at most one step per item, the screen that starts it and the one that asks for the signature.\<close>

theorem review_ends:
  "length (snd (review_tx tgt item len blind user)) \<le> len + 2"
  using review_loop_length [of tgt item len blind user "[StartReview blind]" 0] by (simp add: review_tx_def Let_def)

end
