(* ===== verification/Transfer_Claims.thy ===== *)
theory Transfer_Claims
  imports Transfer_Session Screen_Claims
begin

text \<open>
  What the model of printed documents gives: the tokenizer and the lookups recover a document from its
  text, and a structured transfer of coins is shown field by field, without blind signing, and signed.
\<close>

section \<open>Documents and their texts\<close>

text \<open>C17: A document is recovered from its text. The compact text of any JSON object whose strings are JSON
  string bodies and whose primitives are words tokenizes, if it fits the token buffer, to exactly the
  tokens of the tree (kinds, bounds and order), and it is accepted as a transaction exactly when no
  object of the tree has a repeated key or a key with an escape.\<close>

theorem printed_tree_is_read:
  assumes "jval_wf (JObj ms)" "length (jprint (JObj ms)) < UNSET" "jsize (JObj ms) \<le> cap"
  shows "parse_strict cap (jprint (JObj ms)) = Inr (jtoks 0 (JObj ms), jsize (JObj ms)) \<and>
    (fst (read_json cap (jprint (JObj ms)) ps) = Inr () \<longleftrightarrow> jkeys_plain (JObj ms))"
  using parse_strict_tree [OF assms] read_json_tree [OF assms, of ps] tree_integrity [of "JObj ms"]
  by (simp del: jprint.simps jtoks.simps jkeys_plain.simps jsize.simps)

lemma sample_tree: "jval_wf (JObj [(''a'', JArr [JPrim ''1'', JPrim ''true''])])"
  by (simp add: escapes_def word_byte_def word_start_def prim_delims_def)

theorem printed_tree_is_read_witness:
  "parse_strict 5 ''{\"a\":[1,true]}'' = Inr (jtoks 0 (JObj [(''a'', JArr [JPrim ''1'', JPrim ''true''])]), 5)"
proof -
  let ?v = "JObj [(''a'', JArr [JPrim ''1'', JPrim ''true''])]"
  have "parse_strict 5 (jprint ?v) = Inr (jtoks 0 ?v, jsize ?v)"
    using printed_tree_is_read [OF sample_tree, of 5] by (simp add: quote_def UNSET_def)
  then show ?thesis by (simp add: quote_def)
qed

text \<open>C18: Lookups in a document are lookups in its tree. At the token of an object \<open>get_value\<close> finds the value
  of the first member with the key and refuses exactly when there is none; at the token of an array
  \<open>get_nth\<close> and \<open>get_count\<close> are indexing, refused out of range, and length.\<close>

theorem lookups_follow_the_tree:
  assumes "json_wf j" "length key < 65536" "node j i (JObj ms)" "node j a (JArr vs)"
  shows "(case map_of ms key of None \<Rightarrow> get_value j i key = Inl NoData
       | Some v \<Rightarrow> \<exists>n. get_value j i key = Inr n \<and> node j n v) \<and>
    get_count j a = Inr (length vs) \<and>
    (if n < length vs then \<exists>k. get_nth j a n = Inr k \<and> node j k (vs ! n) else get_nth j a n = Inl NoData)"
  using tree_lookup [OF assms(1-3)] tree_element [OF assms(1,4)] by blast

theorem lookups_follow_the_tree_witness:
  "\<exists>a k. get_value (json_of (JObj [(''a'', JArr [JPrim ''1'', JPrim ''true''])])) 0 ''a'' = Inr a \<and>
     get_count (json_of (JObj [(''a'', JArr [JPrim ''1'', JPrim ''true''])])) a = Inr 2 \<and>
     get_nth (json_of (JObj [(''a'', JArr [JPrim ''1'', JPrim ''true''])])) a 1 = Inr k \<and>
     node (json_of (JObj [(''a'', JArr [JPrim ''1'', JPrim ''true''])])) k (JPrim ''true'')"
proof -
  let ?ms = "[(''a'', JArr [JPrim ''1'', JPrim ''true''])]"
  let ?j = "json_of (JObj ?ms)"
  have wf: "json_wf ?j" by (rule json_of_wf [OF sample_tree]) (simp add: quote_def UNSET_def)
  obtain a where a: "get_value ?j 0 ''a'' = Inr a" "node ?j a (JArr [JPrim ''1'', JPrim ''true''])"
    using node_value [OF wf root_node, of "''a''"] by auto
  from lookups_follow_the_tree [OF wf _ root_node a(2), of "''a''" 1] a(1) show ?thesis by auto
qed

section \<open>Structured transfers\<close>

lemma pending_template:
  assumes "cap < UNSET" "same_device E" "reachable E cap m" "env \<in> E"
    and "app_pending m = PendingSign kind" "kind_type kind = TxTransfer"
  shows "transfer_build (tx (dev m)) (public_key env (sign_path m)) = Inr (kind_bytes kind (dev m))"
proof -
  obtain rev where r: "rev \<in> E" "kind_ok kind" "built rev TxTransfer m"
    using reachable_sign [OF assms(1,3,5)] assms(6) by auto
  then have "kind_bytes kind (dev m) = template (dev m)" using assms(6) by (cases kind) auto
  then show ?thesis using r same_device_key [OF assms(2) r(1) assms(4)] by (simp add: built_def)
qed

text \<open>C7: A transfer is signed as it is shown. When the body of a structured transfer of coins is complete
  (accepted fields, amount and integers written plainly, a fee that can be computed), the review
  starts without a blind-signing warning, be blind signing on or off; to a user who accepts, the screens of the
  normal review (expert mode off) show exactly the pages of the transfer: sender, receiver, amount, chains, gas, fee and paying account, each
  as the host sent it; and the reply is the signature over the hash of the template of those fields.\<close>

theorem transfer_signed_as_shown:
  assumes "cap < UNSET" "57 \<le> cap" "reachable E cap m" "os_pin_validated env" "\<not> dev_expert env"
    and "app_stream m = Modern INS_SIGN_TRANSFER" "tx (dev m) @ data = byte_of ty # encode_fields f"
    and "plain_transfer ty f" "max_fee (f ! GAS_LIMIT) (f ! GAS_PRICE) 295 = Some fee"
    and "public_key env (sign_path m) = Some pk"
    and "os_blake2b env (concat (format_pieces f ty (hex_lower pk))) = Some digest"
    and "dev_sign env (sign_path m) digest = Some sig" "length sig \<le> REPLY_MAX"
  shows "\<exists>h m'. main_turn env cap tgt (\<lambda>h. True) 0 INS_SIGN_TRANSFER P1_LAST p2 data m =
      (\<lparr> payload = sig, reply_sw = SW_OK \<rparr>, h, m') \<and> hd h = StartReview False \<and>
    shown_fields h = concat (map (item_fields tgt) (transfer_pages f ty (hex_lower pk) fee))"
proof -
  let ?pages = "transfer_pages f ty (hex_lower pk) fee" and ?t = "concat (format_pieces f ty (hex_lower pk))"
  obtain m1 where m1: "handle env cap 0 INS_SIGN_TRANSFER P1_LAST p2 data m = (ReviewTx False, m1)"
    "app_pending m1 = PendingSign (SignModern TxTransfer)" "sign_path m1 = sign_path m" "template (dev m1) = ?t"
    "map (review_item env m1) [0..<review_len m1] = map Inr ?pages"
    using transfer_last [OF _ assms(1,2,4-11), of p2] reachable_invariant [OF assms(1,3)] by blast
  have ok: "is_ok (review_item env m1 i)" if "i < review_len m1" for i
  proof -
    have "review_item env m1 i \<in> set (map Inr ?pages)" unfolding m1(5) [symmetric] using that by simp
    then show ?thesis by (auto simp: is_ok_iff)
  qed
  obtain h where h: "review_tx tgt (review_item env m1) (review_len m1) False (\<lambda>h. True) = (True, h)"
    using review_tx_accepts [of "review_len m1" "review_item env m1"] ok by blast
  have "(?t = []) = False" by (simp add: format_pieces_def)
  then have "sign_done env True m1 = (\<lparr> payload = sig, reply_sw = SW_OK \<rparr>, m1 \<lparr> app_pending := PendingNone \<rparr>)"
    using m1(2-4) assms(11-13) w_puts_fits [of "[sig]" REPLY_MAX]
    by (simp add: sign_done_def crypto_sign_def sig_reply_def reply_with_def del: concat_eq_Nil_conv)
  moreover obtain tvs where "map (review_item env m1) [0..<review_len m1] = map Inr tvs"
    "shown_fields h = concat (map (item_fields tgt) tvs)" "hd h = StartReview False" "h \<noteq> []"
    using review_tx_approved [OF h] by blast
  moreover from this(1) have "tvs = ?pages" using m1(5) by (simp add: map_injective inj_def)
  ultimately show ?thesis using m1(1) h by (simp add: main_turn_def)
qed

text \<open>A concrete transfer of 1.5 coins, whose body comes in one chunk.\<close>

lemma sample_plain: "plain_transfer 0 sample_fields"
  using sample_fields_ok
  by (simp add: plain_transfer_def transfer_fields_ok_def) (simp add: sample_fields_def is_coin_def integers_ok_def field_defs
    is_amount_def Let_def all_digits_def AMOUNT_PRECISION_def is_ascii_digit_def)

lemma sample_fee: "max_fee (sample_fields ! GAS_LIMIT) (sample_fields ! GAS_PRICE) 295 = Some ''0.0006''"
  by code_simp

lemma clear_settings: "\<not> dev_expert clear_env"
  by (simp add: dev_expert_def settings_get_def clear_env_def EXPERT_MODE_def)

lemma transfer_started:
  "\<exists>m. reachable {clear_env} 100 m \<and> app_stream m = Modern INS_SIGN_TRANSFER \<and> tx (dev m) = [] \<and>
     public_key clear_env (sign_path m) = Some sample_pk"
proof -
  have "handle clear_env 100 0 INS_SIGN_TRANSFER P1_INIT 0 sample_path machine_new = (Reply (reply_only SW_OK),
    machine_new \<lparr> app_pending := PendingNone, dev := tx_reset (dev machine_new), app_stream := Modern INS_SIGN_TRANSFER,
        hd_path := path_of sample_path, sign_path := path_of sample_path \<rparr>)"
    by (rule init_step) (simp_all add: modern_ins_def sample_path_ok env_pins)
  from reachable.command [OF reachable.start _ this] show ?thesis
    using env_keys(2) by (fastforce simp: dev.contents_reset)
qed

theorem transfer_signed_as_shown_witness:
  "\<exists>m h m' sig. main_turn clear_env 100 Touch (\<lambda>h. True) 0 INS_SIGN_TRANSFER P1_LAST 0 sample_body m =
      (\<lparr> payload = sig, reply_sw = SW_OK \<rparr>, h, m') \<and>
    shown_fields h = concat (map (item_fields Touch)
      [(''Signing'', ''Transaction''), (''On Network'', ''mainnet01''), (''Requiring'', ''Capabilities''),
       (''Of Key'', hex_lower sample_pk), (''Transfer 1'', ''Normal Transfer''), (''From'', ''k:'' @ hex_lower sample_pk),
       (''To'', ''k:abababababababababababababababababababababababababababababababab''), (''Amount'', ''KDA 1.5''),
       (''On Chain'', ''0''), (''Using Gas'', ''at most 600 at price 1.0e-6''), (''Max fee'', ''KDA 0.0006''),
       (''Paying account'', ''k:'' @ hex_lower sample_pk)])"
proof -
  obtain m where m: "reachable {clear_env} 100 m" "app_stream m = Modern INS_SIGN_TRANSFER" "tx (dev m) = []"
    "public_key clear_env (sign_path m) = Some sample_pk" using transfer_started by blast
  have c: "(100::nat) < UNSET" "(57::nat) \<le> 100" "tx (dev m) @ sample_body = byte_of 0 # encode_fields sample_fields"
    using m(3) by (simp_all add: UNSET_def sample_body_def)
  have pages: "transfer_pages sample_fields 0 (hex_lower sample_pk) ''0.0006'' =
      [(''Signing'', ''Transaction''), (''On Network'', ''mainnet01''), (''Requiring'', ''Capabilities''),
       (''Of Key'', hex_lower sample_pk), (''Transfer 1'', ''Normal Transfer''), (''From'', ''k:'' @ hex_lower sample_pk),
       (''To'', ''k:abababababababababababababababababababababababababababababababab''), (''Amount'', ''KDA 1.5''),
       (''On Chain'', ''0''), (''Using Gas'', ''at most 600 at price 1.0e-6''), (''Max fee'', ''KDA 0.0006''),
       (''Paying account'', ''k:'' @ hex_lower sample_pk)]"
    by (simp add: transfer_pages_def sample_fields_def field_defs tx_type_defs)
  have sig: "length (take 32 (bs @ replicate 32 NUL) @ take 32 (bs @ replicate 32 NUL)) \<le> REPLY_MAX" for bs :: bytes
    by (simp add: REPLY_MAX_def)
  from transfer_signed_as_shown [OF c(1,2) m(1) env_pins(2) clear_settings m(2) c(3) sample_plain sample_fee m(4)
      env_hash(2) env_sign(2) sig, of Touch 0]
  show ?thesis unfolding pages by blast
qed

text \<open>C19: A structured transfer signs what its body says. When a pending signature is of a structured
  transfer, the bytes to be signed are the template built from the whole buffered body for the key
  at the signing path, in both command families.\<close>

theorem transfer_signs_template:
  assumes "cap < UNSET" "same_device E" "reachable E cap m" "env \<in> E"
    and "app_pending m = PendingSign kind" "kind_type kind = TxTransfer"
  shows "transfer_build (tx (dev m)) (public_key env (sign_path m)) = Inr (kind_bytes kind (dev m))"
  using assms by (rule pending_template)

theorem transfer_signs_template_witness:
  "\<exists>m :: machine. app_pending m = PendingSign (SignModern TxTransfer) \<and> tx (dev m) = sample_body \<and>
     transfer_build sample_body (public_key clear_env (sign_path m)) = Inr (kind_bytes (SignModern TxTransfer) (dev m))"
proof -
  obtain m where m: "reachable {clear_env} 100 m" "app_stream m = Modern INS_SIGN_TRANSFER" "tx (dev m) = []"
    "public_key clear_env (sign_path m) = Some sample_pk" using transfer_started by blast
  have c: "(100::nat) < UNSET" "(57::nat) \<le> 100" "tx (dev m) @ sample_body = byte_of 0 # encode_fields sample_fields"
    using m(3) by (simp_all add: UNSET_def sample_body_def)
  have "minv m" using reachable_invariant [OF c(1) m(1)] by simp
  from transfer_last [OF this c(1,2) env_pins(2) clear_settings m(2) c(3) sample_plain sample_fee m(4) env_hash(2), of 0]
  obtain m1 where h: "handle clear_env 100 0 INS_SIGN_TRANSFER P1_LAST 0 sample_body m = (ReviewTx False, m1)"
    "app_pending m1 = PendingSign (SignModern TxTransfer)" "tx (dev m1) = sample_body"
    by (auto simp: sample_body_def)
  have r: "reachable {clear_env} 100 m1" by (rule reachable.command [OF m(1) _ h(1)]) simp
  have "kind_type (SignModern TxTransfer) = TxTransfer" by simp
  from transfer_signs_template [OF c(1) singleton_device r singletonI h(2) this]
  have "transfer_build sample_body (public_key clear_env (sign_path m1)) = Inr (kind_bytes (SignModern TxTransfer) (dev m1))"
    unfolding h(3) .
  then show ?thesis using h(2,3) by blast
qed

text \<open>C34: A body that is no transfer is refused, with its reason. When the last chunk of a structured transfer
  completes a body that is no encoding of twelve allowed fields, the reply is \<open>0x6984\<close> with the text of the
  first check that fails on the whole body (unknown type, cut off, trailing bytes, length, content);
  nothing is pending, the stream is closed, and the body stays readable.\<close>

theorem bad_transfer_refused:
  assumes "cap < UNSET" "reachable E cap m" "os_pin_validated env" "app_stream m = Modern INS_SIGN_TRANSFER"
    and "length (tx (dev m) @ data) \<le> FLASH_CAP"
    and "\<nexists>ty f. transfer_fields_ok ty f \<and> tx (dev m) @ data = byte_of ty # encode_fields f"
  shows "\<exists>e m'. handle env cap 0 INS_SIGN_TRANSFER P1_LAST p2 data m =
      (Reply (reply_with [description e] DATA_INVALID), m') \<and> refused_for (tx (dev m) @ data) e \<and>
    app_pending m' = PendingNone \<and> app_stream m' = StreamNone \<and> tx (dev m') = tx (dev m) @ data"
proof -
  have wf: "device_wf (dev m)" using reachable_invariant [OF assms(1,2)] by (simp add: minv_def)
  have "tx (dev (closed_with data m)) = tx (dev m) @ data" using tx_append_spec(2,3) [OF wf] assms(5)
    by (simp add: closed_with_def)
  then show ?thesis using transfer_last_refused [OF wf assms(3-6)] by (fastforce simp: closed_with_def)
qed

theorem bad_transfer_refused_witness:
  "\<exists>m m' :: machine. handle clear_env 100 0 INS_SIGN_TRANSFER P1_LAST 0 (byte_of 3 # drop 1 sample_body) m =
      (Reply (reply_with [''Unexpected value''] DATA_INVALID), m') \<and> app_pending m' = PendingNone"
proof -
  obtain m where m: "reachable {clear_env} 100 m" "app_stream m = Modern INS_SIGN_TRANSFER" "tx (dev m) = []"
    using transfer_started by blast
  let ?d = "byte_of 3 # drop 1 sample_body"
  have "length (drop 1 sample_body) < FLASH_CAP" by (simp add: sample_body_def sample_fields_def FLASH_CAP_def)
  moreover have "byte_of 3 = byte_of ty \<Longrightarrow> \<not> transfer_fields_ok ty f" for ty f
    using arg_cong [of "byte_of 3" "byte_of ty" byte_val] by (auto simp: transfer_fields_ok_def)
  ultimately obtain e m' where h: "handle clear_env 100 0 INS_SIGN_TRANSFER P1_LAST 0 ?d m =
      (Reply (reply_with [description e] DATA_INVALID), m')" "refused_for ?d e" "app_pending m' = PendingNone"
    using bad_transfer_refused [OF _ m(1) env_pins(2) m(2), of ?d 0] m(3) by (fastforce simp: UNSET_def)
  have "e = UnexpectedValue" using h(2) by (cases rule: refused_for.cases) auto
  then show ?thesis using h(1,3) by auto
qed

end
