(* ===== verification/Legacy_Claims.thy ===== *)
theory Legacy_Claims
  imports Legacy_Transfers Transfer_Claims
begin

text \<open>
  The properties of the legacy command family: a legacy stream is the message and the path it announces,
  a legacy transfer is the body its chunks spell, however its items are split between them.
\<close>

section \<open>A transfer in one chunk\<close>

lemma append_run:
  assumes "device_wf (dev m)" "length (tx (dev m)) + length d \<le> FLASH_CAP"
  shows "legacy_append d m = (Inr (), m \<lparr> dev := snd (tx_append (dev m) d) \<rparr>)"
  using assms tx_append_spec(2) [OF assms(1), of d]
  by (cases "tx_append (dev m) d") (simp add: legacy_append_def dev_append_def bnd_def ret_def)

lemma transfer_loop_run:
  assumes "length b < LEGACY_FULL_CHUNK_SIZE"
  shows "drop (offset + psize + 1) b = encode_fields fs \<Longrightarrow> fs \<noteq> [] \<Longrightarrow> list_all (\<lambda>x. length x < 256) fs \<Longrightarrow>
    legacy_items m + length fs = LEGACY_TRANSFER_NUM_ITEMS \<Longrightarrow> device_wf (dev m) \<Longrightarrow>
    length (tx (dev m)) + length (encode_fields fs) \<le> FLASH_CAP \<Longrightarrow> \<exists>m'. transfer_loop b offset psize m = (Inr True, m')"
proof (induction fs arbitrary: offset psize m)
  case (Cons x r)
  let ?pos = "offset + (psize + 1)"
  let ?nxt = "?pos + length x + 1"
  let ?d = "take (length x + 1) (drop ?pos b)"
  let ?m2 = "m \<lparr> dev := snd (tx_append (dev m) ?d), legacy_items := u8 (legacy_items m + 1) \<rparr>"
  have b: "drop ?pos b = byte_of (length x) # x @ encode_fields r" using Cons.prems(1) by (simp add: add.assoc)
  then have pos: "?pos < length b" "b ! ?pos = byte_of (length x)" by (auto simp: nth_via_drop not_le [symmetric])
  have rest: "drop ?nxt b = encode_fields r"
  proof -
    have "drop ?nxt b = drop (length x + 1) (drop ?pos b)" by (simp add: add_ac)
    also have "\<dots> = encode_fields r" unfolding b by simp
    finally show ?thesis .
  qed
  have len: "length b = ?nxt + length (encode_fields r)" using arg_cong [OF b, of length] pos(1) by simp
  have d: "?d = byte_of (length x) # x" unfolding b by simp
  have items: "u8 (legacy_items m + 1) = legacy_items m + 1" "legacy_items m < LEGACY_TRANSFER_NUM_ITEMS"
    using Cons.prems(4) by (auto simp: u8_def legacy_defs)
  have x: "byte_val (b ! ?pos) = length x" using Cons.prems(3) pos(2) by simp
  have app: "legacy_append ?d m = (Inr (), m \<lparr> dev := snd (tx_append (dev m) ?d) \<rparr>)"
    by (rule append_run [OF Cons.prems(5)]) (use Cons.prems(6) d in simp)
  from legacy_append_text [OF this Cons.prems(5)] have m2: "device_wf (dev ?m2)" "tx (dev ?m2) = tx (dev m) @ ?d" by simp_all
  have step: "transfer_loop b offset psize m =
      (if r = [] then (Inr True, ?m2 \<lparr> app_stream := StreamNone \<rparr>) else transfer_loop b ?pos (length x) ?m2)"
  proof -
    have "r = [] \<longleftrightarrow> encode_fields r = []" by (cases r) simp_all
    then have "r = [] \<longleftrightarrow> ?nxt \<ge> length b" using len by simp
    moreover have "r = [] \<Longrightarrow> legacy_items m + 1 = LEGACY_TRANSFER_NUM_ITEMS" using Cons.prems(4) by simp
    ultimately show ?thesis
      using assms pos(1) len app items x by (subst transfer_loop.simps) (auto simp: Let_def)
  qed
  show ?case
  proof (cases "r = []")
    case False
    have "\<exists>m'. transfer_loop b ?pos (length x) ?m2 = (Inr True, m')"
      by (rule Cons.IH) (use Cons.prems False rest items m2 d in \<open>auto simp: add_ac\<close>)
    then show ?thesis using step False by simp
  qed (simp add: step)
qed simp

lemma initialize_run:
  assumes "b = msg @ byte_of qty # pb @ c # rest" "length msg = LEGACY_HEADER_LENGTH" "2 \<le> qty" "qty \<le> 5" "length pb = 4 * qty"
    "prefix_ok (legacy_path qty pb)" "minv m"
  shows "\<exists>m'. legacy_initialize_transfer b m = (Inr (4 * qty + 1 + LEGACY_HEADER_LENGTH), m') \<and> legacy_items m' = 0 \<and>
    device_wf (dev m') \<and> tx (dev m') = [c]"
proof -
  let ?off = "4 * qty + 1 + LEGACY_HEADER_LENGTH"
  let ?m0 = "m \<lparr> local_data_len := 0, check_item_len := False, item_len := 0, legacy_items := 0 \<rparr>"
  let ?m1 = "?m0 \<lparr> hd_path := legacy_path qty pb, hdpath_length := 4 * qty + 1 \<rparr>"
  let ?m2 = "?m1 \<lparr> sign_path := legacy_path qty pb, dev := tx_reset (dev m), app_stream := Legacy INS_LEGACY_TRANSFER \<rparr>"
  have path: "legacy_extract_hd_path b LEGACY_HEADER_LENGTH False ?m0 = (Inr (), ?m1)"
    by (rule legacy_path_run) (use assms in simp_all)
  have b: "take 1 (drop ?off b) = [c]" "?off + 1 \<le> length b" using assms(1,2,5) by simp_all
  have wf: "device_wf (dev ?m2)" "tx (dev ?m2) = []" using assms(7) by (simp_all add: minv_def dev.invar_reset dev.contents_reset)
  let ?m3 = "?m2 \<lparr> dev := snd (tx_append (tx_reset (dev m)) [c]) \<rparr>"
  have app: "legacy_append [c] ?m2 = (Inr (), ?m3)"
    using append_run [of ?m2 "[c]"] wf by (simp add: FLASH_CAP_def)
  from legacy_append_text [OF this wf(1)] have "device_wf (dev ?m3)" "tx (dev ?m3) = [c]" using wf(2) by simp_all
  moreover have "legacy_initialize_transfer b m = (Inr ?off, ?m3 \<lparr> legacy_items := 0 \<rparr>)"
    using path b app
    by (simp add: legacy_initialize_transfer_def thn_eq bnd_def modifies_def reads_def ret_def dev_reset_def require_def)
  ultimately show ?thesis by simp
qed

lemma legacy_transfer_run:
  assumes "minv m" "cap < UNSET" "57 \<le> cap" "os_pin_validated env" "\<not> dev_expert env" "app_stream m = StreamNone"
    "2 \<le> qty" "qty \<le> 5" "length pb = 4 * qty" "prefix_ok (legacy_path qty pb)" "public_key env (legacy_path qty pb) = Some pk"
    "plain_transfer ty f" "max_fee (f ! GAS_LIMIT) (f ! GAS_PRICE) 295 = Some fee"
    "os_blake2b env (concat (format_pieces f ty (hex_lower pk))) = Some digest"
    "d = byte_of qty # pb @ byte_of ty # encode_fields f" "length d < LEGACY_CHUNK_SIZE"
  shows "\<exists>m'. handle env cap 0 INS_LEGACY_TRANSFER p1 p2 d m = (ReviewTx False, m')"
proof -
  let ?b = "raw_apdu INS_LEGACY_TRANSFER p1 p2 d" and ?m = "m \<lparr> app_pending := PendingNone \<rparr>"
  have mi: "minv ?m" using idle_drop [OF assms(1)] by (simp add: idle_def)
  have f: "length f = FIELDS" "list_all (\<lambda>x. length x \<le> 64) f"
    using assms(12) lengths_ok_short by (simp_all add: plain_transfer_def transfer_fields_ok_def)
  obtain hdr where b: "?b = hdr @ d" "length hdr = LEGACY_HEADER_LENGTH"
    using assms(16) by (simp add: raw_apdu_def Let_def legacy_defs)
  obtain m1 where i: "legacy_initialize_transfer ?b ?m = (Inr (4 * qty + 1 + LEGACY_HEADER_LENGTH), m1)" "legacy_items m1 = 0"
    "device_wf (dev m1)" "tx (dev m1) = [byte_of ty]"
    using initialize_run [OF _ b(2) assms(7-10) mi, of ?b "byte_of ty" "encode_fields f"] b(1) assms(15) by auto
  have "f \<noteq> []" using f(1) by (auto simp: FIELDS_def)
  moreover have "length (encode_fields f) \<le> 65 * FIELDS" using encode_fields_length [OF f(2)] f(1) by simp
  moreover have "drop (4 * qty + 1 + LEGACY_HEADER_LENGTH + 0 + 1) ?b = encode_fields f" using b assms(9,15) by simp
  moreover have "list_all (\<lambda>x. length x < 256) f" using f(2) by (auto simp: list_all_iff)
  moreover have "length ?b < LEGACY_FULL_CHUNK_SIZE" using b assms(16) by (simp add: legacy_defs)
  ultimately obtain x where loop: "transfer_loop ?b (4 * qty + 1 + LEGACY_HEADER_LENGTH) 0 m1 = (Inr True, x)"
    using transfer_loop_run [of ?b "4 * qty + 1 + LEGACY_HEADER_LENGTH" 0 f m1] i f(1)
    by (auto simp: FLASH_CAP_def FIELDS_def LEGACY_TRANSFER_NUM_ITEMS_def)
  have chunk: "legacy_transfer_chunk ?b ?m = (Inr True, x)"
    using i(1) loop assms(6) by (simp add: legacy_transfer_chunk_def legacy_first_chunk_def bnd_def reads_def ret_def)
  have c: "chunk_part d = d" using assms(16) by simp
  obtain q2 pb2 body where q: "d = byte_of q2 # pb2 @ body" "q2 \<le> 5" "length pb2 = 4 * q2" "chunk_read body (legacy_path q2 pb2) True x"
    using first_chunk_read [OF chunk mi] assms(6) c by auto
  then have "byte_of q2 = byte_of qty" using assms(15) by simp
  then have "q2 = qty" using q(2) assms(8) byte_val_of [of q2] byte_val_of [of qty] by simp
  then have x: "tx (dev x) = byte_of ty # encode_fields f" "sign_path x = legacy_path qty pb"
    using q(1,3,4) assms(9,15) by (auto simp: chunk_read_def)
  have wf: "device_wf (dev x)"
    using wpD [OF legacy_transfer_chunk_wp [OF idle_drop [OF assms(1)]] chunk] by (simp add: armed_def idle_device)
  have pk: "public_key env (sign_path x) = Some pk" using x(2) assms(11) by simp
  obtain y where "tx_parse env cap TxTransfer (length (tx (dev x))) x = (Inr False, y)"
    using transfer_parse [OF assms(12,13) wf x(1) pk assms(14,5,3)] by blast
  then have "legacy_transfer env cap INS_LEGACY_TRANSFER p1 p2 d ?m =
      (Inr (ReviewTx False), y \<lparr> app_pending := PendingSign SignLegacyTransfer \<rparr>)"
    by (simp add: legacy_transfer_def review_parsed_def chunk bnd_def try_parse_def thn_eq modifies_def ret_def)
  then show ?thesis using handle_transfer [OF assms(4)] by simp
qed

section \<open>The claims\<close>

text \<open>C20: A legacy stream signs the message it announces. If the chunks of a stream are all answered with
  success and the last one asks for a review, then the bytes of the stream are a message of exactly the
  announced length (32 for a hash) followed by a path of two to five components; the message is what a
  signature will be over, and the signing path is that path, filled up with zeros.\<close>

theorem legacy_stream_is_message:
  assumes "cap < UNSET" "reachable E cap m" "ins \<in> {INS_LEGACY_SIGN_JSON, INS_LEGACY_SIGN_HASH}" "os_pin_validated env"
    and "app_stream m = StreamNone" "legacy_chunks env cap ins p1 p2 ds m = Some m1"
    and "handle env cap 0 ins p1 p2 d m1 = (ReviewTx blind, m2)" "cs = ds @ [d]"
  shows "\<exists>msg qty pb. stream_part ins (hd cs) @ concat (tl cs) = msg @ byte_of qty # pb \<and>
    length msg = announced ins (hd cs) \<and> 2 \<le> qty \<and> qty \<le> 5 \<and> length pb = 4 * qty \<and>
    sign_path m2 = legacy_path qty pb \<and> prefix_ok (legacy_path qty pb) \<and>
    app_pending m2 = PendingSign (SignLegacy (legacy_type ins) (length msg)) \<and>
    kind_bytes (SignLegacy (legacy_type ins) (length msg)) (dev m2) = msg"
proof -
  have "minv m" using reachable_invariant [OF assms(1,2)] by blast
  from legacy_review [OF this assms(1,3-8)] obtain msg qty pb where c: "tx (dev m2) = msg @ byte_of qty # pb"
    "app_pending m2 = PendingSign (SignLegacy (legacy_type ins) (announced ins (hd cs)))"
    "stream_part ins (hd cs) @ concat (tl cs) = msg @ byte_of qty # pb" "length msg = announced ins (hd cs)"
    "2 \<le> qty" "qty \<le> 5" "length pb = 4 * qty" "sign_path m2 = legacy_path qty pb" "prefix_ok (legacy_path qty pb)"
    by (auto simp: legacy_closed_def)
  have "kind_bytes (SignLegacy (legacy_type ins) (length msg)) (dev m2) = msg" using c(1) by simp
  then show ?thesis using c(2) [folded c(4)] c(3-9) by blast
qed

theorem legacy_stream_is_message_witness:
  "\<exists>m2 :: machine. sign_path m2 = legacy_path 5 sample_path \<and> app_pending m2 = PendingSign (SignLegacy TxHash 32) \<and>
     kind_bytes (SignLegacy TxHash 32) (dev m2) = replicate 32 NUL"
proof -
  let ?d = "replicate 32 NUL @ byte_of 5 # sample_path"
  have path: "legacy_path 5 sample_path = path_of sample_path" "length sample_path = 4 * 5"
    by (simp_all add: legacy_path_def path_of_def sample_path_ok upt_rec)
  have "(100::nat) < UNSET" and ins: "INS_LEGACY_SIGN_HASH \<in> {INS_LEGACY_SIGN_JSON, INS_LEGACY_SIGN_HASH}"
    and none: "app_stream machine_new = StreamNone"
    by (simp_all add: UNSET_def machine_new_def app_new_def app.defs)
  obtain m2 where h: "handle sample_env 100 0 INS_LEGACY_SIGN_HASH 0 0 ?d machine_new = (ReviewTx True, m2)"
    using legacy_hash_run [OF minv_new env_pins(1) env_settings(1) none _ _ _ path(2) _ env_keys(1), of "replicate 32 NUL" 100 0 0]
      path(1) sample_path_ok(2) by (auto simp: HASH_LEN_def)
  have "stream_part INS_LEGACY_SIGN_HASH ?d = ?d" "announced INS_LEGACY_SIGN_HASH ?d = 32" "legacy_type INS_LEGACY_SIGN_HASH = TxHash"
    by (simp_all add: stream_part_def announced_def legacy_type_def ins_defs HASH_LEN_def)
  moreover have "legacy_chunks sample_env 100 INS_LEGACY_SIGN_HASH 0 0 [] machine_new = Some machine_new" by simp
  ultimately obtain msg qty pb where "?d = msg @ byte_of qty # pb" "length msg = 32" "qty \<le> 5"
    "sign_path m2 = legacy_path qty pb" "app_pending m2 = PendingSign (SignLegacy TxHash (length msg))"
    "kind_bytes (SignLegacy TxHash (length msg)) (dev m2) = msg"
    using legacy_stream_is_message [OF \<open>100 < UNSET\<close> reachable.start [of "{sample_env}"] ins env_pins(1) none _ h refl, of "[]"] by auto
  moreover from this(1,2) have "msg = replicate 32 NUL" "byte_of qty = byte_of 5" "pb = sample_path"
    by (auto simp: append_eq_append_conv)
  moreover have "qty = 5" using calculation(3,8) byte_val_of [of qty] byte_val_of [of 5] by simp
  ultimately show ?thesis by auto
qed

lemma legacy_chunks_reachable:
  "legacy_chunks env cap ins p1 p2 ds m = Some m' \<Longrightarrow> reachable E cap m \<Longrightarrow> env \<in> E \<Longrightarrow> reachable E cap m'"
proof (induction ds arbitrary: m)
  case (Cons d ds)
  then show ?case using legacy_chunks_Cons [OF Cons.prems(1)] by (blast intro: reachable.command)
qed simp

text \<open>C21: A legacy transfer is the body its chunks spell. Items may be split between two chunks and the head
  of a split item waits in a 33-byte buffer; if the chunks are all answered with success and the last
  one asks for a review, then the data of the chunks, at most 230 bytes of each, is a path followed by
  the buffered body, the signing path is that path, and what is signed is the template built from
  exactly this body.\<close>

theorem legacy_transfer_is_body:
  assumes "cap < UNSET" "same_device E" "reachable E cap m" "env \<in> E" "os_pin_validated env" "app_stream m = StreamNone"
    and "legacy_chunks env cap INS_LEGACY_TRANSFER p1 p2 ds m = Some m1"
    and "handle env cap 0 INS_LEGACY_TRANSFER p1 p2 d m1 = (ReviewTx blind, m2)"
  shows "\<exists>qty pb body. concat (map (take LEGACY_CHUNK_SIZE) (ds @ [d])) = byte_of qty # pb @ body \<and>
    2 \<le> qty \<and> qty \<le> 5 \<and> length pb = 4 * qty \<and> sign_path m2 = legacy_path qty pb \<and> prefix_ok (legacy_path qty pb) \<and>
    tx (dev m2) = body \<and> app_pending m2 = PendingSign SignLegacyTransfer \<and>
    transfer_build body (public_key env (legacy_path qty pb)) = Inr (template (dev m2))"
proof -
  have "minv m" using reachable_invariant [OF assms(1,3)] by blast
  from transfer_review_text [OF this assms(1,5-8)] obtain qty pb body where
    c: "concat (map (take LEGACY_CHUNK_SIZE) (ds @ [d])) = byte_of qty # pb @ body" "2 \<le> qty" "qty \<le> 5" "length pb = 4 * qty"
    "prefix_ok (legacy_path qty pb)" "sign_path m2 = legacy_path qty pb" "tx (dev m2) = body"
    "app_pending m2 = PendingSign SignLegacyTransfer" by blast
  have "reachable E cap m2"
    by (rule reachable.command [OF legacy_chunks_reachable [OF assms(7,3,4)] assms(4,8)])
  from pending_template [OF assms(1,2) this assms(4) c(8)] show ?thesis using c by auto
qed

theorem legacy_transfer_is_body_witness:
  "\<exists>m2 :: machine. tx (dev m2) = sample_body \<and> app_pending m2 = PendingSign SignLegacyTransfer \<and>
     transfer_build sample_body (Some sample_pk) = Inr (template (dev m2))"
proof -
  let ?d = "byte_of 5 # sample_path @ byte_of 0 # encode_fields sample_fields"
  have path: "legacy_path 5 sample_path = path_of sample_path" "length sample_path = 4 * 5"
    by (simp_all add: legacy_path_def path_of_def sample_path_ok upt_rec)
  have c: "(100::nat) < UNSET" "(57::nat) \<le> 100" and none: "app_stream machine_new = StreamNone"
    by (simp_all add: UNSET_def machine_new_def app_new_def app.defs)
  have len: "length ?d < LEGACY_CHUNK_SIZE" using sample_body_length by (simp add: sample_body_def sample_path_ok legacy_defs)
  have ok: "prefix_ok (legacy_path 5 sample_path)" using path(1) sample_path_ok(2) by simp
  obtain m2 where h: "handle clear_env 100 0 INS_LEGACY_TRANSFER 0 0 ?d machine_new = (ReviewTx False, m2)"
    using legacy_transfer_run [OF minv_new c env_pins(2) clear_settings none _ _ path(2) ok env_keys(2) sample_plain sample_fee
        env_hash(2) refl len, of 0 0] by auto
  have "legacy_chunks clear_env 100 INS_LEGACY_TRANSFER 0 0 [] machine_new = Some machine_new" by simp
  from legacy_transfer_is_body [OF c(1) singleton_device reachable.start singletonI env_pins(2) none this h]
  obtain qty pb body where b: "take LEGACY_CHUNK_SIZE ?d = byte_of qty # pb @ body" "qty \<le> 5" "length pb = 4 * qty"
    "tx (dev m2) = body" "app_pending m2 = PendingSign SignLegacyTransfer"
    "transfer_build body (public_key clear_env (legacy_path qty pb)) = Inr (template (dev m2))" by auto
  have "take LEGACY_CHUNK_SIZE ?d = ?d" using len by simp
  then have "byte_of qty = byte_of 5" "pb @ body = sample_path @ sample_body" using b(1) by (simp_all add: sample_body_def)
  moreover from this(1) have "qty = 5" using b(2) byte_val_of [of qty] byte_val_of [of 5] by simp
  ultimately have "body = sample_body" using b(3) path(2) by simp
  then show ?thesis using b(4-6) env_keys(2) by auto
qed

end
