(* ===== verification/Stream_Log.thy ===== *)
theory Stream_Log
  imports Legacy_Transfers
begin

text \<open>
  The streams against the log of the host: a reference that follows the open stream of either family from
  the commands and their answers alone, whatever commands are interleaved, and a proof that every
  reachable machine holds exactly the stream, the path and the bytes the reference says.
\<close>

section \<open>The log\<close>

text \<open>A command as the host sent it, and the answer of the device.\<close>

datatype sent = Sent os_env nat nat nat nat bytes action

text \<open>
  What the host knows of the open stream: of a modern one the instruction, the path of its first chunk
  and the bytes since; of a legacy transaction or hash the announced length and the bytes since; of a
  legacy transfer the text of its chunks.
\<close>

datatype stream_view = NoStream | ModernOpen nat path bytes | LegacyOpen nat nat bytes | TransferOpen bytes

definition answered_ok :: "action \<Rightarrow> bool" where
  "answered_ok a \<longleftrightarrow> a = Reply (reply_only SW_OK)"

definition legacy_sign_ins :: "nat set" where
  "legacy_sign_ins = {INS_LEGACY_SIGN_JSON, INS_LEGACY_SIGN_HASH}"

fun follow :: "sent \<Rightarrow> stream_view \<Rightarrow> stream_view" where
  "follow (Sent env cla ins p1 p2 data a) s =
     (if cla \<noteq> 0 \<or> \<not> os_pin_validated env then s
      else if ins \<in> modern_ins then
        (if p1 = P1_INIT then if answered_ok a then ModernOpen ins (path_of data) [] else NoStream
         else if p1 = P1_ADD then
           (case s of ModernOpen i p b \<Rightarrow> if i = ins \<and> answered_ok a then ModernOpen i p (b @ data) else NoStream
            | _ \<Rightarrow> NoStream)
         else if p1 = P1_LAST then NoStream else s)
      else if ins = INS_GET_ADDR then (case s of ModernOpen _ _ _ \<Rightarrow> NoStream | _ \<Rightarrow> s)
      else if ins \<in> legacy_sign_ins then
        (if \<not> answered_ok a then NoStream
         else (case s of LegacyOpen i n b \<Rightarrow> LegacyOpen i n (b @ data)
               | _ \<Rightarrow> LegacyOpen ins (announced ins data) (stream_part ins data)))
      else if ins = INS_LEGACY_TRANSFER then
        (if \<not> answered_ok a then NoStream
         else (case s of TransferOpen t \<Rightarrow> TransferOpen (t @ chunk_part data) | _ \<Rightarrow> TransferOpen (chunk_part data)))
      else s)"

text \<open>The newest command first.\<close>

primrec open_stream :: "sent list \<Rightarrow> stream_view" where
  "open_stream [] = NoStream"
| "open_stream (e # es) = follow e (open_stream es)"

text \<open>Reachable states with the log of the commands that led to them. Decisions of the user are not logged.\<close>

inductive logged :: "os_env set \<Rightarrow> nat \<Rightarrow> sent list \<Rightarrow> machine \<Rightarrow> bool" for E cap where
  log_start: "logged E cap [] machine_new"
| log_command: "logged E cap es m \<Longrightarrow> env \<in> E \<Longrightarrow> handle env cap cla ins p1 p2 data m = (a, m') \<Longrightarrow>
    logged E cap (Sent env cla ins p1 p2 data a # es) m'"
| log_address: "logged E cap es m \<Longrightarrow> address_done approved m = (r, m') \<Longrightarrow> logged E cap es m'"
| log_sign: "logged E cap es m \<Longrightarrow> env \<in> E \<Longrightarrow> sign_done env approved m = (r, m') \<Longrightarrow> logged E cap es m'"

lemma logged_reachable: "logged E cap es m \<Longrightarrow> reachable E cap m"
  by (induction rule: logged.induct) (auto intro: reachable.intros)

lemma reachable_logged: "reachable E cap m \<Longrightarrow> \<exists>es. logged E cap es m"
  by (induction rule: reachable.induct) (blast intro: logged.intros)+

section \<open>Properties of the machine that a handler keeps\<close>

definition keeps :: "(machine \<Rightarrow> bool) \<Rightarrow> (machine, 'e, 'a) prog \<Rightarrow> bool" where
  "keeps P h \<longleftrightarrow> (\<forall>m. P m \<longrightarrow> wp h (\<lambda>_. P) (\<lambda>_. P) m)"

lemma keepsD: "keeps P h \<Longrightarrow> P m \<Longrightarrow> wp h (\<lambda>_. P) (\<lambda>_. P) m"
  by (simp add: keeps_def)

lemma keeps_run: "keeps P h \<Longrightarrow> P m \<Longrightarrow> h m = (r, m') \<Longrightarrow> P m'"
  by (drule (1) keepsD) (simp add: wp_def split: sum.splits)

lemma keeps_basic: "keeps P (ret x)" "keeps P (fails e)" "keeps P (reads g)" "keeps P (lifts r)" "keeps P (require w c)"
  by (auto simp: keeps_def wp_simps split: sum.splits)

lemma keeps_modifies: "(\<And>m. P m \<Longrightarrow> P (k m)) \<Longrightarrow> keeps P (modifies k)"
  by (simp add: keeps_def wp_modifies)

lemma keeps_bnd: "keeps P h \<Longrightarrow> (\<And>x. keeps P (k x)) \<Longrightarrow> keeps P (bnd h k)"
  unfolding keeps_def wp_bnd by (blast intro: wp_mono)

lemma keeps_thn: "keeps P h \<Longrightarrow> keeps P k \<Longrightarrow> keeps P (thn h k)"
  by (simp add: thn_def keeps_bnd)

lemma keeps_if: "keeps P h \<Longrightarrow> keeps P k \<Longrightarrow> keeps P (if c then h else k)"
  by simp

lemma keeps_sum: "(\<And>e. keeps P (f e)) \<Longrightarrow> (\<And>x. keeps P (g x)) \<Longrightarrow> keeps P (case r of Inl e \<Rightarrow> f e | Inr x \<Rightarrow> g x)"
  by (cases r) simp_all

lemma keeps_type: "keeps P f \<Longrightarrow> keeps P g \<Longrightarrow> keeps P h \<Longrightarrow>
    keeps P (case ty of TxJson \<Rightarrow> f | TxTransfer \<Rightarrow> g | TxHash \<Rightarrow> h)"
  by (cases ty) simp_all

lemmas keeps_intros = keeps_basic keeps_bnd keeps_thn keeps_if keeps_sum keeps_type

text \<open>A property that reads neither the device nor the parsed transaction.\<close>

definition control :: "(machine \<Rightarrow> bool) \<Rightarrow> bool" where
  "control P \<longleftrightarrow> (\<forall>m d ps. P m \<longrightarrow> P (m \<lparr> dev := d \<rparr>) \<and> P (m \<lparr> app_parsed := ps \<rparr>))"

lemma keeps_device:
  assumes "control P"
  shows "keeps P dev_reset" "keeps P (dev_append d)" "keeps P (on_parsed f)"
    "keeps P (tx_tokenize env cap ty len)" "keeps P (tx_parse env cap ty len)" "keeps P (try_parse (tx_parse env cap ty len))"
proof -
  have c: "P m \<Longrightarrow> P (m \<lparr> dev := d \<rparr>)" "P m \<Longrightarrow> P (m \<lparr> app_parsed := ps \<rparr>)" for m d ps
    using assms by (simp_all add: control_def)
  show r: "keeps P dev_reset" "keeps P (dev_append d)" "keeps P (on_parsed f)" for f :: "'x parse"
    using c by (simp_all add: keeps_def wp_simps split: prod.splits sum.splits)
  show "keeps P (tx_tokenize env cap ty len)"
    unfolding tx_tokenize_def split_beta by (intro keeps_intros r keeps_modifies c)
  then show p: "keeps P (tx_parse env cap ty len)"
    unfolding tx_parse_def Let_def by (intro keeps_intros r)
  show "keeps P (try_parse (tx_parse env cap ty len))"
    using p by (simp add: keeps_def wp_try_parse)
qed

text \<open>The end of a signing handler, for a property that does not read what is pending.\<close>

lemma keeps_review:
  assumes "control P" "\<And>m k. P m \<Longrightarrow> P (m \<lparr> app_pending := PendingSign k \<rparr>)" "\<And>e. keeps P (g e)"
  shows "keeps P (review_parsed env cap ty len kind g)"
  unfolding review_parsed_def by (intro keeps_intros keeps_modifies keeps_device assms)

lemma keeps_error:
  assumes "control P"
  shows "keeps P (legacy_error json e)" "keeps P (transfer_error e)"
  unfolding legacy_error_def transfer_error_def by (intro keeps_intros keeps_device assms)+

section \<open>The machine holds what the log says\<close>

text \<open>The text of a legacy transfer: the path it starts with, and the body so far.\<close>

definition transfer_text :: "bytes \<Rightarrow> path \<Rightarrow> bytes \<Rightarrow> bool" where
  "transfer_text t p body \<longleftrightarrow> (\<exists>qty pb. t = byte_of qty # pb @ body \<and> 2 \<le> qty \<and> qty \<le> 5 \<and> length pb = 4 * qty \<and> p = legacy_path qty pb)"

fun holds :: "stream_view \<Rightarrow> machine \<Rightarrow> bool" where
  "holds NoStream m \<longleftrightarrow> app_stream m = StreamNone"
| "holds (ModernOpen i p b) m \<longleftrightarrow> app_stream m = Modern i \<and> sign_path m = p \<and> tx (dev m) = b"
| "holds (LegacyOpen i n b) m \<longleftrightarrow> i \<in> legacy_sign_ins \<and> app_stream m = Legacy i \<and> payload_length m = n \<and> tx (dev m) = b"
| "holds (TransferOpen t) m \<longleftrightarrow> app_stream m = Legacy INS_LEGACY_TRANSFER \<and> transfer_text t (sign_path m) (tx (dev m) @ saved m)"

lemma saved_updates [simp]:
  "saved (m \<lparr> app_pending := k \<rparr>) = saved m" "saved (m \<lparr> hd_path := q \<rparr>) = saved m" "saved (m \<lparr> hdpath_length := n \<rparr>) = saved m"
  by (simp_all add: saved_def)

lemma holds_updates [simp]:
  "holds s (m \<lparr> app_pending := k \<rparr>) = holds s m" "holds s (m \<lparr> hd_path := q \<rparr>) = holds s m"
  "holds s (m \<lparr> hdpath_length := n \<rparr>) = holds s m"
  by (cases s; simp)+

text \<open>
  What the stream in the log and its last chunk spell: the path and the bytes of the transaction. The
  kind of the pending signature says which stream it was.
\<close>

fun spelled :: "sign_kind \<Rightarrow> stream_view \<Rightarrow> nat \<Rightarrow> nat \<Rightarrow> bytes \<Rightarrow> path \<Rightarrow> bytes \<Rightarrow> bool" where
  "spelled (SignModern ty) s ins p1 data p body \<longleftrightarrow> p1 = P1_LAST \<and> ty = stream_type ins \<and>
     (\<exists>b. s = ModernOpen ins p b \<and> body = b @ data)"
| "spelled (SignLegacy ty n) s ins p1 data p body \<longleftrightarrow> ty = legacy_type ins \<and>
     (\<exists>qty pb. body @ byte_of qty # pb = (case s of LegacyOpen _ _ b \<Rightarrow> b @ data | _ \<Rightarrow> stream_part ins data) \<and>
        length body = n \<and> n = (case s of LegacyOpen _ k _ \<Rightarrow> k | _ \<Rightarrow> announced ins data) \<and>
        2 \<le> qty \<and> qty \<le> 5 \<and> length pb = 4 * qty \<and> p = legacy_path qty pb)"
| "spelled SignLegacyTransfer s ins p1 data p body \<longleftrightarrow> ins = INS_LEGACY_TRANSFER \<and>
     transfer_text (case s of TransferOpen t \<Rightarrow> t @ chunk_part data | _ \<Rightarrow> chunk_part data) p body"

text \<open>The bytes of the transaction in the buffer, without the path behind a legacy message.\<close>

fun body_of :: "sign_kind \<Rightarrow> bytes \<Rightarrow> bytes" where
  "body_of (SignLegacy ty n) b = take n b"
| "body_of _ b = b"

definition no_sign :: "machine \<Rightarrow> bool" where
  "no_sign m \<longleftrightarrow> (\<forall>kind. app_pending m \<noteq> PendingSign kind)"

text \<open>One command: the log is followed, and a signature it leaves pending is of what the log spells.\<close>

definition followed :: "sent \<Rightarrow> stream_view \<Rightarrow> machine \<Rightarrow> bool" where
  "followed e s m' \<longleftrightarrow> holds (follow e s) m' \<and> (case e of Sent env cla ins p1 p2 data a \<Rightarrow>
     no_sign m' \<or> cla = 0 \<and> (\<exists>kind blind. a = ReviewTx blind \<and> app_pending m' = PendingSign kind \<and>
       spelled kind s ins p1 data (sign_path m') (body_of kind (tx (dev m')))))"

lemma no_sign_none: "app_pending m = PendingNone \<Longrightarrow> no_sign m"
  by (simp add: no_sign_def)

lemma ins_classes:
  "INS_GET_ADDR \<notin> modern_ins" "ins \<in> legacy_sign_ins \<Longrightarrow> ins \<notin> modern_ins \<and> ins \<noteq> INS_GET_ADDR"
  "INS_LEGACY_TRANSFER \<notin> modern_ins" "INS_LEGACY_TRANSFER \<noteq> INS_GET_ADDR" "INS_LEGACY_TRANSFER \<notin> legacy_sign_ins"
  by (auto simp: modern_ins_def legacy_sign_ins_def ins_defs)

section \<open>Commands without a stream\<close>

text \<open>What a handler leaves, the command leaves.\<close>

lemma handle_leaves:
  assumes "handle env cap 0 ins p1 p2 data m = (a, m')" "os_pin_validated env" "ins \<in> set dispatched"
    "wp (dispatch env cap ins p1 p2 data) (\<lambda>_. P) (\<lambda>_. P) (m \<lparr> app_pending := PendingNone \<rparr>)"
  shows "P m'"
  using assms by (auto simp: handle_def dispatched_def ins_defs wp_def split: if_splits prod.splits sum.splits)

lemma get_addr_followed:
  assumes "holds s m" "os_pin_validated env" "handle env cap 0 INS_GET_ADDR p1 p2 data m = (a, m')"
  shows "followed (Sent env 0 INS_GET_ADDR p1 p2 data a) s m'"
proof -
  let ?s = "case s of ModernOpen _ _ _ \<Rightarrow> NoStream | _ \<Rightarrow> s"
  have "wp (dispatch env cap INS_GET_ADDR p1 p2 data) (\<lambda>_ x. holds ?s x \<and> no_sign x) (\<lambda>_ x. holds ?s x \<and> no_sign x)
      (m \<lparr> app_pending := PendingNone \<rparr>)"
    using assms(1) unfolding dispatch_def get_addr_def extract_hd_path_def fill_address_def
    by (cases s) (auto simp: wp_simps no_sign_def ins_defs split: sum.splits)
  moreover have "INS_GET_ADDR \<in> set dispatched" by (simp add: dispatched_def)
  ultimately have "holds ?s m' \<and> no_sign m'" using handle_leaves [OF assms(3,2)] by blast
  then show ?thesis using assms(2) by (simp add: followed_def ins_classes)
qed

lemma legacy_get_addr_followed:
  assumes "holds s m" "os_pin_validated env" "ins \<in> {INS_LEGACY_VERIFY_ADDRESS, INS_LEGACY_GET_PUBKEY}"
    "handle env cap 0 ins p1 p2 data m = (a, m')"
  shows "followed (Sent env 0 ins p1 p2 data a) s m'"
proof -
  have "wp (legacy_get_addr env l ins p1 p2 data) (\<lambda>_ x. holds s x \<and> no_sign x) (\<lambda>_ x. holds s x \<and> no_sign x)
      (m \<lparr> app_pending := PendingNone \<rparr>)" for l
    using assms(1) unfolding legacy_get_addr_def fill_address_def legacy_extract_hd_path_def Let_def
    by (auto simp: wp_simps no_sign_def split: sum.splits)
  then have "wp (dispatch env cap ins p1 p2 data) (\<lambda>_ x. holds s x \<and> no_sign x) (\<lambda>_ x. holds s x \<and> no_sign x)
      (m \<lparr> app_pending := PendingNone \<rparr>)"
    using assms(3) by (auto simp: dispatch_def ins_defs)
  moreover have "ins \<in> set dispatched" using assms(3) by (auto simp: dispatched_def)
  ultimately have "holds s m' \<and> no_sign m'" using handle_leaves [OF assms(4,2)] by blast
  moreover have "follow (Sent env 0 ins p1 p2 data a) s = s" using assms(3)
    by (auto simp: modern_ins_def legacy_sign_ins_def ins_defs)
  ultimately show ?thesis by (simp add: followed_def del: follow.simps)
qed

text \<open>Everything that reaches no handler, and the versions.\<close>

lemma inert_followed:
  assumes "holds s m" "handle env cap cla ins p1 p2 data m = (a, m')"
    "cla \<noteq> 0 \<or> \<not> os_pin_validated env \<or> ins \<notin> set dispatched \<or> ins = INS_LEGACY_GET_VERSION"
  shows "followed (Sent env cla ins p1 p2 data a) s m'"
proof -
  consider "cla \<noteq> 0" | "cla = 0" "\<not> os_pin_validated env" | "cla = 0" "ins \<notin> set dispatched"
    | "cla = 0" "os_pin_validated env" "ins = INS_LEGACY_GET_VERSION" using assms(3) by blast
  then have "m' = m \<lparr> app_pending := PendingNone \<rparr>"
  proof cases
    case 4
    then show ?thesis using assms(2)
      by (simp add: handle_def dispatched_def dispatch_def ret_def ins_defs split: prod.splits)
  qed (use assms(2) in \<open>auto simp: handle_def ret_def fails_def Let_def split: if_splits prod.splits\<close>)
  moreover have "follow (Sent env cla ins p1 p2 data a) s = s" using assms(3)
    by (auto simp: dispatched_def modern_ins_def legacy_sign_ins_def ins_defs)
  ultimately show ?thesis using assms(1) by (simp add: followed_def no_sign_def del: follow.simps)
qed

section \<open>Modern chunks\<close>

lemma reply_only_eq [simp]: "reply_only w = reply_only w' \<longleftrightarrow> w = w'"
  by (auto simp: reply_only_def)

text \<open>A chunk that is refused closes the stream.\<close>

definition refusal :: "action \<Rightarrow> machine \<Rightarrow> bool" where
  "refusal a m' \<longleftrightarrow> \<not> answered_ok a \<and> app_stream m' = StreamNone \<and> app_pending m' = PendingNone"

lemma chunk_refused:
  assumes "ins \<in> modern_ins" "os_pin_validated env" "p1 = P1_ADD \<or> p1 = P1_LAST"
    "app_stream m \<noteq> Modern ins \<or> \<not> fst (tx_append (dev m) data)"
    "handle env cap 0 ins p1 p2 data m = (a, m')"
  shows "refusal a m'"
  using assms
  by (cases "tx_append (dev m) data")
    (auto simp: refusal_def answered_ok_def handle_modern sign_chunk_def thn_eq bnd_def continue_modern_def dev_append_def
      reads_def ret_def close_stream_def modifies_def fails_def p1_defs sw_defs split: if_splits)

lemma start_refused:
  assumes "ins \<in> modern_ins" "os_pin_validated env" "\<not> (20 \<le> length data \<and> prefix_ok (path_of data))"
    "handle env cap 0 ins P1_INIT p2 data m = (a, m')"
  shows "refusal a m'"
  using assms
  by (auto simp: refusal_def answered_ok_def handle_modern sign_chunk_def thn_eq bnd_def dev_reset_def close_stream_def
      modifies_def extract_hd_path_def require_def reads_def ret_def fails_def path_of_def sw_defs split: if_splits)

abbreviation stream_closed :: "machine \<Rightarrow> bool" where
  "stream_closed m \<equiv> app_stream m = StreamNone"

lemma closed_control: "control stream_closed"
  by (simp add: control_def)

text \<open>A last chunk closes the stream, and leaves a review of its chunks or nothing.\<close>

lemma last_closes:
  assumes "minv m" "cap < UNSET" "ins \<in> modern_ins" "os_pin_validated env" "app_stream m = Modern ins"
    "fst (tx_append (dev m) data)" "handle env cap 0 ins P1_LAST p2 data m = (a, m')"
  shows "stream_closed m' \<and> (app_pending m' = PendingNone \<or> (\<exists>blind. a = ReviewTx blind))"
proof -
  let ?c = "closed_with data m" and ?ty = "stream_type ins"
  let ?P = "\<lambda>x. app_stream x = StreamNone \<and> app_pending x = PendingNone"
  have "keeps ?P (tx_parse env cap ?ty n)" for n by (rule keeps_device) (simp add: control_def)
  moreover have "?P ?c" by (simp add: closed_with_def)
  ultimately have "tx_parse env cap ?ty n ?c = (r, x) \<Longrightarrow> ?P x" for n r x using keeps_run [of ?P] by blast
  then show ?thesis using assms(7) last_step [OF assms(3-6)] by (auto split: prod.splits sum.splits)
qed

lemma modern_refused:
  assumes "refusal a m'" "ins \<in> modern_ins" "os_pin_validated env" "p1 \<in> {P1_INIT, P1_ADD, P1_LAST}"
  shows "followed (Sent env 0 ins p1 p2 data a) s m'"
  using assms by (cases s) (auto simp: followed_def refusal_def no_sign_none p1_defs)

lemma modern_followed:
  assumes "minv m" "cap < UNSET" "ins \<in> modern_ins" "os_pin_validated env" "holds s m"
    and h: "handle env cap 0 ins p1 p2 data m = (a, m')"
  shows "followed (Sent env 0 ins p1 p2 data a) s m'"
proof -
  note refused = modern_refused [OF _ assms(3,4)]
  have wf: "device_wf (dev m)" using assms(1) by (simp add: minv_def)
  consider (first) "p1 = P1_INIT" | (middle) "p1 = P1_ADD" | (final) "p1 = P1_LAST" | (unknown) "p1 \<notin> {P1_INIT, P1_ADD, P1_LAST}"
    by blast
  then show ?thesis
  proof cases
    case first
    show ?thesis
    proof (cases "20 \<le> length data \<and> prefix_ok (path_of data)")
      case True
      then show ?thesis using h init_step [OF assms(3,4), of data cap p2 m] assms(3,4) first
        by (auto simp: followed_def answered_ok_def no_sign_def dev.contents_reset)
    next
      case False
      then show ?thesis using refused start_refused [OF assms(3,4) _ h [unfolded first]] first by simp
    qed
  next
    case middle
    show ?thesis
    proof (cases "app_stream m = Modern ins \<and> fst (tx_append (dev m) data)")
      case True
      then have "s = ModernOpen ins (sign_path m) (tx (dev m))" using assms(5) by (cases s) auto
      then show ?thesis using h True add_step [OF assms(3,4), of m data cap p2] tx_append_spec(3) [OF wf, of data] assms(3,4) middle
        by (auto simp: followed_def answered_ok_def no_sign_def p1_defs)
    next
      case False
      then show ?thesis using refused chunk_refused [OF assms(3,4) _ _ h] middle by simp
    qed
  next
    case final
    show ?thesis
    proof (cases "app_stream m = Modern ins \<and> fst (tx_append (dev m) data)")
      case True
      then have t: "app_stream m = Modern ins" "fst (tx_append (dev m) data)" by simp_all
      then have "s = ModernOpen ins (sign_path m) (tx (dev m))" using assms(5) by (cases s) auto
      then show ?thesis
        using last_closes [OF assms(1-4) t h [unfolded final]] last_review [OF assms(1-4) t] h assms(3,4) final no_sign_none
        by (auto simp: followed_def p1_defs)
    next
      case False
      then show ?thesis using refused chunk_refused [OF assms(3,4) _ _ h] final by simp
    qed
  next
    case unknown
    then have "m' = m \<lparr> app_pending := PendingNone \<rparr>" using h assms(3,4)
      by (simp add: handle_modern sign_chunk_def fails_def)
    then show ?thesis using unknown assms(3-5) by (simp add: followed_def no_sign_def)
  qed
qed

section \<open>Legacy transactions and hashes\<close>

lemma closed_parts:
  "keeps stream_closed (legacy_extract_hd_path b n chk)" "keeps stream_closed (legacy_check_request json)"
proof -
  show e: "keeps stream_closed (legacy_extract_hd_path b n chk)" for b n chk
    unfolding legacy_extract_hd_path_def Let_def by (intro keeps_intros keeps_modifies) simp_all
  show "keeps stream_closed (legacy_check_request json)"
    unfolding legacy_check_request_def split_beta by (intro keeps_intros keeps_device [OF closed_control] e)
qed

text \<open>A chunk that is not answered with success leaves no stream.\<close>

lemma legacy_sign_closes:
  "wp (legacy_sign env cap ins json data) (\<lambda>a x. answered_ok a \<or> stream_closed x) (\<lambda>_. stream_closed) m"
proof -
  have o: "wp (legacy_open ins json data) (\<lambda>_ _. True) (\<lambda>_. stream_closed) m"
    by (auto simp: legacy_open_def legacy_first_chunk_def wp_simps)
  have a: "wp (legacy_append d) (\<lambda>_ _. True) (\<lambda>_. stream_closed) x" for d x
    by (simp add: legacy_append_def wp_simps)
  have k: "keeps stream_closed (legacy_complete env cap json)"
    unfolding legacy_complete_def Let_def
    by (intro keeps_intros keeps_modifies closed_parts keeps_review closed_control keeps_error) simp_all
  show ?thesis unfolding legacy_sign_def wp_bnd [of "legacy_open _ _ _"]
  proof (rule wp_mono [OF o])
    show "wp (thn (legacy_append (drop off data)) (bnd (reads legacy_check_end_of_chunk) (\<lambda>ended.
        if \<not> (LEGACY_HEADER_LENGTH + length data < LEGACY_FULL_CHUNK_SIZE \<or> ended) then ret (Reply (reply_only SW_OK))
        else thn close_stream (legacy_complete env cap json))))
      (\<lambda>a x. answered_ok a \<or> stream_closed x) (\<lambda>_. stream_closed) x" for off x
      unfolding wp_thn [of "legacy_append _"] wp_bnd [of "reads _"] wp_reads wp_if wp_ret wp_thn [of close_stream] wp_close_stream
      by (intro wp_mono [OF a] ifI wp_mono [OF keepsD [OF k]]) (simp_all add: answered_ok_def)
  qed
qed

lemma legacy_sign_foreign:
  assumes "app_stream m \<notin> {StreamNone, Legacy ins}"
  shows "legacy_sign env cap ins json data m = (Inl TX_NOT_INITIALIZED, m \<lparr> app_stream := StreamNone \<rparr>)"
  using assms by (auto simp: legacy_sign_def legacy_open_def legacy_first_chunk_def bnd_def reads_def close_stream_def
      modifies_def fails_def)

lemma outcome_no_sign: "outcome env cap a m \<Longrightarrow> (\<And>blind. a \<noteq> ReviewTx blind) \<Longrightarrow> no_sign m"
  by (cases a) (auto simp: outcome_def no_sign_def address_pending_def)

lemma answered_okD: "answered_ok a \<Longrightarrow> \<exists>r. a = Reply r \<and> reply_sw r = SW_OK"
  by (simp add: answered_ok_def reply_only_def)

lemma legacy_closed_spelled:
  assumes "legacy_closed (legacy_type ins) b n m'"
    "b = (case s of LegacyOpen _ _ c \<Rightarrow> c @ data | _ \<Rightarrow> stream_part ins data)" "n = (case s of LegacyOpen _ k _ \<Rightarrow> k | _ \<Rightarrow> announced ins data)"
  shows "\<exists>kind. app_pending m' = PendingSign kind \<and> spelled kind s ins par data (sign_path m') (body_of kind (tx (dev m')))"
proof -
  obtain msg qty pb where b: "b = msg @ byte_of qty # pb" "length msg = n" "2 \<le> qty" "qty \<le> 5" "length pb = 4 * qty"
    "sign_path m' = legacy_path qty pb" "tx (dev m') = b" "app_pending m' = PendingSign (SignLegacy (legacy_type ins) n)"
    using assms(1) by (auto simp: legacy_closed_def)
  then show ?thesis using assms(2,3) by (intro exI [of _ "SignLegacy (legacy_type ins) n"]) auto
qed

lemma legacy_sign_followed:
  assumes "minv m" "cap < UNSET" "ins \<in> legacy_sign_ins" "os_pin_validated env" "holds s m"
    and h: "handle env cap 0 ins p1 p2 data m = (a, m')"
  shows "followed (Sent env 0 ins p1 p2 data a) s m'"
proof -
  let ?m = "m \<lparr> app_pending := PendingNone \<rparr>"
  note ins = assms(3) [unfolded legacy_sign_ins_def]
  note ans = legacy_answer [OF assms(1,2) ins assms(4) h]
  have wf: "device_wf (dev m)" using assms(1) by (simp add: minv_def)
  have out: "outcome env cap a m'" by (rule handle_outcome [OF assms(1,2) h])
  obtain r where r: "legacy_sign env cap ins (ins = INS_LEGACY_SIGN_JSON) data ?m = (r, m')"
    "a = (case r of Inr a \<Rightarrow> a | Inl code \<Rightarrow> Reply (reply_only code))"
    using h unfolding handle_legacy [OF ins assms(4)] by (auto simp: Let_def split: prod.splits)
  have closes: "answered_ok a \<or> stream_closed m'"
    using legacy_sign_closes [of env cap ins "ins = INS_LEGACY_SIGN_JSON" data ?m] r by (auto simp: wp_def split: sum.splits)
  let ?n = "case s of LegacyOpen _ k _ \<Rightarrow> k | _ \<Rightarrow> announced ins data"
  let ?b = "case s of LegacyOpen _ _ c \<Rightarrow> c @ data | _ \<Rightarrow> stream_part ins data"
  have "(answered_ok a \<longrightarrow> holds (LegacyOpen ins ?n ?b) m' \<and> follow (Sent env 0 ins p1 p2 data a) s = LegacyOpen ins ?n ?b) \<and>
    (\<forall>blind. a = ReviewTx blind \<longrightarrow> legacy_closed (legacy_type ins) ?b ?n m')"
  proof -
    consider (same) "app_stream m = Legacy ins" | (none) "app_stream m = StreamNone" | (foreign) "app_stream m \<notin> {StreamNone, Legacy ins}"
      by blast
    then show ?thesis
    proof cases
      case same
      then obtain n where s: "s = LegacyOpen ins n (tx (dev m))" "payload_length m = n"
        using assms(5) ins by (cases s) (auto simp: ins_defs)
      then show ?thesis using ans(1) [OF _ same] answered_okD tx_append_spec(3) [OF wf, of data] assms(3,4) ins_classes same
        by (auto simp: chunk_answer_def)
    next
      case none
      then have s: "s = NoStream" using assms(5) by (cases s) auto
      have wf0: "device_wf (tx_reset (dev m))" "tx (tx_reset (dev m)) = []" using wf by (simp_all add: dev.invar_reset dev.contents_reset)
      then show ?thesis using s ans(2) [OF _ none] answered_okD tx_append_spec(3) [OF wf0(1), of "stream_part ins data"] assms(3,4) ins_classes
        by (auto simp: chunk_answer_def opened_def)
    next
      case foreign
      then have "a = Reply (reply_only TX_NOT_INITIALIZED)"
        using r legacy_sign_foreign [of ?m ins env cap "ins = INS_LEGACY_SIGN_JSON" data] by auto
      then show ?thesis by (simp add: answered_ok_def error_codes)
    qed
  qed
  moreover have "follow (Sent env 0 ins p1 p2 data a) s = NoStream" if "\<not> answered_ok a"
    using that assms(3,4) ins_classes by simp
  ultimately show ?thesis
    using closes outcome_no_sign [OF out] legacy_closed_spelled [where ins = ins and s = s and data = data and par = p1, OF _ refl refl]
    by (cases "answered_ok a") (auto simp: followed_def answered_ok_def simp del: follow.simps)
qed

section \<open>Legacy transfers\<close>

lemma transfer_foreign:
  assumes "app_stream m \<notin> {StreamNone, Legacy INS_LEGACY_TRANSFER}"
  shows "legacy_transfer_chunk b m = (Inl TX_NOT_INITIALIZED, m \<lparr> app_stream := StreamNone \<rparr>)"
  using assms by (auto simp: legacy_transfer_chunk_def legacy_first_chunk_def bnd_def reads_def close_stream_def modifies_def fails_def)

text \<open>The text after a chunk.\<close>

lemma transfer_chunk_text:
  assumes "legacy_transfer_chunk (raw_apdu INS_LEGACY_TRANSFER p1 p2 d) m = (Inr whole, m')" "minv m" "holds s m"
  shows "\<exists>body. chunk_read body (sign_path m') whole m' \<and>
    transfer_text (case s of TransferOpen t \<Rightarrow> t @ chunk_part d | _ \<Rightarrow> chunk_part d) (sign_path m') body"
proof -
  consider (later) "app_stream m = Legacy INS_LEGACY_TRANSFER" | (first) "app_stream m = StreamNone"
    using transfer_foreign [of m "raw_apdu INS_LEGACY_TRANSFER p1 p2 d"] assms(1) by fastforce
  then show ?thesis
  proof cases
    case later
    then obtain t where s: "s = TransferOpen t" using assms(3) ins_classes(5) by (cases s) auto
    then have t: "transfer_text t (sign_path m) (tx (dev m) @ saved m)" using assms(3) by simp
    have "waiting (tx (dev m) @ saved m) (sign_path m) m" using later assms(2) by (simp add: waiting_def)
    from later_chunk_read [OF assms(1) this]
    have "chunk_read (tx (dev m) @ saved m @ chunk_part d) (sign_path m) whole m'" by simp
    moreover from this have "sign_path m' = sign_path m" by (simp add: chunk_read_def)
    ultimately show ?thesis using t s by (fastforce simp: transfer_text_def)
  next
    case first
    then have "s = NoStream" using assms(3) by (cases s) auto
    moreover obtain qty pb body where "chunk_part d = byte_of qty # pb @ body" "2 \<le> qty" "qty \<le> 5" "length pb = 4 * qty"
      "chunk_read body (legacy_path qty pb) whole m'" using first_chunk_read [OF assms(1,2) first] by blast
    moreover from this(5) have "sign_path m' = legacy_path qty pb" by (simp add: chunk_read_def)
    ultimately show ?thesis by (auto simp: transfer_text_def)
  qed
qed

text \<open>A chunk that is not answered with success leaves no stream.\<close>

lemma transfer_closes:
  assumes "minv m" "holds s m" "legacy_transfer env cap INS_LEGACY_TRANSFER p1 p2 d m = (r, m')"
  shows "r = Inr (Reply (reply_only SW_OK)) \<or> stream_closed m'"
proof -
  obtain c m1 where c: "legacy_transfer_chunk (raw_apdu INS_LEGACY_TRANSFER p1 p2 d) m = (c, m1)" by fastforce
  have k: "keeps stream_closed (review_parsed env cap TxTransfer n SignLegacyTransfer transfer_error)" for n
    by (intro keeps_review closed_control keeps_error) simp
  have "stream_closed m1" if "c = Inr True"
    using transfer_chunk_text [OF c [unfolded that] assms(1,2)] by (auto simp: chunk_read_def)
  then show ?thesis using assms(3) c keeps_run [OF k, of m1]
    by (auto simp: legacy_transfer_def split: sum.splits bool.splits)
qed

lemma transfer_followed:
  assumes "minv m" "cap < UNSET" "os_pin_validated env" "holds s m"
    and h: "handle env cap 0 INS_LEGACY_TRANSFER p1 p2 d m = (a, m')"
  shows "followed (Sent env 0 INS_LEGACY_TRANSFER p1 p2 d a) s m'"
proof -
  let ?m = "m \<lparr> app_pending := PendingNone \<rparr>" and ?t = "case s of TransferOpen t \<Rightarrow> t @ chunk_part d | _ \<Rightarrow> chunk_part d"
  note ans = transfer_answer [OF assms(1-3) h]
  have i: "minv ?m" "holds s ?m" using idle_drop [OF assms(1)] assms(4) by (simp_all add: idle_def)
  have out: "outcome env cap a m'" by (rule handle_outcome [OF assms(1,2) h])
  obtain r where r: "legacy_transfer env cap INS_LEGACY_TRANSFER p1 p2 d ?m = (r, m')"
    "a = (case r of Inr a \<Rightarrow> a | Inl code \<Rightarrow> Reply (reply_only code))"
    using h unfolding handle_transfer [OF assms(3)] by (auto simp: Let_def split: prod.splits)
  have f: "follow (Sent env 0 INS_LEGACY_TRANSFER p1 p2 d a) s = (if answered_ok a then TransferOpen ?t else NoStream)"
    using assms(3) ins_classes by (cases s) simp_all
  show ?thesis
  proof (cases "answered_ok a")
    case True
    then obtain m1 where "legacy_transfer_chunk (raw_apdu INS_LEGACY_TRANSFER p1 p2 d) ?m = (Inr False, m1)" "m' = m1"
      using ans answered_okD [OF True] by (auto simp: answered_ok_def split: if_splits)
    from transfer_chunk_text [OF this(1) i] this(2) have "holds (TransferOpen ?t) m'" by (auto simp: chunk_read_def)
    then show ?thesis using True f outcome_no_sign [OF out] by (auto simp: followed_def answered_ok_def simp del: follow.simps)
  next
    case False
    then have closed: "stream_closed m'" using transfer_closes [OF i r(1)] r(2) by (auto simp: answered_ok_def)
    have "app_pending m' = PendingSign SignLegacyTransfer \<and> spelled SignLegacyTransfer s INS_LEGACY_TRANSFER p1 d (sign_path m') (tx (dev m'))"
      if rv: "a = ReviewTx blind" for blind
    proof -
      obtain m1 where m1: "legacy_transfer_chunk (raw_apdu INS_LEGACY_TRANSFER p1 p2 d) ?m = (Inr True, m1)"
        "tx (dev m') = tx (dev m1)" "sign_path m' = sign_path m1" "app_pending m' = PendingSign SignLegacyTransfer"
        using ans rv by (auto split: if_splits)
      from transfer_chunk_text [OF m1(1) i] m1(2-4) show ?thesis by (auto simp: chunk_read_def)
    qed
    then show ?thesis using False f closed outcome_no_sign [OF out] by (fastforce simp: followed_def simp del: follow.simps spelled.simps)
  qed
qed

section \<open>Every reachable machine\<close>

lemma command_followed:
  assumes "minv m" "cap < UNSET" "holds s m" "handle env cap cla ins p1 p2 data m = (a, m')"
  shows "followed (Sent env cla ins p1 p2 data a) s m'"
proof -
  consider (inert) "cla \<noteq> 0 \<or> \<not> os_pin_validated env \<or> ins \<notin> set dispatched \<or> ins = INS_LEGACY_GET_VERSION"
    | (modern) "cla = 0" "os_pin_validated env" "ins \<in> modern_ins" | (address) "cla = 0" "os_pin_validated env" "ins = INS_GET_ADDR"
    | (legacy_address) "cla = 0" "os_pin_validated env" "ins \<in> {INS_LEGACY_VERIFY_ADDRESS, INS_LEGACY_GET_PUBKEY}"
    | (legacy_sign) "cla = 0" "os_pin_validated env" "ins \<in> legacy_sign_ins"
    | (legacy_transfer) "cla = 0" "os_pin_validated env" "ins = INS_LEGACY_TRANSFER"
    by (auto simp: dispatched_def modern_ins_def legacy_sign_ins_def)
  then show ?thesis
  proof cases
    case inert then show ?thesis by (rule inert_followed [OF assms(3,4)])
  next
    case modern then show ?thesis using modern_followed assms by blast
  next
    case address then show ?thesis using get_addr_followed assms by blast
  next
    case legacy_address then show ?thesis using legacy_get_addr_followed assms by blast
  next
    case legacy_sign then show ?thesis using legacy_sign_followed assms by blast
  next
    case legacy_transfer then show ?thesis using transfer_followed assms by blast
  qed
qed

text \<open>The command a pending signature comes from: the newest one.\<close>

definition from_log :: "sent list \<Rightarrow> machine \<Rightarrow> bool" where
  "from_log es m \<longleftrightarrow> (\<forall>kind. app_pending m = PendingSign kind \<longrightarrow>
     (\<exists>env ins p1 p2 data blind es'. es = Sent env 0 ins p1 p2 data (ReviewTx blind) # es' \<and>
        spelled kind (open_stream es') ins p1 data (sign_path m) (body_of kind (tx (dev m)))))"

lemma logged_follows:
  assumes "cap < UNSET" "logged E cap es m"
  shows "holds (open_stream es) m \<and> from_log es m"
  using assms(2)
proof induction
  case log_start
  show ?case by (simp add: from_log_def machine_new_def app_new_def app.defs)
next
  case (log_command es m env cla ins p1 p2 data a m')
  have "minv m" using reachable_invariant [OF assms(1) logged_reachable [OF log_command(1)]] by simp
  from command_followed [OF this assms(1) _ log_command(3)] log_command(4)
  have "followed (Sent env cla ins p1 p2 data a) (open_stream es) m'" by blast
  then show ?case by (auto simp: followed_def from_log_def no_sign_def simp del: follow.simps)
next
  case (log_address es m approved r m')
  then show ?case by (auto simp: address_done_def from_log_def)
next
  case (log_sign es m env approved r m')
  then show ?case by (auto simp: sign_done_def from_log_def)
qed

end
