(* ===== verification/Log_Claims.thy ===== *)
theory Log_Claims
  imports Stream_Log Transfer_Claims
begin

text \<open>
  The properties over whole histories: what is collected and what is signed is what the host's log says,
  whatever commands come in between.
\<close>

section \<open>Streams\<close>

text \<open>C15: The machine follows the log. After any history of commands, in any order and with any data, of reviews and
  of decisions, the open stream is the one that the commands and their answers say: which family and
  instruction, the signing path and the collected bytes of a modern stream, the announced length and
  the bytes of a legacy transaction or hash, the path and the body that the chunks of a legacy transfer
  spell. The commands in between that are no chunks change none of it.\<close>

theorem streams_follow_the_log:
  assumes "cap < UNSET" "logged E cap es m"
  shows "case open_stream es of
      NoStream \<Rightarrow> app_stream m = StreamNone
    | ModernOpen i p b \<Rightarrow> app_stream m = Modern i \<and> sign_path m = p \<and> tx (dev m) = b
    | LegacyOpen i n b \<Rightarrow> app_stream m = Legacy i \<and> payload_length m = n \<and> tx (dev m) = b
    | TransferOpen t \<Rightarrow> app_stream m = Legacy INS_LEGACY_TRANSFER \<and> transfer_text t (sign_path m) (tx (dev m) @ saved m)"
  using logged_follows [OF assms] by (cases "open_stream es") auto

lemma env_session:
  "\<exists>m2. logged {clear_env} 100 [Sent clear_env 0 INS_SIGN P1_ADD 0 (take 250 doc_text) (Reply (reply_only SW_OK)),
     Sent clear_env 0 INS_SIGN P1_INIT 0 sample_path (Reply (reply_only SW_OK))] m2"
proof -
  have "20 \<le> length sample_path" by (simp add: sample_path_ok)
  from doc_session [OF minv_new env_pins(2) this sample_path_ok(2) env_hash(2) env_keys(2), of 0] obtain m1 m2 where
    "handle clear_env 100 0 INS_SIGN P1_INIT 0 sample_path machine_new = (Reply (reply_only SW_OK), m1)"
    "handle clear_env 100 0 INS_SIGN P1_ADD 0 (take 250 doc_text) m1 = (Reply (reply_only SW_OK), m2)" by blast
  then show ?thesis by (blast intro: logged.intros)
qed

text \<open>A public key is asked for in the middle of a document, which stays open.\<close>

theorem streams_follow_the_log_witness:
  "\<exists>a m :: machine. logged {clear_env} 100 [Sent clear_env 0 INS_LEGACY_GET_PUBKEY 0 0 [] a,
       Sent clear_env 0 INS_SIGN P1_ADD 0 (take 250 doc_text) (Reply (reply_only SW_OK)),
       Sent clear_env 0 INS_SIGN P1_INIT 0 sample_path (Reply (reply_only SW_OK))] m \<and>
     app_stream m = Modern INS_SIGN \<and> sign_path m = path_of sample_path \<and> tx (dev m) = take 250 doc_text"
proof -
  obtain m2 where m2: "logged {clear_env} 100 [Sent clear_env 0 INS_SIGN P1_ADD 0 (take 250 doc_text) (Reply (reply_only SW_OK)),
     Sent clear_env 0 INS_SIGN P1_INIT 0 sample_path (Reply (reply_only SW_OK))] m2" using env_session by blast
  obtain a m3 where h: "handle clear_env 100 0 INS_LEGACY_GET_PUBKEY 0 0 [] m2 = (a, m3)" by fastforce
  have l: "logged {clear_env} 100 [Sent clear_env 0 INS_LEGACY_GET_PUBKEY 0 0 [] a,
       Sent clear_env 0 INS_SIGN P1_ADD 0 (take 250 doc_text) (Reply (reply_only SW_OK)),
       Sent clear_env 0 INS_SIGN P1_INIT 0 sample_path (Reply (reply_only SW_OK))] m3"
    by (rule log_command [OF m2 _ h]) simp
  have "(100::nat) < UNSET" by (simp add: UNSET_def)
  from streams_follow_the_log [OF this l]
  have "app_stream m3 = Modern INS_SIGN \<and> sign_path m3 = path_of sample_path \<and> tx (dev m3) = take 250 doc_text"
    by (simp add: modern_ins_def legacy_sign_ins_def ins_defs p1_defs env_pins answered_ok_def)
  then show ?thesis using l by blast
qed

section \<open>Signatures\<close>

text \<open>C3: A signature is of what the log says. Whatever history of commands, settings, reviews and decisions led to
  it, when a signature is returned the user has approved, the newest command completed the stream that
  was open in the log, and the signature is made with the key of the path, over the digest of the body,
  that the chunks of this stream spell: the transaction, the 32 bytes of a hash, or the template built
  from the body of a structured transfer.\<close>

theorem signature_is_of_the_log:
  assumes "cap < UNSET" "logged E cap es m" "same_device E" "env \<in> E"
    and "sign_done env approved m = (r, m')" "reply_sw r = SW_OK"
  shows "approved \<and> (\<exists>kind env' ins p1 p2 data blind es' p body msg h sig extra.
    es = Sent env' 0 ins p1 p2 data (ReviewTx blind) # es' \<and> spelled kind (open_stream es') ins p1 data p body \<and>
    (if kind_type kind = TxTransfer then transfer_build body (public_key env p) = Inr msg else msg = body) \<and>
    signed_digest env (kind_type kind) msg = Some h \<and> dev_sign env p h = Some sig \<and> payload r = w_puts REPLY_MAX (sig # extra))"
proof -
  obtain kind sig extra h where k: "approved" "app_pending m = PendingSign kind"
    "signed_digest env (kind_type kind) (kind_bytes kind (dev m)) = Some h" "dev_sign env (sign_path m) h = Some sig"
    "payload r = w_puts REPLY_MAX (sig # extra)" using sign_done_ok [OF assms(5,6)] by blast
  have re: "reachable E cap m" by (rule logged_reachable [OF assms(2)])
  obtain env' ins p1 p2 data blind es' where l: "es = Sent env' 0 ins p1 p2 data (ReviewTx blind) # es'"
    "spelled kind (open_stream es') ins p1 data (sign_path m) (body_of kind (tx (dev m)))"
    using logged_follows [OF assms(1,2)] k(2) unfolding from_log_def by blast
  have "kind_ok kind" using reachable_sign [OF assms(1) re k(2)] by blast
  then have "if kind_type kind = TxTransfer then transfer_build (body_of kind (tx (dev m))) (public_key env (sign_path m)) = Inr (kind_bytes kind (dev m))
      else kind_bytes kind (dev m) = body_of kind (tx (dev m))"
    using pending_template [OF assms(1,3) re assms(4) k(2)] by (cases kind) auto
  then show ?thesis using k l by blast
qed

text \<open>A hash, sent, reviewed and approved.\<close>

theorem signature_is_of_the_log_witness:
  "\<exists>m r m' sig extra. logged {sample_env} 100 [Sent sample_env 0 INS_SIGN_HASH P1_LAST 0 (replicate 32 NUL) (ReviewTx True),
       Sent sample_env 0 INS_SIGN_HASH P1_INIT 0 sample_path (Reply (reply_only SW_OK))] m \<and>
     sign_done sample_env True m = (r, m') \<and>
     dev_sign sample_env (path_of sample_path) (replicate 32 NUL) = Some sig \<and> payload r = w_puts REPLY_MAX (sig # extra)"
proof -
  have c: "(100::nat) < UNSET" "20 \<le> length sample_path" "length (replicate 32 NUL) = HASH_LEN"
    "length (replicate 32 NUL @ replicate 32 NUL) \<le> REPLY_MAX" "reply_sw \<lparr> payload = x, reply_sw = SW_OK \<rparr> = SW_OK" for x
    by (simp_all add: UNSET_def sample_path_ok HASH_LEN_def REPLY_MAX_def)
  obtain m1 m2 m3 where m:
    "handle sample_env 100 0 INS_SIGN_HASH P1_INIT 0 sample_path machine_new = (Reply (reply_only SW_OK), m1)"
    "handle sample_env 100 0 INS_SIGN_HASH P1_LAST 0 (replicate 32 NUL) m1 = (ReviewTx True, m2)"
    "app_pending m2 = PendingSign (SignModern TxHash)"
    "sign_done sample_env True m2 = (\<lparr> payload = replicate 32 NUL @ replicate 32 NUL, reply_sw = SW_OK \<rparr>, m3)"
    using hash_session [OF minv_new c(1) env_pins(1) env_settings(1) c(2) sample_path_ok(2) env_keys(1) c(3) env_sign(1) c(4), of 0]
    by blast
  have l: "logged {sample_env} 100 [Sent sample_env 0 INS_SIGN_HASH P1_LAST 0 (replicate 32 NUL) (ReviewTx True),
       Sent sample_env 0 INS_SIGN_HASH P1_INIT 0 sample_path (Reply (reply_only SW_OK))] m2"
    using m(1,2) by (blast intro: logged.intros)
  let ?es = "[Sent sample_env 0 INS_SIGN_HASH P1_INIT 0 sample_path (Reply (reply_only SW_OK))]"
  have o: "open_stream ?es = ModernOpen INS_SIGN_HASH (path_of sample_path) []"
    by (simp add: env_pins modern_ins_def answered_ok_def)
  have "same_device {sample_env}" by (simp add: same_device_def)
  from signature_is_of_the_log [OF c(1) l this singletonI m(4) c(5)] obtain kind p body msg h sig extra where k:
    "spelled kind (open_stream ?es) INS_SIGN_HASH P1_LAST (replicate 32 NUL) p body"
    "if kind_type kind = TxTransfer then transfer_build body (public_key sample_env p) = Inr msg else msg = body"
    "signed_digest sample_env (kind_type kind) msg = Some h" "dev_sign sample_env p h = Some sig"
    "payload \<lparr> payload = replicate 32 NUL @ replicate 32 NUL, reply_sw = SW_OK \<rparr> = w_puts REPLY_MAX (sig # extra)"
    by blast
  note spell = k(1) [unfolded o]
  have "kind = SignModern TxHash \<and> p = path_of sample_path \<and> body = replicate 32 NUL"
  proof (cases kind)
    case (SignLegacy ty n)
    have "stream_part INS_SIGN_HASH (replicate 32 NUL) = replicate 32 NUL" "announced INS_SIGN_HASH (replicate 32 NUL) = 32"
      by (simp_all add: stream_part_def announced_def ins_defs HASH_LEN_def)
    then obtain q pb where b: "body @ byte_of q # pb = replicate 32 NUL" "length body = 32"
      using spell by (auto simp: SignLegacy)
    show ?thesis using arg_cong [OF b(1), of length] b(2) by simp
  qed (use spell in \<open>auto simp: stream_type_def ins_defs\<close>)
  then have "dev_sign sample_env (path_of sample_path) (replicate 32 NUL) = Some sig"
    using k(2-4) by (simp add: signed_digest_def)
  then show ?thesis using l m(4) k(5) by blast
qed

end
