(* ===== verification/Spec2Isabelle.thy ===== *)
theory Spec2Isabelle
  imports Review_Claims Value_Claims Legacy_Claims Log_Claims
begin

text \<open>
  A verification of the Kadena app for Ledger devices: the protocol crate \<open>kadena-core\<close> and the
  device crate over it. The host sends APDU commands; a signing command streams a JSON transaction, a
  hash or the fields of a structured transfer, the app parses it, builds a review, shows every item and
  signs after the user has accepted it.

  \<^bold>\<open>Parts and theories.\<close> Sources are under \<open>src/\<close>, those of the protocol crate under
  \<open>src/kadena-core/src/\<close>.

  \<^item> \<open>Kadena_Prelude\<close>: bytes, the error monad on sums (\<open>rbind\<close>, \<open>map_err\<close>) and programs over a state that
    keep the state on an error (\<open>bnd\<close>, \<open>thn\<close>, with the rules \<open>wp_simps\<close>).
  \<^item> \<open>Errors\<close> (\<open>sw.rs\<close>, \<open>error.rs\<close>), \<open>Display\<close> (\<open>display.rs\<close>), \<open>Principal\<close> (\<open>principal.rs\<close>), \<open>Fee\<close>
    (\<open>fee.rs\<close>): status words, screen text, the principal grammar, the exact maximum fee.
  \<^item> \<open>Memory\<close>, \<open>Buffering\<close> (\<open>buffering.rs\<close>), \<open>Device\<close> (\<open>platform.rs\<close>, \<open>settings.rs\<close>, \<open>storage.rs\<close>): the
    RAM and flash buffers as memories, the two-level transaction buffer, the platform over the OS. The
    contracts are the locales \<open>append_buffer\<close> and \<open>tx_platform\<close>, interpreted on the buffer and the device.
  \<^item> \<open>Jsmn\<close>, \<open>Jsmn_Props\<close> (\<open>jsmn.rs\<close>) and \<open>Json\<close> (\<open>json.rs\<close>): the tokenizer, lenient and strict, and the
    lookups over its tokens; token bounds are truncated to 16 bits as in the code.
    \<open>Json_Strings\<close>: the string tokens of a document that was read are JSON strings, which the screen text determines.
  \<^item> \<open>Json_Tree\<close>, \<open>Json_Nodes\<close>, \<open>Tree_Documents\<close>: JSON values as trees (\<open>jval\<close>) and their compact text: the tokens
    of a printed tree, the nodes of a document and the lookups between them, the reading of such a text.
  \<^item> \<open>Structured_Transfer\<close> (\<open>transfer.rs\<close>): the field reader, the content checks, the template.
    \<open>Transfer_Tree\<close>, \<open>Transfer_Review\<close>, \<open>Transfer_Session\<close>: the template as a tree, its review for all accepted
    fields, and the session that leads to it.
  \<^item> \<open>Review_Checks\<close>, \<open>Checks_Props\<close>, \<open>Items\<close>, \<open>Items_Spec\<close>, \<open>Items_Props\<close>, \<open>Render\<close> (\<open>items.rs\<close>): the checks of
    the document, the item array that the code fills slot by slot, its specification as a list of
    entries (\<open>tx_review\<close>) with the refinement between the two, and the titles and values of items.
    \<open>Items_Shown\<close>: what the item array says of each capability, in blocks of items (\<open>cap_block\<close>).
  \<^item> \<open>Parser\<close>, \<open>Parser_Props\<close> (\<open>parser.rs\<close>): reading a document, storing its items, the hash, validation.
  \<^item> \<open>App\<close>, \<open>App_Parse\<close>, \<open>App_Props\<close> (\<open>app.rs\<close>): the command state machine. \<open>machine\<close> has the fields of
    \<open>App\<close> and the device; \<open>handle\<close> is one command, \<open>sign_done\<close> and \<open>address_done\<close> what follows a decision.
  \<^item> \<open>Protocol\<close>, \<open>Pending_Review\<close>, \<open>Sessions\<close>: the reachable states as an inductive predicate over commands and
    decisions, with an environment that may change between steps; what is known of a pending review;
    whole command streams. \<open>Legacy_Sessions\<close>, \<open>Legacy_Transfers\<close>: the streams of the legacy family.
  \<^item> \<open>Stream_Log\<close>: histories. \<open>logged\<close> is \<open>reachable\<close> with the log of the commands and their answers,
    \<open>open_stream\<close> a reference that computes the open stream of either family from that log alone, \<open>holds\<close> the
    simulation relation between the two, kept by every command (\<open>command_followed\<close>).
  \<^item> \<open>Screens\<close>, \<open>Screen_Props\<close> (\<open>ui.rs\<close>, \<open>main.rs\<close>): paging, titles, batches, the review loop, the turns of
    the main loop.
  \<^item> \<open>Examples\<close>, \<open>Doc_Review\<close>: a concrete document, a structured transfer and their evaluation, used by the
    witnesses. \<open>Value_Claims\<close>, \<open>Review_Claims\<close>, \<open>Screen_Claims\<close>,
    \<open>Transfer_Claims\<close>, \<open>Legacy_Claims\<close>, \<open>Log_Claims\<close> and this theory state the properties.

  \<^bold>\<open>How the code is rendered.\<close> A Rust \<open>Result\<close> is a sum with the error on the left; a method with
  \<open>&mut self\<close> maps a state to a result and a state, and what it wrote before an error stays written. Bytes are
  HOL characters. \<open>usize\<close> positions are naturals (the invariants show that no subtraction of the code
  underflows); narrower casts are written out (\<open>u8\<close>, the 16-bit truncations of the tokenizer and the
  lookups, 32-bit words for path components and lengths). Loops are structural or have a termination proof:
  every definition is total, and no fuel is used. The panics of slicing are excluded by the
  well-formedness lemmas; the range assertion of the flash buffer is a value (\<open>flash_buf_write\<close>), and no append trips it.

  \<^bold>\<open>Parameters.\<close> \<open>os_env\<close> holds what the operating system answers: PIN state, settings, versions, key
  derivation, signature and hash. \<open>same_device\<close> says that two environments of one run derive the same keys
  and compute the same hashes and signatures. The capacity of the token array (\<open>MAX_TOKENS\<close>, which depends
  on the device) is the argument \<open>cap\<close>, assumed below \<open>UNSET\<close>, the 16-bit marker of an open token; both
  values of the code are (\<open>max_tokens_enough\<close>). \<open>font\<close> is
  the text measurement of the NBGL library and \<open>user\<close> the answers of the user.

  \<^bold>\<open>What is shown.\<close> The properties here and in \<open>Screen_Claims\<close> span components: a signature is over what was
  reviewed, seen and accepted; every item is shown whole; with blind signing off the one signer entry
  of the device is scoped to verified capabilities; address replies are the key that was shown; streams
  are signed as sent; sessions succeed; the main loop keeps the invariant. \<open>Review_Claims\<close>: the
  tokenizer and the lookups are sound, the stored items refine the specified review and contain every
  capability. \<open>Transfer_Claims\<close>: printed trees are read back, lookups are lookups in the tree, and a structured
  transfer of coins is shown field by field and signed (57 tokens are enough for any of its templates); a
  body that is no transfer is refused with the reason of the first failing check. \<open>Log_Claims\<close>: over any
  history the machine holds the stream of the log, and a signature is of the body that stream spells.
  \<open>Legacy_Claims\<close>: legacy streams and transfers are what their chunks spell. \<open>Value_Claims\<close>: fees,
  principals, transfer templates, buffers and screen text.
  Each theorem with a hypothesis is followed by a witness on a concrete input.

  \<^bold>\<open>Not modelled.\<close> Drawing, the texts of the home page and the flow of NBGL pages within one step: calls of
  the SDK's UI library, whose answers are the parameters \<open>font\<close> and \<open>user\<close>. The transport of APDUs and the OS
  itself (\<open>nvm_write\<close> is modelled by its effect). The pointers behind the static cells of \<open>main.rs\<close> and
  \<open>storage.rs\<close>: the model has the one state they point to. \<open>fmt::Debug\<close> of replies, the heap-probe build, and
  tests, fuzzing, tools and documents. What is left of the crates' own code is imports, type wrappers and unit
  tests. Non-ASCII screen text does not arise, as values are escaped first.
\<close>

section \<open>Signatures and reviews\<close>

text \<open>C2: The device signs only what was reviewed. If the decision on a review, in any state that
  commands and decisions can lead to, is answered with a signature, then the user approved it, the
  path is one of the accepted prefix, all of the message that is signed was parsed and its items are
  the review of the device's own signer entry, the hash shown is that of the signed message, and a
  review with a blind-signing warning (or of a bare hash) was only possible with the setting on.\<close>

theorem signature_only_of_reviewed:
  assumes "cap < UNSET" "same_device E" "reachable E cap m" "env \<in> E"
    and "sign_done env approved m = (r, m')" "reply_sw r = SW_OK"
  shows "approved \<and> prefix_ok (sign_path m) \<and>
    (\<exists>kind es rev h sig extra. app_pending m = PendingSign kind \<and> rev \<in> E \<and>
       reviewed rev cap (kind_type kind) (kind_bytes kind (dev m)) (sign_path m) (app_parsed m) es \<and>
       (kind_type kind = TxHash \<or> list_ex blind_entry es \<longrightarrow> dev_blind_signing rev) \<and>
       signed_digest env (kind_type kind) (kind_bytes kind (dev m)) = Some h \<and>
       b64 (app_parsed m) = map url_safe (base64_32 h) \<and>
       dev_sign env (sign_path m) h = Some sig \<and> payload r = w_puts REPLY_MAX (sig # extra))"
proof -
  obtain kind sig extra h where s: "approved" "app_pending m = PendingSign kind"
    "signed_digest env (kind_type kind) (kind_bytes kind (dev m)) = Some h"
    "dev_sign env (sign_path m) h = Some sig" "payload r = w_puts REPLY_MAX (sig # extra)"
    using sign_done_ok [OF assms(5,6)] by blast
  obtain rev es where p: "rev \<in> E" "prefix_ok (sign_path m)"
    "reviewed rev cap (kind_type kind) (kind_bytes kind (dev m)) (sign_path m) (app_parsed m) es"
    "kind_type kind = TxHash \<or> list_ex blind_entry es \<longrightarrow> dev_blind_signing rev"
    using reachable_sign [OF assms(1,3) s(2)] by blast
  have "b64 (app_parsed m) = map url_safe (base64_32 h)"
    using reviewed_digest [OF p(3)] s(3) same_device_digest [OF assms(2,4) p(1)] by auto
  then show ?thesis using s p by blast
qed

theorem signature_only_of_reviewed_witness:
  "\<exists>m r m'. sign_done sample_env True m = (r, m') \<and> reply_sw r = SW_OK \<and>
     (\<exists>es. reviewed sample_env 100 TxHash (replicate 32 NUL) (path_of sample_path) (app_parsed m) es)"
proof -
  let ?h = "replicate 32 NUL"
  obtain m where m: "reachable {sample_env} 100 m" "app_pending m = PendingSign (SignModern TxHash)"
    "tx (dev m) = ?h" "sign_path m = path_of sample_path"
    using hash_pending [of ?h] by (auto simp: HASH_LEN_def)
  have d: "sign_done sample_env True m = (\<lparr> payload = ?h @ ?h, reply_sw = SW_OK \<rparr>, m \<lparr> app_pending := PendingNone \<rparr>)"
    by (rule hash_signed [OF m(2)]) (use m env_sign in \<open>simp_all add: HASH_LEN_def REPLY_MAX_def\<close>)
  have "(100::nat) < UNSET" by (simp add: UNSET_def)
  from signature_only_of_reviewed [OF this singleton_device m(1) singletonI d]
  obtain es where "reviewed sample_env 100 TxHash ?h (path_of sample_path) (app_parsed m) es"
    using m by auto
  then show ?thesis using d by (intro exI conjI) (rule d, simp_all)
qed

text \<open>C4: Every item of a pending review is shown in full: it renders without an error, its title is
  the whole title of its key and its value the whole value it stands for, shorter than the 300-byte
  buffer, so nothing is cut off before the user decides.\<close>

theorem pending_items_whole:
  assumes "cap < UNSET" "same_device E" "reachable E cap m" "env \<in> E" "app_pending m = PendingSign kind"
    and "i < review_len m"
  shows "\<exists>t v. review_item env m i = Inr (t, v) \<and> length v < VALUE_BUF \<and>
    t = key_text (i_key (arr_items (p_items (app_parsed m)) ! i)) @
      (if i_key (arr_items (p_items (app_parsed m)) ! i) = KTransfer then
        u32_digits (u8 (length (filter (\<lambda>x. i_key x = KTransfer) (take i (drop 1 (arr_items (p_items (app_parsed m))))))))
       else []) \<and>
    whole_value (p_items (app_parsed m)) (parsed_json (app_parsed m) (review_json m)) (b64 (app_parsed m))
      (public_key env (sign_path m)) (arr_items (p_items (app_parsed m)) ! i) = Inr v"
  using pending_shown [OF assms] title_whole by (auto simp: shown_whole_def review_item_def)

theorem pending_items_whole_witness:
  "\<exists>m. reachable {clear_env} 100 m \<and> tx (dev m) = doc_text \<and>
     (\<exists>t v. review_item clear_env m 5 = Inr (t, v) \<and> length v < VALUE_BUF)"
proof -
  obtain m where m: "reachable {clear_env} 100 m" "app_pending m = PendingSign (SignModern TxJson)"
    "tx (dev m) = doc_text" "review_len m = 13" using doc_is_pending by blast
  have "(100::nat) < UNSET" "5 < review_len m" by (simp_all add: UNSET_def m(4))
  from pending_items_whole [OF this(1) singleton_device m(1) singletonI m(2) this(2)] show ?thesis
    using m by blast
qed

text \<open>C9: The hash on the screen is the hash that is signed: an item that shows the transaction hash
  shows the 43 characters of the digest the signature is computed over.\<close>

theorem hash_item_is_signed:
  assumes "cap < UNSET" "same_device E" "reachable E cap m" "env \<in> E" "app_pending m = PendingSign kind"
    and "i < review_len m" "i_render (arr_items (p_items (app_parsed m)) ! i) = RHash"
    and "signed_digest env (kind_type kind) (kind_bytes kind (dev m)) = Some h"
  shows "review_item env m i = Inr (title (p_items (app_parsed m)) i, shown_hash h)"
proof -
  obtain rev es where r: "rev \<in> E" "kind_ok kind"
    "reviewed rev cap (kind_type kind) (kind_bytes kind (dev m)) (sign_path m) (app_parsed m) es"
    "public_key rev (sign_path m) = public_key env (sign_path m)"
    using pending_review [OF assms(1-5)] by blast
  have "b64 (app_parsed m) = map url_safe (base64_32 h)"
    using reviewed_digest [OF r(3)] same_device_digest [OF assms(2) r(1) assms(4)] assms(8) by auto
  moreover have "shown_whole rev (sign_path m) (app_parsed m) (review_json m) i"
    using pending_whole [OF r(3,2) assms(1)] assms(6) by (simp add: review_len_def)
  ultimately show ?thesis
    using r(4) assms(7) by (auto simp: shown_whole_def whole_value_def review_item_def shown_hash_def)
qed

theorem hash_item_is_signed_witness:
  "\<exists>m. tx (dev m) = replicate 32 (NUL) \<and> review_item sample_env m 1 =
     Inr (title (p_items (app_parsed m)) 1, ''AAAAAAAAAAAAAAAAAAAAAAAAAAAAAAAAAAAAAAAAAAA'')"
proof -
  let ?h = "replicate 32 (NUL)"
  obtain m where m: "reachable {sample_env} 100 m" "app_pending m = PendingSign (SignModern TxHash)"
    "tx (dev m) = ?h" "review_len m = 4" "i_render (arr_items (p_items (app_parsed m)) ! 1) = RHash"
    using hash_is_pending [of ?h] by (auto simp: HASH_LEN_def)
  have c: "(100::nat) < UNSET" "1 < review_len m"
    "signed_digest sample_env (kind_type (SignModern TxHash)) (kind_bytes (SignModern TxHash) (dev m)) = Some ?h"
    by (simp_all add: UNSET_def m signed_digest_def)
  have "shown_hash ?h = ''AAAAAAAAAAAAAAAAAAAAAAAAAAAAAAAAAAAAAAAAAAA''" 
    by (simp add: shown_hash_def base64_32_def replicate_32 B64_STD_def url_safe_def
        NUL_def)
  then show ?thesis
    using hash_item_is_signed [OF c(1) singleton_device m(1) singletonI m(2) c(2) m(5) c(3)] m(3) by auto
qed

text \<open>C5: What is signed with blind signing off is scoped and shown. If the setting is off in every
  environment, a pending review is never of a bare hash, and its document has one signer entry that
  names the device key, a non-empty capability list there, every capability of it one the review can
  show in full (\<open>coin.GAS\<close>, or a coin transfer with its exact number of arguments and a plain amount),
  a recognised \<open>meta\<close>, no \<open>verifiers\<close> and no item whose value is left out.\<close>

theorem clear_signing_is_scoped:
  assumes "cap < UNSET" "reachable E cap m" "app_pending m = PendingSign kind"
    and "\<And>e. e \<in> E \<Longrightarrow> \<not> dev_blind_signing e"
    and "j = parsed_json (app_parsed m) (review_json m)"
  shows "kind_type kind \<noteq> TxHash \<and> \<not> is_ok (get_value j 0 ''verifiers'') \<and>
    (\<exists>rev pk sg signer clist. rev \<in> E \<and> public_key rev (sign_path m) = Some pk \<and>
       get_value j 0 ''signers'' = Inr sg \<and>
       filter (names_key j (hex_lower pk)) (array_elements j sg) = [signer] \<and>
       get_value j signer ''clist'' = Inr clist \<and> array_elements j clist \<noteq> [] \<and>
       list_all (verified_cap j) (array_elements j clist) \<and> validate_meta_field j = Inr () \<and>
       list_all can_display (shown (p_items (app_parsed m))))"
proof -
  obtain rev es where r: "rev \<in> E" "kind_ok kind"
    "reviewed rev cap (kind_type kind) (kind_bytes kind (dev m)) (sign_path m) (app_parsed m) es"
    "kind_type kind = TxHash \<or> list_ex blind_entry es \<longrightarrow> dev_blind_signing rev"
    using reachable_sign [OF assms(1-3)] by blast
  then have ty: "kind_type kind \<noteq> TxHash" and nb: "\<not> list_ex blind_entry es" using assms(4) by blast+
  let ?ps = "app_parsed m"
  have j: "j = parsed_json ?ps (kind_bytes kind (dev m))"
    using reviewed_document [OF r(3,2)] ty assms(5) by simp
  obtain pk signer n where d: "json_wf j" "\<not> is_ok (get_value j 0 ''verifiers'')"
    "public_key rev (sign_path m) = Some pk" "find_device_signer j (hex_lower pk) = Inr (signer, n)"
    "full_review (kind_type kind) j signer n (dev_expert rev) = Inr es" "review_shown (p_items ?ps) es"
    using r(3) ty unfolding reviewed_def reviewed_json_def j by auto
  obtain ts where ts: "tx_review j signer n = Inr ts" "set ts \<subseteq> set es" "es = ts \<or> (\<exists>xs. es = ts @ xs @ expert_entries \<and> expert_meta_review j = Inr xs)"
    using d(5) ty by (auto simp: full_review_def cat_Inr_iff split: if_splits)
  then have "\<not> list_ex blind_entry ts" using nb by (auto simp: list_ex_iff)
  note v = tx_review_verified [OF d(1) ts(1) this]
  have "\<not> list_ex hidden_entry es"
    using v ts(3) hidden_expert by auto
  then have "list_all can_display (shown (p_items ?ps))"
    using list_ex_shows(1) [of "shown (p_items ?ps)" es] d(6)
    by (auto simp: review_shown_def list_all_iff list_ex_iff)
  then show ?thesis using v d r(1) ty find_device_signer_InrD [OF d(1,4)] by blast
qed


theorem clear_signing_is_scoped_witness:
  "\<exists>m :: machine. tx (dev m) = doc_text \<and> app_pending m = PendingSign (SignModern TxJson) \<and>
     (\<exists>sg signer clist j. get_value j 0 ''signers'' = Inr sg \<and> signer \<in> set (array_elements j sg) \<and>
        get_value j signer ''clist'' = Inr clist \<and> array_elements j clist \<noteq> [] \<and>
        list_all (verified_cap j) (array_elements j clist))"
proof -
  obtain m where m: "reachable {clear_env} 100 m" "app_pending m = PendingSign (SignModern TxJson)"
    "tx (dev m) = doc_text" using doc_pending by blast
  have "(100::nat) < UNSET" by (simp add: UNSET_def)
  moreover have "\<not> dev_blind_signing e" if "e \<in> {clear_env}" for e using that env_settings by simp
  ultimately obtain rev pk sg signer clist j where c: "get_value j 0 ''signers'' = Inr sg"
    "filter (names_key j (hex_lower pk)) (array_elements j sg) = [signer]"
    "get_value j signer ''clist'' = Inr clist" "array_elements j clist \<noteq> []"
    "list_all (verified_cap j) (array_elements j clist)"
    using clear_signing_is_scoped [OF _ m(1,2) _ refl] by blast
  have "signer \<in> set (filter (names_key j (hex_lower pk)) (array_elements j sg))" by (simp add: c(2))
  then have "signer \<in> set (array_elements j sg)" by simp
  then show ?thesis using m(2,3) c(1,3-5) by blast
qed

section \<open>Decisions\<close>

text \<open>No signature without a review the device asked for: after a command, a signature is returned
  only if the command's action was a transaction review (a blind-signing review only with the setting
  on); a plain reply, an error or an address review leaves nothing to sign.\<close>

theorem signature_needs_review:
  assumes "cap < UNSET" "reachable E cap m" "handle env cap cla ins p1 p2 data m = (a, m1)"
    and "sign_done env' approved m1 = (r, m2)" "reply_sw r = SW_OK"
  shows "\<exists>blind. a = ReviewTx blind \<and> (blind \<longrightarrow> dev_blind_signing env)"
proof -
  have o: "outcome env cap a m1"
    using handle_outcome [OF _ assms(1,3)] reachable_invariant [OF assms(1,2)] by blast
  obtain kind where "app_pending m1 = PendingSign kind" using sign_done_ok [OF assms(4,5)] by blast
  then show ?thesis using o
    by (cases a) (auto simp: outcome_def address_pending_def sign_pending_def)
qed

theorem signature_needs_review_witness:
  "\<exists>m a m1 r m2. handle sample_env 100 0 INS_SIGN_HASH P1_LAST 0 (replicate 32 NUL) m = (a, m1) \<and>
     sign_done sample_env True m1 = (r, m2) \<and> reply_sw r = SW_OK \<and> (\<exists>blind. a = ReviewTx blind)"
proof -
  let ?h = "replicate 32 NUL"
  have c: "(100::nat) < UNSET" "20 \<le> length sample_path" "length ?h = HASH_LEN" "length (?h @ ?h) \<le> REPLY_MAX"
    by (simp_all add: UNSET_def sample_path_ok HASH_LEN_def REPLY_MAX_def)
  obtain m1 m2 m3 where m:
    "handle sample_env 100 0 INS_SIGN_HASH P1_INIT 0 sample_path machine_new = (Reply (reply_only SW_OK), m1)"
    "handle sample_env 100 0 INS_SIGN_HASH P1_LAST 0 ?h m1 = (ReviewTx True, m2)"
    "sign_done sample_env True m2 = (\<lparr> payload = ?h @ ?h, reply_sw = SW_OK \<rparr>, m3)"
    using hash_session [OF minv_new c(1) env_pins(1) env_settings(1) c(2) sample_path_ok(2) env_keys(1) c(3)
        env_sign(1) c(4), of 0] by blast
  have r: "reachable {sample_env} 100 m1" by (rule reachable.command [OF reachable.start _ m(1)]) simp
  from signature_needs_review [OF c(1) r m(2) m(3)] obtain b where b: "ReviewTx True = ReviewTx b" by auto
  show ?thesis by (intro exI conjI) (rule m(2), rule m(3), simp, rule b)
qed

text \<open>A decision is final: after it, neither a second signature nor an address can be had for the
  same review, whatever the first answer was.\<close>

theorem decision_is_final:
  "fst (sign_done env' approved' (snd (sign_done env approved m))) = reply_only COMMAND_NOT_ALLOWED \<and>
   fst (address_done approved' (snd (sign_done env approved m))) = reply_only COMMAND_NOT_ALLOWED \<and>
   fst (sign_done env' approved' (snd (address_done approved m))) = reply_only COMMAND_NOT_ALLOWED \<and>
   fst (address_done approved' (snd (address_done approved m))) = reply_only COMMAND_NOT_ALLOWED"
  by (simp_all add: sign_done_def address_done_def)

section \<open>Streams and replies\<close>

text \<open>C33: Every chunk of a stream carries the instruction of its first chunk. A middle or last chunk of
  the modern family without an open stream of its instruction, and a chunk of the legacy family while
  a stream of another instruction is open, is answered \<open>0x6987\<close>; it closes the stream, drops what was
  pending and changes nothing else.\<close>

theorem foreign_chunk_refused:
  assumes "os_pin_validated env"
    and "ins \<in> modern_ins \<and> p1 \<in> {P1_ADD, P1_LAST} \<and> app_stream m \<noteq> Modern ins \<or>
      ins \<in> legacy_ins \<and> app_stream m \<notin> {StreamNone, Legacy ins}"
  shows "handle env cap 0 ins p1 p2 data m =
    (Reply (reply_only TX_NOT_INITIALIZED), m \<lparr> app_pending := PendingNone, app_stream := StreamNone \<rparr>)"
  using assms(2)
proof
  assume "ins \<in> modern_ins \<and> p1 \<in> {P1_ADD, P1_LAST} \<and> app_stream m \<noteq> Modern ins"
  then show ?thesis using assms(1)
    by (auto simp: handle_modern sign_chunk_def thn_eq continue_modern_def bnd_def reads_def close_stream_def
        modifies_def fails_def p1_defs)
next
  assume "ins \<in> legacy_ins \<and> app_stream m \<notin> {StreamNone, Legacy ins}"
  then show ?thesis using assms(1)
    by (auto simp: handle_def dispatched_def dispatch_def legacy_ins_def legacy_sign_def legacy_open_def
        legacy_transfer_def legacy_transfer_chunk_def legacy_first_chunk_def bnd_def reads_def
        close_stream_def modifies_def fails_def ins_defs)
qed

theorem foreign_chunk_refused_witness:
  "handle sample_env 100 0 INS_SIGN P1_LAST 0 [] (machine_new \<lparr> app_stream := Modern INS_SIGN_HASH \<rparr>) =
     (Reply (reply_only TX_NOT_INITIALIZED), machine_new)"
  using foreign_chunk_refused [OF env_pins(1), of INS_SIGN P1_LAST "machine_new \<lparr> app_stream := Modern INS_SIGN_HASH \<rparr>" 100 0 "[]"]
  by (simp add: modern_ins_def ins_defs machine_new_def app_new_def app.defs)

text \<open>C31: Address and version commands cannot touch what will be signed: they leave the signing path,
  the buffered transaction, the template and the parsed review as they are, and an open stream is
  either still open or closed.\<close>

theorem address_commands_keep_signing_state:
  assumes "ins \<in> {INS_GET_VERSION, INS_GET_ADDR, INS_LEGACY_GET_VERSION, INS_LEGACY_VERIFY_ADDRESS,
      INS_LEGACY_GET_PUBKEY}"
    and "handle env cap cla ins p1 p2 data m = (a, m')"
  shows "sign_path m' = sign_path m \<and> dev m' = dev m \<and> app_parsed m' = app_parsed m \<and>
    app_stream m' \<in> {app_stream m, StreamNone}"
proof -
  let ?m = "m \<lparr> app_pending := PendingNone \<rparr>"
  have "wp (if ins = INS_GET_VERSION then ret (get_version env)
       else if ins \<in> set dispatched then
         (if \<not> os_pin_validated env then fails COMMAND_NOT_ALLOWED else dispatch env cap ins p1 p2 data)
       else fails INS_NOT_SUPPORTED) (\<lambda>_. same_signing ?m) (\<lambda>_. same_signing ?m) ?m"
    using assms(1) address_handlers_keep
    by (auto simp: dispatch_def wp_simps ins_defs same_signing_def split: prod.splits)
  then have "same_signing ?m m' \<or> m' = ?m"
    using assms(2) by (auto simp: handle_def Let_def wp_def split: if_splits prod.splits sum.splits)
  then show ?thesis by (auto simp: same_signing_def)
qed

theorem address_commands_keep_signing_state_witness:
  "\<exists>a m'. handle sample_env 100 0 INS_LEGACY_GET_PUBKEY 0 0 [] machine_new = (a, m') \<and>
     sign_path m' = replicate 5 0"
proof -
  obtain a m' where h: "handle sample_env 100 0 INS_LEGACY_GET_PUBKEY 0 0 [] machine_new = (a, m')" by fastforce
  from address_commands_keep_signing_state [OF _ h] h show ?thesis
    by (simp add: machine_new_def app_new_def app.defs)
qed

text \<open>No reply overruns the 160-byte reply buffer, whatever the command, its data, the state and
  the environment.\<close>

theorem replies_fit:
  "action_fits (fst (handle env cap cla ins p1 p2 data m)) \<and>
   length (payload (fst (sign_done env approved m))) \<le> REPLY_MAX \<and>
   length (payload (fst (address_done approved m))) \<le> REPLY_MAX"
proof -
  have i: "length (device_info env) \<le> REPLY_MAX"
    using device_info_length [of env] by (simp add: REPLY_MAX_def)
  have v: "action_fits (get_version env)" by (simp add: get_version_def split: prod.split)
  have "action_fits a" if "dispatch env cap ins p1 p2 data x = (Inr a, y)" for a x y
    using that by (rule fitsD [OF fits_dispatch])
  then have "action_fits (fst (handle env cap cla ins p1 p2 data m))"
    using i v by (auto simp: handle_def Let_def ret_def fails_def split: prod.splits sum.splits)
  moreover have "length (payload (sig_reply s extra)) \<le> REPLY_MAX" for s extra
    by (simp add: sig_reply_def split: option.splits)
  ultimately show ?thesis
    by (simp add: sign_done_def address_done_def split: pending.splits sign_kind.splits option.splits bool.splits)
qed

text \<open>A locked device does nothing. Without a validated PIN every command other than the version
  and identification ones is refused with an empty reply and changes nothing but the pending review,
  which it drops.\<close>

theorem locked_device_refuses:
  assumes "\<not> os_pin_validated env" "ins \<noteq> INS_GET_VERSION" "cla = 0"
  shows "handle env cap cla ins p1 p2 data m =
    (Reply (reply_only (if ins \<in> set dispatched then COMMAND_NOT_ALLOWED else INS_NOT_SUPPORTED)),
     m \<lparr> app_pending := PendingNone \<rparr>)"
  using assms by (simp add: handle_def fails_def)

theorem locked_device_refuses_witness:
  "fst (handle (sample_env \<lparr> os_pin_validated := False \<rparr>) 100 0 INS_SIGN 0 0 sample_path machine_new) =
     Reply (reply_only COMMAND_NOT_ALLOWED)"
  using locked_device_refuses [of "sample_env \<lparr> os_pin_validated := False \<rparr>" INS_SIGN 0 100 0 0 sample_path machine_new]
  by (simp add: dispatched_def ins_defs)

section \<open>Whole sessions\<close>

text \<open>A modern stream signs the concatenation of its chunks with the path of its first one. If the
  first chunk and every middle chunk are answered with success and the last one asks for a review,
  then the buffered transaction is exactly the chunks after the first, in order, the signing path is
  the one of the first chunk, and what is pending is a signature of the type of the instruction.\<close>

theorem modern_stream_is_concatenation:
  assumes "cap < UNSET" "reachable E cap m" "env \<in> E" "ins \<in> modern_ins" "os_pin_validated env"
    and "handle env cap 0 ins P1_INIT p2 path m = (Reply r, m1)" "reply_sw r = SW_OK"
    and "add_chunks env cap ins p2 ds m1 = Some m2"
    and "handle env cap 0 ins P1_LAST p2 d m2 = (ReviewTx blind, m3)"
  shows "tx (dev m3) = concat ds @ d \<and> sign_path m3 = path_of path \<and> prefix_ok (path_of path) \<and>
    app_pending m3 = PendingSign (SignModern (stream_type ins))"
proof -
  have mi: "minv m" using reachable_invariant [OF assms(1,2)] by blast
  note p = init_ok [OF assms(4-7)]
  then have m1: "m1 = m \<lparr> app_pending := PendingNone, dev := tx_reset (dev m), app_stream := Modern ins,
        hd_path := path_of path, sign_path := path_of path \<rparr>"
    using init_step [OF assms(4,5)] assms(6) by simp
  have "minv m1" using handle_outcome [OF mi assms(1,6)] by (rule outcome_minv)
  then have m2: "minv m2" "app_stream m2 = Modern ins" "sign_path m2 = path_of path" "tx (dev m2) = concat ds"
    using add_chunks_ok [OF assms(1,4,5,8)] by (simp_all add: m1 dev.contents_reset)
  have "fst (tx_append (dev m2) d)"
  proof (rule ccontr)
    assume "\<not> fst (tx_append (dev m2) d)"
    then show False using assms(4,5,9) m2(2)
      by (cases "tx_append (dev m2) d")
        (simp add: handle_modern sign_chunk_def thn_eq bnd_def continue_modern_def dev_append_def reads_def
          ret_def close_stream_def modifies_def fails_def p1_defs)
  qed
  from last_review [OF m2(1) assms(1,4,5) m2(2) this assms(9)] show ?thesis using m2(3,4) p by simp
qed

theorem modern_stream_is_concatenation_witness:
  "\<exists>m3 :: machine. tx (dev m3) = doc_text \<and> sign_path m3 = path_of sample_path"
proof -
  have c: "(100::nat) < UNSET" "20 \<le> length sample_path" "INS_SIGN \<in> modern_ins"
    by (simp_all add: sample_path_ok UNSET_def modern_ins_def)
  from doc_session [OF minv_new env_pins(2) c(2) sample_path_ok(2) env_hash(2) env_keys(2), of 0]
  obtain m1 m2 m3 where m:
    "handle clear_env 100 0 INS_SIGN P1_INIT 0 sample_path machine_new = (Reply (reply_only SW_OK), m1)"
    "handle clear_env 100 0 INS_SIGN P1_ADD 0 (take 250 doc_text) m1 = (Reply (reply_only SW_OK), m2)"
    "handle clear_env 100 0 INS_SIGN P1_LAST 0 (drop 250 doc_text) m2 = (ReviewTx False, m3)"
    by blast
  have a: "add_chunks clear_env 100 INS_SIGN 0 [take 250 doc_text] m1 = Some m2"
    using m(2) by (simp add: reply_only_def)
  have "reply_sw (reply_only SW_OK) = SW_OK" by (simp add: reply_only_def)
  from modern_stream_is_concatenation [OF c(1) reachable.start singletonI c(3) env_pins(2) m(1) this a m(3)]
  show ?thesis by auto
qed

text \<open>C32: Signing a hash works. From every reachable state, with blind signing on, a path of the accepted
  prefix, 32 bytes and an approval, the session goes through: two replies of success, one blind
  review, and the signature of exactly these 32 bytes with the key of that path.\<close>

theorem hash_session_succeeds:
  assumes "cap < UNSET" "reachable E cap m" "os_pin_validated env" "dev_blind_signing env"
    and "20 \<le> length path" "prefix_ok (path_of path)" "public_key env (path_of path) = Some pk"
    and "length h = HASH_LEN" "dev_sign env (path_of path) h = Some sig" "length sig \<le> REPLY_MAX"
  shows "\<exists>m1 m2 m3.
    handle env cap 0 INS_SIGN_HASH P1_INIT p2 path m = (Reply (reply_only SW_OK), m1) \<and>
    handle env cap 0 INS_SIGN_HASH P1_LAST p2 h m1 = (ReviewTx True, m2) \<and>
    sign_done env True m2 = (\<lparr> payload = sig, reply_sw = SW_OK \<rparr>, m3)"
proof -
  have "minv m" using reachable_invariant [OF assms(1,2)] by blast
  from hash_session [OF this assms(1,3-10), of p2] show ?thesis by blast
qed

theorem hash_session_succeeds_witness:
  "\<exists>m2 m3. sign_done sample_env True m2 =
     (\<lparr> payload = replicate 64 NUL, reply_sw = SW_OK \<rparr>, m3)"
proof -
  let ?h = "replicate 32 NUL"
  have c: "(100::nat) < UNSET" "20 \<le> length sample_path" "length ?h = HASH_LEN" "length (?h @ ?h) \<le> REPLY_MAX"
    by (simp_all add: UNSET_def sample_path_ok HASH_LEN_def REPLY_MAX_def)
  have "?h @ ?h = replicate 64 NUL" by (simp flip: replicate_add)
  then show ?thesis
    using hash_session_succeeds [OF c(1) reachable.start [of "{sample_env}"] env_pins(1) env_settings(1) c(2)
        sample_path_ok(2) env_keys(1) c(3) env_sign(1) c(4), of 0] by auto
qed

end
